(* ===== verification/Proxy_Prelude.thy ===== *)
theory Proxy_Prelude
  imports
    Complex_Main
    "HOL-Library.Word"
    "HOL-Library.Log_Nat"
    "HOL-Library.Monad_Syntax"
begin

text \<open>
  Shared vocabulary of the development: the fixed-width integer types of the program, the
  theorem collections the component proofs use, and generic facts on lists, options and words.
\<close>

unbundle bit_operations_syntax

type_synonym u8 = "8 word"
type_synonym u16 = "16 word"
type_synonym u32 = "32 word"
type_synonym bytes = "8 word list"

text \<open>Collections: the program's named constants, and the rewrite rules of the wire fields.\<close>

named_theorems contract_consts \<open>values of the named constants of the program\<close>
named_theorems wire_simps \<open>rewriting of little-endian fields and frame bytes\<close>

section \<open>Words split into bytes and joined again\<close>

lemma bit_FF_int [simp]: "bit (0xFF :: int) n \<longleftrightarrow> n < 8"
proof -
  have "(0xFF :: int) = mask 8" by (simp add: mask_eq_exp_minus_1)
  then show ?thesis by (simp only: bit_mask_iff) simp
qed

lemma bit_FF_nat [simp]: "bit (0xFF :: nat) n \<longleftrightarrow> n < 8"
proof -
  have "(0xFF :: nat) = mask 8" by (simp add: mask_eq_exp_minus_1)
  then show ?thesis by (simp only: bit_mask_iff) simp
qed

lemma word_join_u16:
  "ucast (ucast (v AND 0xFF) :: u8) OR push_bit 8 (ucast (ucast (drop_bit 8 v) :: u8)) = (v :: u16)"
  by (rule bit_eqI) (auto simp: bit_simps not_le)

lemma word_split_u16:
  fixes a b :: u8
  shows "ucast ((ucast a OR push_bit 8 (ucast b) :: u16) AND 0xFF) = a"
    and "ucast (drop_bit 8 (ucast a OR push_bit 8 (ucast b) :: u16)) = b"
  by (rule bit_eqI, auto simp: bit_simps dest: bit_imp_le_length)+

lemma word_join_u32:
  "ucast (ucast (v AND 0xFF) :: u8) OR push_bit 8 (ucast (ucast (drop_bit 8 v AND 0xFF) :: u8)) OR
   push_bit 16 (ucast (ucast (drop_bit 16 v AND 0xFF) :: u8)) OR
   push_bit 24 (ucast (ucast (drop_bit 24 v) :: u8)) = (v :: u32)"
proof (rule bit_eqI)
  fix n assume "possible_bit TYPE(u32) n"
  then have "n < 32" by (simp add: possible_bit_word)
  then consider "n < 8" | "8 \<le> n" "n < 16" | "16 \<le> n" "n < 24" | "24 \<le> n" "n < 32" by linarith
  then show "bit (ucast (ucast (v AND 0xFF) :: u8) OR
       push_bit 8 (ucast (ucast (drop_bit 8 v AND 0xFF) :: u8)) OR
       push_bit 16 (ucast (ucast (drop_bit 16 v AND 0xFF) :: u8)) OR
       push_bit 24 (ucast (ucast (drop_bit 24 v) :: u8)) :: u32) n = bit (v :: u32) n"
    by cases (auto simp: bit_simps)
qed

lemma word_split_u32:
  fixes a b c e :: u8
  defines "w \<equiv> ucast a OR push_bit 8 (ucast b) OR push_bit 16 (ucast c) OR push_bit 24 (ucast e) :: u32"
  shows "ucast (w AND 0xFF) = a" and "ucast (drop_bit 8 w AND 0xFF) = b"
    and "ucast (drop_bit 16 w AND 0xFF) = c" and "ucast (drop_bit 24 w) = e"
  by (rule bit_eqI, auto simp: w_def bit_simps dest: bit_imp_le_length)+

end
