(* ===== verification/Cli_Config.thy ===== *)
theory Cli_Config
  imports Proxy_Prelude
begin

text \<open>
  Logging and the command line: \<^verbatim>\<open>core/Log.cpp\<close>, \<^verbatim>\<open>core/Config.h\<close>, \<^verbatim>\<open>core/Config.cpp\<close>. The environment
  variable and the plugin directory chosen at build time are arguments of \<open>parse\<close>. An error is the
  message \<open>parse\<close> returns; the empty message is success, as in the code.
\<close>

section \<open>Log levels\<close>

datatype LogLevel = LogError | LogWarn | LogInfo | LogDebug

fun level_value :: "LogLevel \<Rightarrow> int" where
  "level_value LogError = 0"
| "level_value LogWarn = 1"
| "level_value LogInfo = 2"
| "level_value LogDebug = 3"

definition parseLogLevel :: "string \<Rightarrow> LogLevel option" where
  "parseLogLevel name =
     (if name = ''error'' then Some LogError
      else if name = ''warn'' then Some LogWarn
      else if name = ''info'' then Some LogInfo
      else if name = ''debug'' then Some LogDebug
      else None)"

definition log_names :: "string list" where
  "log_names = [''error'', ''warn'', ''info'', ''debug'']"

text \<open>The level the process logs at, an atomic integer.\<close>

definition g_level :: int where
  "g_level = level_value LogInfo"

definition setLogLevel :: "LogLevel \<Rightarrow> int \<Rightarrow> int" where
  "setLogLevel level g = level_value level"

definition logLevel_of :: "int \<Rightarrow> LogLevel" where
  "logLevel_of g = (if g = 0 then LogError else if g = 1 then LogWarn else if g = 2 then LogInfo else LogDebug)"

lemma logLevel_set: "logLevel_of (setLogLevel level g) = level" "logLevel_of g_level = LogInfo"
  by (cases level; simp add: logLevel_of_def setLogLevel_def g_level_def)+

text \<open>The line \<open>log\<close> prints at the current level, if any.\<close>

definition log_line :: "LogLevel \<Rightarrow> LogLevel \<Rightarrow> string \<Rightarrow> string \<Rightarrow> string option" where
  "log_line current level tag message =
     (if level_value level > level_value current then None
      else Some (log_names ! nat (level_value level) @ '' '' @ tag @ '': '' @ message @ [CHR 0x0A]))"

section \<open>Configuration\<close>

record Config =
  contractIf :: string
  vehicleIf :: string
  plugin :: string
  pluginDir :: string
  pluginArgs :: "(string \<times> string) list"
  pluginTimeoutMs :: u32
  recordPath :: string
  logLevel :: LogLevel
  help_wanted :: bool

definition Config_default :: Config where
  "Config_default = \<lparr> contractIf = [], vehicleIf = [], plugin = [], pluginDir = [], pluginArgs = [],
     pluginTimeoutMs = 1000, recordPath = [], logLevel = LogInfo, help_wanted = False \<rparr>"

definition Config_usage :: "string \<Rightarrow> string \<Rightarrow> string" where
  "Config_usage default_dir prog = concat (map (\<lambda>l. l @ [CHR 0x0A])
     [''Usage: '' @ prog @ '' --contract-if=<if> --plugin=<name|/path.so> [options]'',
      [],
      ''  --contract-if=<if>        CAN interface to publish the contract on (e.g. vcan0)'',
      ''  --vehicle-if=<if>         CAN interface the plugin reads the vehicle from'',
      ''  --plugin=<name|path>      plugin name (resolved in --plugin-dir) or path to a .so'',
      ''  --plugin-dir=<dir>        default '' @ default_dir,
      ''  --plugin-arg key=value    passed to the plugin, repeatable'',
      ''  --plugin-timeout-ms=<n>   plugin silence before signals go unknown (default 1000)'',
      ''  --record=<file>           record the vehicle side in candump format (plugin arg record=)'',
      ''  --log-level=<level>       error|warn|info|debug (default info)'',
      ''  --help''])"

text \<open>
  \<open>takeValue\<close>: the value of an option written \<open>key=value\<close> or \<open>key value\<close>, and the arguments left.
\<close>

definition takeValue :: "string \<Rightarrow> string \<Rightarrow> string list \<Rightarrow> (string \<times> string list) option" where
  "takeValue arg key rest =
     (if take (length key + 1) arg = key @ ''='' then Some (drop (length key + 1) arg, rest)
      else if arg = key then (case rest of [] \<Rightarrow> None | v # rest' \<Rightarrow> Some (v, rest'))
      else None)"

text \<open>
  \<open>strtol\<close> in base 10: leading white space, a sign, digits; the value saturates at the range of a
  64-bit \<open>long\<close>; without digits the result is 0 and nothing is consumed.
\<close>

definition is_space :: "char \<Rightarrow> bool" where
  "is_space c \<longleftrightarrow> c = CHR '' '' \<or> (9 \<le> (of_char c :: nat) \<and> (of_char c :: nat) \<le> 13)"

definition is_digit :: "char \<Rightarrow> bool" where
  "is_digit c \<longleftrightarrow> 48 \<le> (of_char c :: nat) \<and> (of_char c :: nat) \<le> 57"

definition digits_value :: "string \<Rightarrow> int" where
  "digits_value ds = fold (\<lambda>c n. 10 * n + (int (of_char c) - 48)) ds 0"

definition strtol :: "string \<Rightarrow> int \<times> string" where
  "strtol s = (
     let t = dropWhile is_space s;
         neg = (t \<noteq> [] \<and> hd t = CHR ''-'');
         u = (if t \<noteq> [] \<and> (hd t = CHR ''-'' \<or> hd t = CHR ''+'') then tl t else t);
         ds = takeWhile is_digit u;
         n = (if neg then - digits_value ds else digits_value ds)
     in if ds = [] then (0, s) else (max (- (2 ^ 63)) (min (2 ^ 63 - 1) n), dropWhile is_digit u))"

abbreviation quoted :: "string \<Rightarrow> string" where
  "quoted s \<equiv> [CHR 0x27] @ s @ [CHR 0x27]"

text \<open>One round of the argument loop: an error or help ends it, anything else goes on with the rest.\<close>

datatype parse_step = Stop string Config | Continue Config "string list"

definition with_value ::
  "string \<Rightarrow> string \<Rightarrow> string list \<Rightarrow> (string \<Rightarrow> string list \<Rightarrow> parse_step) \<Rightarrow> parse_step \<Rightarrow> parse_step" where
  "with_value arg key rest taken otherwise =
     (case takeValue arg key rest of Some (v, rest') \<Rightarrow> taken v rest' | None \<Rightarrow> otherwise)"

definition parse_plugin_arg :: "Config \<Rightarrow> string \<Rightarrow> string list \<Rightarrow> parse_step" where
  "parse_plugin_arg out v rest = (
     let k = takeWhile (\<lambda>c. c \<noteq> CHR ''='') v
     in if k = v \<or> k = [] then Stop (''--plugin-arg expects key=value, got '' @ quoted v) out
        else Continue (out\<lparr> pluginArgs := pluginArgs out @ [(k, drop (length k + 1) v)] \<rparr>) rest)"

definition parse_timeout :: "Config \<Rightarrow> string \<Rightarrow> string list \<Rightarrow> parse_step" where
  "parse_timeout out v rest = (
     let (n, end) = strtol v
     in if end \<noteq> [] \<or> n \<le> 0 then Stop ''--plugin-timeout-ms expects a positive integer'' out
        else Continue (out\<lparr> pluginTimeoutMs := word_of_int n \<rparr>) rest)"

definition parse_record :: "Config \<Rightarrow> string \<Rightarrow> string list \<Rightarrow> parse_step" where
  "parse_record out v rest =
     (if v = [] then Stop ''--record expects a file path'' out
      else Continue (out\<lparr> recordPath := v \<rparr>) rest)"

definition parse_log_level :: "Config \<Rightarrow> string \<Rightarrow> string list \<Rightarrow> parse_step" where
  "parse_log_level out v rest =
     (case parseLogLevel v of
        None \<Rightarrow> Stop (''unknown log level '' @ quoted v) out
      | Some l \<Rightarrow> Continue (out\<lparr> logLevel := l \<rparr>) rest)"

definition parse_arg :: "Config \<Rightarrow> string \<Rightarrow> string list \<Rightarrow> parse_step" where
  "parse_arg out arg rest =
     (if arg = ''--help'' \<or> arg = ''-h'' then Stop [] (out\<lparr> help_wanted := True \<rparr>)
      else with_value arg ''--contract-if'' rest (\<lambda>v. Continue (out\<lparr> contractIf := v \<rparr>))
          (with_value arg ''--vehicle-if'' rest (\<lambda>v. Continue (out\<lparr> vehicleIf := v \<rparr>))
          (with_value arg ''--plugin'' rest (\<lambda>v. Continue (out\<lparr> plugin := v \<rparr>))
          (with_value arg ''--plugin-dir'' rest (\<lambda>v. Continue (out\<lparr> pluginDir := v \<rparr>))
          (with_value arg ''--plugin-arg'' rest (parse_plugin_arg out)
          (with_value arg ''--plugin-timeout-ms'' rest (parse_timeout out)
          (with_value arg ''--record'' rest (parse_record out)
          (with_value arg ''--log-level'' rest (parse_log_level out)
          (Stop (''unknown argument '' @ quoted arg) out)))))))))"

lemma takeValue_length: "takeValue arg key rest = Some (v, rest') \<Longrightarrow> length rest' \<le> length rest"
  by (auto simp: takeValue_def split: if_splits list.splits)

lemma with_valueI:
  "(\<And>v r. takeValue arg key rest = Some (v, r) \<Longrightarrow> length r \<le> length rest \<Longrightarrow> P (taken v r)) \<Longrightarrow> P otherwise \<Longrightarrow>
    P (with_value arg key rest taken otherwise)"
  by (auto simp: with_value_def takeValue_length split: option.splits)

text \<open>What one round may do: a property of all the outcomes of the options holds of \<open>parse_arg\<close>.\<close>

lemma parse_argI:
  assumes "P (Stop [] (out\<lparr> help_wanted := True \<rparr>))" "P (Stop (''unknown argument '' @ quoted arg) out)"
    and "\<And>v r. length r \<le> length rest \<Longrightarrow> P (Continue (out\<lparr> contractIf := v \<rparr>) r)"
    and "\<And>v r. length r \<le> length rest \<Longrightarrow> P (Continue (out\<lparr> vehicleIf := v \<rparr>) r)"
    and "\<And>v r. length r \<le> length rest \<Longrightarrow> P (Continue (out\<lparr> plugin := v \<rparr>) r)"
    and "\<And>v r. length r \<le> length rest \<Longrightarrow> P (Continue (out\<lparr> pluginDir := v \<rparr>) r)"
    and "\<And>v r. length r \<le> length rest \<Longrightarrow> P (parse_plugin_arg out v r)"
    and "\<And>v r. length r \<le> length rest \<Longrightarrow> P (parse_timeout out v r)"
    and "\<And>v r. length r \<le> length rest \<Longrightarrow> P (parse_record out v r)"
    and "\<And>v r. length r \<le> length rest \<Longrightarrow> P (parse_log_level out v r)"
  shows "P (parse_arg out arg rest)"
proof (cases "arg = ''--help'' \<or> arg = ''-h''")
  case True
  show ?thesis unfolding parse_arg_def if_P [OF True] by (rule assms)
next
  case False
  note wv = with_valueI [where P = P]
  show ?thesis unfolding parse_arg_def if_not_P [OF False]
    by (rule wv [OF assms(3)], assumption, rule wv [OF assms(4)], assumption,
      rule wv [OF assms(5)], assumption, rule wv [OF assms(6)], assumption,
      rule wv [OF assms(7)], assumption, rule wv [OF assms(8)], assumption,
      rule wv [OF assms(9)], assumption, rule wv [OF assms(10)], assumption, rule assms(2))
qed

lemmas parse_options = parse_plugin_arg_def parse_timeout_def parse_record_def parse_log_level_def

lemma parse_arg_length:
  assumes "parse_arg out arg rest = Continue out' rest'"
  shows "length rest' \<le> length rest"
proof -
  have "\<forall>o' r'. parse_arg out arg rest = Continue o' r' \<longrightarrow> length r' \<le> length rest"
    by (rule parse_argI [of "\<lambda>st. \<forall>o' r'. st = Continue o' r' \<longrightarrow> length r' \<le> length rest"])
      (auto simp: parse_options Let_def split: option.splits prod.splits)
  then show ?thesis using assms by blast
qed

text \<open>The loop and the checks after it. The first argument is the program's name.\<close>

function parse_loop :: "Config \<Rightarrow> string list \<Rightarrow> parse_step" where
  "parse_loop out [] = Continue out []"
| "parse_loop out (arg # rest) =
     (case parse_arg out arg rest of
        Stop err out' \<Rightarrow> Stop err out'
      | Continue out' rest' \<Rightarrow> parse_loop out' rest')"
  by pat_completeness auto
termination
  by (relation "measure (\<lambda>(out, args). length args)") (auto dest: parse_arg_length)

definition parse_end :: "Config \<Rightarrow> string \<times> Config" where
  "parse_end out = (
     let out = (if recordPath out \<noteq> [] then out\<lparr> pluginArgs := pluginArgs out @ [(''record'', recordPath out)] \<rparr> else out)
     in if contractIf out = [] then (''--contract-if is required'', out)
        else if plugin out = [] then (''--plugin is required'', out)
        else ([], out))"

definition Config_parse :: "string \<Rightarrow> string option \<Rightarrow> string list \<Rightarrow> string \<times> Config" where
  "Config_parse default_dir env argv = (
     let out = Config_default\<lparr> pluginDir := default_dir \<rparr>;
         out = (case env of Some dir \<Rightarrow> out\<lparr> pluginDir := dir \<rparr> | None \<Rightarrow> out)
     in case parse_loop out (drop 1 argv) of
          Stop err out \<Rightarrow> (err, out)
        | Continue out _ \<Rightarrow> parse_end out)"

definition ends_with :: "string \<Rightarrow> string \<Rightarrow> bool" where
  "ends_with s t \<longleftrightarrow> length t \<le> length s \<and> drop (length s - length t) s = t"

definition resolvePluginPath :: "Config \<Rightarrow> string" where
  "resolvePluginPath c = (
     let isPath = CHR ''/'' \<in> set (plugin c);
         isSo = length (plugin c) > 3 \<and> ends_with (plugin c) ''.so''
     in if isPath \<or> isSo then plugin c else pluginDir c @ ''/'' @ plugin c @ ''.so'')"

section \<open>What parsing guarantees\<close>

definition good_key :: "string \<times> string \<Rightarrow> bool" where
  "good_key kv \<longleftrightarrow> fst kv \<noteq> [] \<and> CHR ''='' \<notin> set (fst kv)"

definition good_step :: "parse_step \<Rightarrow> bool" where
  "good_step st = (case st of
     Stop err out \<Rightarrow> (err = [] \<longrightarrow> help_wanted out)
   | Continue out _ \<Rightarrow> (\<forall>kv \<in> set (pluginArgs out). good_key kv) \<and> \<not> help_wanted out)"

lemma key_of_arg:
  assumes "takeWhile (\<lambda>c. c \<noteq> CHR ''='') v = k"
  shows "CHR ''='' \<notin> set k"
  using assms by (auto dest: set_takeWhileD)

lemma parse_arg_good:
  assumes "\<forall>kv \<in> set (pluginArgs out). good_key kv" "\<not> help_wanted out"
  shows "good_step (parse_arg out arg rest)"
  by (rule parse_argI)
    (use assms key_of_arg in \<open>auto simp: good_step_def good_key_def parse_options Let_def split: option.splits prod.splits\<close>)

lemma parse_loop_good:
  assumes "\<forall>kv \<in> set (pluginArgs out). good_key kv" "\<not> help_wanted out"
  shows "good_step (parse_loop out args)"
  using assms
proof (induction out args rule: parse_loop.induct)
  case (2 out arg rest)
  have "good_step (parse_arg out arg rest)" using "2.prems" by (rule parse_arg_good)
  then show ?case
    using 2 by (cases "parse_arg out arg rest") (auto simp: good_step_def)
qed (simp add: good_step_def)

section \<open>Writing a configuration as arguments\<close>

fun dec :: "nat \<Rightarrow> string" where
  "dec n = (if n < 10 then [char_of (48 + n)] else dec (n div 10) @ [char_of (48 + n mod 10)])"

declare dec.simps [simp del]

lemma digit_char: "n < 10 \<Longrightarrow> is_digit (char_of (48 + n)) \<and> int (of_char (char_of (48 + n :: nat) :: char)) = 48 + int n"
  by (simp add: is_digit_def)

lemma dec_digits: "\<forall>c \<in> set (dec n). is_digit c" "dec n \<noteq> []"
proof (induction n rule: dec.induct)
  case (1 n)
  case 1
  show ?case using "1.IH"(1) digit_char [of n] digit_char [of "n mod 10"] by (subst dec.simps) auto
  case 2
  show ?case by (subst dec.simps) simp
qed

lemma dec_value: "digits_value (dec n) = int n"
proof (induction n rule: dec.induct)
  case (1 n)
  show ?case
  proof (cases "n < 10")
    case True
    then show ?thesis using digit_char [of n] by (subst dec.simps) (simp add: digits_value_def)
  next
    case False
    then have "digits_value (dec n) = 10 * digits_value (dec (n div 10)) + int (n mod 10)"
      using digit_char [of "n mod 10"] by (subst dec.simps) (simp add: digits_value_def)
    also have "\<dots> = 10 * int (n div 10) + int (n mod 10)" using 1 False by simp
    also have "\<dots> = int (10 * (n div 10) + n mod 10)" by (simp only: of_nat_add of_nat_mult of_nat_numeral)
    also have "\<dots> = int n" by (simp only: mult_div_mod_eq)
    finally show ?thesis .
  qed
qed

lemma digit_not_special: "is_digit c \<Longrightarrow> \<not> is_space c \<and> c \<noteq> CHR ''-'' \<and> c \<noteq> CHR ''+''"
  by (auto simp: is_digit_def is_space_def)

lemma strtol_dec: "int n < 2 ^ 63 \<Longrightarrow> strtol (dec n) = (int n, [])"
proof -
  assume n: "int n < 2 ^ 63"
  obtain c cs where d: "dec n = c # cs" using dec_digits(2) [of n] by (cases "dec n") auto
  have c: "is_digit c" "\<forall>x \<in> set (c # cs). is_digit x" using dec_digits(1) [of n] d by auto
  then have "dropWhile is_space (dec n) = dec n" "takeWhile is_digit (dec n) = dec n" "dropWhile is_digit (dec n) = []"
    using digit_not_special [OF c(1)] unfolding d by (auto simp: takeWhile_eq_all_conv dropWhile_eq_Nil_conv)
  moreover have "hd (dec n) \<noteq> CHR ''-''" "hd (dec n) \<noteq> CHR ''+''"
    using digit_not_special [OF c(1)] by (simp_all add: d)
  ultimately show ?thesis
    using n dec_value [of n] dec_digits(2) [of n]
    by (simp add: strtol_def Let_def del: takeWhile_eq_all_conv dropWhile_eq_Nil_conv)
qed

definition level_name :: "LogLevel \<Rightarrow> string" where
  "level_name l = log_names ! nat (level_value l)"

text \<open>The arguments that say what a configuration says (\<open>--record\<close> apart, which adds an argument).\<close>

definition config_args :: "Config \<Rightarrow> string list" where
  "config_args c =
     [''--contract-if='' @ contractIf c, ''--vehicle-if='' @ vehicleIf c, ''--plugin='' @ plugin c,
      ''--plugin-dir'', pluginDir c] @
     map (\<lambda>(k, v). ''--plugin-arg='' @ k @ ''='' @ v) (pluginArgs c) @
     [''--plugin-timeout-ms'', dec (unat (pluginTimeoutMs c)), ''--log-level='' @ level_name (logLevel c)]"

lemmas parse_arg_simps = parse_arg_def with_value_def takeValue_def

lemma parse_contract_if: "parse_arg out (''--contract-if='' @ v) rest = Continue (out\<lparr> contractIf := v \<rparr>) rest"
  by (simp add: parse_arg_simps)

lemma parse_vehicle_if: "parse_arg out (''--vehicle-if='' @ v) rest = Continue (out\<lparr> vehicleIf := v \<rparr>) rest"
  by (simp add: parse_arg_simps)

lemma parse_plugin: "parse_arg out (''--plugin='' @ v) rest = Continue (out\<lparr> plugin := v \<rparr>) rest"
  by (simp add: parse_arg_simps)

lemma parse_plugin_dir: "parse_arg out ''--plugin-dir'' (v # rest) = Continue (out\<lparr> pluginDir := v \<rparr>) rest"
  by (simp add: parse_arg_simps)

lemma parse_key_value:
  assumes "good_key (k, v)"
  shows "parse_arg out (''--plugin-arg='' @ k @ ''='' @ v) rest =
    Continue (out\<lparr> pluginArgs := pluginArgs out @ [(k, v)] \<rparr>) rest"
proof -
  have "takeWhile (\<lambda>c. c \<noteq> CHR ''='') (k @ ''='' @ v) = k"
    using assms by (subst takeWhile_append2) (auto simp: good_key_def)
  then show ?thesis
    using assms by (simp add: parse_arg_simps parse_plugin_arg_def Let_def good_key_def)
qed

lemma parse_timeout_dec:
  assumes "0 < n" "int n < 2 ^ 63"
  shows "parse_arg out ''--plugin-timeout-ms'' (dec n # rest) =
    Continue (out\<lparr> pluginTimeoutMs := word_of_int (int n) \<rparr>) rest"
  using assms by (simp add: parse_arg_simps parse_timeout_def strtol_dec)

lemma parse_level: "parse_arg out (''--log-level='' @ level_name l) rest = Continue (out\<lparr> logLevel := l \<rparr>) rest"
  by (cases l) (simp_all add: level_name_def parse_arg_simps parse_log_level_def parseLogLevel_def log_names_def)

lemma parse_key_values:
  assumes "\<forall>kv \<in> set kvs. good_key kv"
  shows "parse_loop out (map (\<lambda>(k, v). ''--plugin-arg='' @ k @ ''='' @ v) kvs @ rest) =
    parse_loop (out\<lparr> pluginArgs := pluginArgs out @ kvs \<rparr>) rest"
  using assms
proof (induction kvs arbitrary: out)
  case (Cons kv kvs)
  then show ?case using parse_key_value [of "fst kv" "snd kv"] by (cases kv) simp
qed simp

section \<open>Properties\<close>

text \<open>
  C32: Reading back what was written: the arguments of any well-formed configuration parse to that
  configuration, whatever the environment and the built-in plugin directory say.
\<close>

theorem config_round_trip:
  assumes "contractIf c \<noteq> []" "plugin c \<noteq> []" "pluginTimeoutMs c \<noteq> 0" "recordPath c = []" "\<not> help_wanted c"
    and "\<forall>kv \<in> set (pluginArgs c). good_key kv"
  shows "Config_parse default_dir env (prog # config_args c) = ([], c)"
proof -
  have t: "0 < unat (pluginTimeoutMs c)" "int (unat (pluginTimeoutMs c)) < 2 ^ 63"
    using assms(3) uint_lt2p [of "pluginTimeoutMs c"] by (simp_all add: unat_gt_0)
  have "Config_parse default_dir env (prog # config_args c) = parse_end
      ((case env of Some dir \<Rightarrow> Config_default\<lparr> pluginDir := dir \<rparr> | None \<Rightarrow> Config_default\<lparr> pluginDir := default_dir \<rparr>)
        \<lparr> contractIf := contractIf c, vehicleIf := vehicleIf c, plugin := plugin c, pluginDir := pluginDir c,
          pluginArgs := pluginArgs c, pluginTimeoutMs := word_of_int (int (unat (pluginTimeoutMs c))),
          logLevel := logLevel c \<rparr>)"
    using assms(6)
    by (simp add: Config_parse_def config_args_def parse_contract_if [simplified] parse_vehicle_if [simplified]
        parse_plugin [simplified] parse_plugin_dir parse_key_values [simplified] parse_timeout_dec [OF t]
        parse_level [simplified] Config_default_def split: option.splits)
  also have "\<dots> = ([], c)"
    using assms by (cases c) (simp add: parse_end_def Let_def Config_default_def split: option.splits)
  finally show ?thesis .
qed

definition sample_config :: Config where
  "sample_config = Config_default\<lparr> contractIf := ''vcan0'', vehicleIf := ''can0'', plugin := ''obd2-ice'',
     pluginDir := ''/opt/p'', pluginArgs := [(''vin'', ''W=1''), (''x'', [])], pluginTimeoutMs := 2500, logLevel := LogDebug \<rparr>"

theorem config_round_trip_witness:
  "Config_parse ''/usr'' (Some ''/env'') (''can-proxyd'' # config_args sample_config) = ([], sample_config)"
  by (rule config_round_trip) (simp_all add: sample_config_def Config_default_def good_key_def)

text \<open>
  An accepted command line (no error, no help) names a contract interface and a plugin, and every
  plugin argument has a non-empty key without an equals sign.
\<close>

lemma accepted_config:
  assumes "Config_parse default_dir env argv = ([], cfg)" "\<not> help_wanted cfg"
  shows "contractIf cfg \<noteq> [] \<and> plugin cfg \<noteq> [] \<and>
    (\<forall>(k, v) \<in> set (pluginArgs cfg). k \<noteq> [] \<and> CHR ''='' \<notin> set k)"
proof -
  define out0 where "out0 = (case env of Some dir \<Rightarrow> Config_default\<lparr> pluginDir := dir \<rparr>
    | None \<Rightarrow> Config_default\<lparr> pluginDir := default_dir \<rparr>)"
  have "good_step (parse_loop out0 (drop 1 argv))"
    by (rule parse_loop_good) (auto simp: out0_def Config_default_def split: option.splits)
  moreover have "Config_parse default_dir env argv =
      (case parse_loop out0 (drop 1 argv) of Stop err out \<Rightarrow> (err, out) | Continue out _ \<Rightarrow> parse_end out)"
    by (simp add: Config_parse_def out0_def split: option.splits)
  ultimately show ?thesis
    using assms
    by (auto simp: good_step_def good_key_def parse_end_def Let_def split: parse_step.splits if_splits)
qed


text \<open>
  Every plugin timeout from 1 to 2^63 - 1 is accepted, and stored modulo 2^32: a timeout of exactly
  2^32 ms is accepted and stored as 0.
\<close>

lemma timeout_stored_modulo:
  assumes "0 < n" "int n < 2 ^ 63"
  shows "\<exists>cfg. Config_parse default_dir env
      [prog, ''--contract-if=vcan0'', ''--plugin=sim'', ''--plugin-timeout-ms'', dec n] = ([], cfg) \<and>
    uint (pluginTimeoutMs cfg) = int n mod 2 ^ 32"
proof -
  have "uint (word_of_int (int n) :: u32) = int n mod 2 ^ 32"
    by (simp only: uint_word_of_int take_bit_eq_mod) simp
  then show ?thesis
    by (simp add: Config_parse_def parse_contract_if [of _ "''vcan0''", simplified]
      parse_plugin [of _ "''sim''", simplified] parse_timeout_dec [OF assms] parse_end_def Let_def
      Config_default_def split: option.splits)
qed

lemma timeout_wraps_to_zero:
  "\<exists>cfg. Config_parse ''/p'' None
      [''d'', ''--contract-if=vcan0'', ''--plugin=sim'', ''--plugin-timeout-ms'', dec 4294967296] = ([], cfg) \<and>
    pluginTimeoutMs cfg = 0"
  using timeout_stored_modulo [of 4294967296 "''/p''" None "''d''"] by (simp add: word_uint_eq_iff)

text \<open>
  A plugin given by name (no slash, no \<^verbatim>\<open>.so\<close> suffix) resolves to a file of that name inside the plugin
  directory; anything else is taken as the path itself.
\<close>

lemma plugin_path:
  "resolvePluginPath c =
    (if CHR ''/'' \<in> set (plugin c) \<or> (\<exists>stem. stem \<noteq> [] \<and> plugin c = stem @ ''.so'')
     then plugin c else pluginDir c @ ''/'' @ plugin c @ ''.so'')"
proof -
  have "length (plugin c) > 3 \<and> ends_with (plugin c) ''.so'' \<longleftrightarrow> (\<exists>stem. stem \<noteq> [] \<and> plugin c = stem @ ''.so'')"
  proof
    assume a: "length (plugin c) > 3 \<and> ends_with (plugin c) ''.so''"
    then have "drop (length (plugin c) - 3) (plugin c) = ''.so''" by (simp add: ends_with_def numeral_3_eq_3)
    then have "plugin c = take (length (plugin c) - 3) (plugin c) @ ''.so''"
      by (metis append_take_drop_id)
    moreover have "take (length (plugin c) - 3) (plugin c) \<noteq> []" using a by auto
    ultimately show "\<exists>stem. stem \<noteq> [] \<and> plugin c = stem @ ''.so''" by blast
  qed (auto simp: ends_with_def)
  then show ?thesis by (simp add: resolvePluginPath_def Let_def)
qed

end
