(* ===== verification/Ieee_Float.thy ===== *)
theory Ieee_Float
  imports Proxy_Prelude
begin

text \<open>
  The C++ \<open>double\<close> and \<open>float\<close> of the program: IEEE 754 values with infinities and NaN,
  round-to-nearest-even with gradual underflow, and the conversion to \<open>long\<close>.

  A finite value is a rational number. The model type is larger than the set of binary64
  values (every rational is a value of the type), so a theorem about all values of the type
  covers all doubles; every arithmetic result is rounded, so it is a double again. The sign
  of zero is not kept: no comparison, sum, product or conversion of the program depends on it,
  and no divisor of the program is a zero that arithmetic could have signed.

  Rounding works on numerator and denominator, so that a closed term evaluates in the kernel.
\<close>

section \<open>Rounding a quotient to an integer, ties to even\<close>

definition round_div :: "int \<Rightarrow> int \<Rightarrow> int" where
  "round_div n d =
     (let q = n div d; r = n mod d in
      if 2 * r < d then q
      else if d < 2 * r then q + 1
      else if even q then q else q + 1)"

lemma round_div_exact: "0 < d \<Longrightarrow> round_div (m * d) d = m"
  by (simp add: round_div_def Let_def)

lemma round_div_scale:
  assumes "0 < k" "0 < d"
  shows "round_div (k * n) (k * d) = round_div n d"
proof -
  have "2 * (k * (n mod d)) < k * d \<longleftrightarrow> 2 * (n mod d) < d"
    using assms(1) by (simp only: mult.left_commute [of 2 k] mult_less_cancel_left_pos)
  moreover have "k * d < 2 * (k * (n mod d)) \<longleftrightarrow> d < 2 * (n mod d)"
    using assms(1) by (simp only: mult.left_commute [of 2 k] mult_less_cancel_left_pos)
  moreover have "k * n div (k * d) = n div d" "k * n mod (k * d) = k * (n mod d)"
    using assms(1) by simp_all
  ultimately show ?thesis
    by (simp only: round_div_def Let_def)
qed

lemma round_div_near_int:
  assumes "0 < d"
  shows "\<bar>2 * (n - d * round_div n d)\<bar> \<le> d"
proof -
  define q r where "q = n div d" and "r = n mod d"
  have n: "n = d * q + r" and r: "0 \<le> r" "r < d"
    using assms by (simp_all add: q_def r_def)
  have "round_div n d = q \<and> 2 * r \<le> d \<or> round_div n d = q + 1 \<and> d \<le> 2 * r"
    unfolding round_div_def Let_def q_def [symmetric] r_def [symmetric] by auto
  then show ?thesis
    using r by (auto simp: n algebra_simps)
qed

lemma round_div_near:
  assumes "0 < d"
  shows "\<bar>rat_of_int (round_div n d) - rat_of_int n / rat_of_int d\<bar> \<le> 1 / 2"
proof -
  let ?m = "round_div n d"
  have "rat_of_int \<bar>2 * (n - d * ?m)\<bar> \<le> rat_of_int d"
    using round_div_near_int [OF assms] by (simp only: of_int_le_iff)
  then have "\<bar>2 * (rat_of_int n - rat_of_int d * rat_of_int ?m)\<bar> \<le> rat_of_int d"
    by simp
  then have "\<bar>rat_of_int n - rat_of_int d * rat_of_int ?m\<bar> \<le> rat_of_int d / 2"
    by (simp only: abs_mult) simp
  moreover have "\<bar>rat_of_int ?m - rat_of_int n / rat_of_int d\<bar> * rat_of_int d
      = \<bar>rat_of_int n - rat_of_int d * rat_of_int ?m\<bar>"
  proof -
    have "(rat_of_int ?m - rat_of_int n / rat_of_int d) * rat_of_int d
        = rat_of_int d * rat_of_int ?m - rat_of_int n"
      using assms by (simp add: field_simps)
    then show ?thesis
      using assms by (metis abs_minus_commute abs_mult abs_of_pos of_int_0_less_iff)
  qed
  ultimately have "\<bar>rat_of_int ?m - rat_of_int n / rat_of_int d\<bar> * rat_of_int d
      \<le> (1 / 2) * rat_of_int d"
    by simp
  then show ?thesis
    using assms by (simp only: mult_le_cancel_right_pos of_int_0_less_iff)
qed

section \<open>The binary exponent of a positive quotient\<close>

definition scale_le :: "int \<Rightarrow> int \<Rightarrow> int \<Rightarrow> bool" where
  "scale_le k d n \<longleftrightarrow> (if 0 \<le> k then d * 2 ^ nat k \<le> n else d \<le> n * 2 ^ nat (- k))"

definition ilog2_frac :: "int \<Rightarrow> int \<Rightarrow> int" where
  "ilog2_frac n d =
     (let k = bitlen n - bitlen d in if scale_le k d n then k else k - 1)"

lemma powi_pos2 [simp]: "(0::rat) < 2 powi k"
  by simp

lemma powi_nat: "0 \<le> k \<Longrightarrow> (2::rat) powi k = 2 ^ nat k"
  by (simp add: power_int_def)

lemma powi_neg_nat: "k \<le> 0 \<Longrightarrow> (2::rat) powi k = 1 / 2 ^ nat (- k)"
  by (auto simp: power_int_def divide_simps power_inverse)

lemma scale_le_iff:
  assumes "0 < d"
  shows "scale_le k d n \<longleftrightarrow> 2 powi k \<le> rat_of_int n / rat_of_int d"
proof (cases "0 \<le> k")
  case True
  have "2 powi k \<le> rat_of_int n / rat_of_int d
      \<longleftrightarrow> rat_of_int (d * 2 ^ nat k) \<le> rat_of_int n"
    using True assms by (simp add: powi_nat pos_le_divide_eq mult.commute)
  then show ?thesis
    using True by (simp add: scale_le_def del: of_int_mult)
next
  case False
  have "2 powi k \<le> rat_of_int n / rat_of_int d
      \<longleftrightarrow> rat_of_int d \<le> rat_of_int (n * 2 ^ nat (- k))"
    using False assms by (simp add: powi_neg_nat field_simps)
  then show ?thesis
    using False by (simp add: scale_le_def del: of_int_mult)
qed

lemma bitlen_rat_bounds:
  assumes "0 < n"
  shows "2 powi (bitlen n - 1) \<le> rat_of_int n" "rat_of_int n < 2 powi bitlen n"
proof -
  have b: "1 \<le> bitlen n"
    using assms bitlen_eq_zero_iff [of n] bitlen_nonneg [of n] by linarith
  have "rat_of_int (2 ^ nat (bitlen n - 1)) \<le> rat_of_int n"
    using bitlen_bounds [OF assms] by (simp only: of_int_le_iff)
  then show "2 powi (bitlen n - 1) \<le> rat_of_int n"
    using b by (simp add: powi_nat)
  have "rat_of_int n < rat_of_int (2 ^ nat (bitlen n))"
    using bitlen_bounds [OF assms] by (simp only: of_int_less_iff)
  then show "rat_of_int n < 2 powi bitlen n"
    using b by (simp add: powi_nat)
qed

lemma powi_Suc2: "(2::rat) powi (k + 1) = 2 * 2 powi k"
  by (simp add: power_int_add)

lemma ilog2_frac_bounds:
  assumes "0 < n" "0 < d"
  shows "2 powi (ilog2_frac n d) \<le> rat_of_int n / rat_of_int d"
    and "rat_of_int n / rat_of_int d < 2 powi (ilog2_frac n d + 1)"
proof -
  let ?k = "bitlen n - bitlen d" and ?x = "rat_of_int n / rat_of_int d"
  have lo: "2 powi (?k - 1) \<le> ?x"
  proof -
    have "2 powi (bitlen n - 1) / 2 powi bitlen d \<le> ?x"
      using bitlen_rat_bounds [OF assms(1)] bitlen_rat_bounds [OF assms(2)] assms
      by (intro frac_le) auto
    moreover have "2 powi (bitlen n - 1) / 2 powi bitlen d = (2::rat) powi (?k - 1)"
      by (simp add: power_int_diff)
    ultimately show ?thesis
      by (simp only:)
  qed
  have hi: "?x < 2 powi (?k + 1)"
  proof -
    have "?x < 2 powi bitlen n / 2 powi (bitlen d - 1)"
      using bitlen_rat_bounds [OF assms(1)] bitlen_rat_bounds [OF assms(2)] assms
      by (intro frac_less) auto
    also have "\<dots> = 2 powi (?k + 1)"
      by (simp add: power_int_diff power_int_add)
    finally show ?thesis .
  qed
  show "2 powi (ilog2_frac n d) \<le> ?x"
    using lo by (simp add: ilog2_frac_def Let_def scale_le_iff assms)
  show "?x < 2 powi (ilog2_frac n d + 1)"
    using hi by (auto simp: ilog2_frac_def Let_def scale_le_iff assms)
qed

lemma powi_less_imp: "(2::rat) powi a < 2 powi b \<Longrightarrow> a < b"
  using power_int_increasing [of b a "2::rat"] by (auto simp: not_less [symmetric])

lemma powi_le_imp: "(2::rat) powi a \<le> 2 powi b \<Longrightarrow> a \<le> b"
  using power_int_strict_increasing [of b a "2::rat"] by (auto simp: not_less [symmetric])

lemma powi_exponent_unique:
  assumes "2 powi a \<le> (x::rat)" "x < 2 powi (a + 1)" "2 powi b \<le> x" "x < 2 powi (b + 1)"
  shows "a = b"
proof -
  have "2 powi a < (2::rat) powi (b + 1)" and "2 powi b < (2::rat) powi (a + 1)"
    using assms by linarith+
  then have "a < b + 1" and "b < a + 1"
    by (auto dest: powi_less_imp)
  then show ?thesis by simp
qed

section \<open>Rounding to a binary format\<close>

text \<open>
  A format has a precision \<open>p\<close> in bits and a least exponent \<open>emin\<close>, the exponent of the
  smallest subnormal. Binary64 is \<open>p = 53\<close>, \<open>emin = - 1074\<close>; binary32 is \<open>p = 24\<close>,
  \<open>emin = - 149\<close>.
\<close>

definition ulp_exp :: "int \<Rightarrow> int \<Rightarrow> int \<Rightarrow> int \<Rightarrow> int" where
  "ulp_exp p emin n d = max (ilog2_frac \<bar>n\<bar> d - (p - 1)) emin"

definition rnd_frac :: "int \<Rightarrow> int \<Rightarrow> int \<Rightarrow> int \<Rightarrow> rat" where
  "rnd_frac p emin n d =
     (if n = 0 then 0
      else let e = ulp_exp p emin n d in
        if 0 \<le> e then of_int (round_div n (d * 2 ^ nat e) * 2 ^ nat e)
        else of_int (round_div (n * 2 ^ nat (- e)) d) / of_int (2 ^ nat (- e)))"

definition rnd :: "int \<Rightarrow> int \<Rightarrow> rat \<Rightarrow> rat" where
  "rnd p emin x = (case quotient_of x of (n, d) \<Rightarrow> rnd_frac p emin n d)"

lemma rnd_frac_near:
  assumes "n \<noteq> 0" "0 < d"
  shows "\<exists>m. rnd_frac p emin n d = of_int m * 2 powi (ulp_exp p emin n d) \<and>
    \<bar>rat_of_int m - of_int n / of_int d / 2 powi (ulp_exp p emin n d)\<bar> \<le> 1 / 2"
proof -
  define e where "e = ulp_exp p emin n d"
  have r: "rnd_frac p emin n d = (if 0 \<le> e
      then of_int (round_div n (d * 2 ^ nat e) * 2 ^ nat e)
      else of_int (round_div (n * 2 ^ nat (- e)) d) / of_int (2 ^ nat (- e)))"
    using assms(1) by (simp add: rnd_frac_def e_def [symmetric])
  have "\<exists>m. rnd_frac p emin n d = of_int m * 2 powi e \<and>
    \<bar>rat_of_int m - of_int n / of_int d / 2 powi e\<bar> \<le> 1 / 2"
  proof (cases "0 \<le> e")
    case True
    let ?m = "round_div n (d * 2 ^ nat e)"
    have "rnd_frac p emin n d = of_int ?m * 2 powi e"
      using True by (simp add: r powi_nat)
    moreover have "\<bar>rat_of_int ?m - (of_int n / of_int d) / 2 powi e\<bar> \<le> 1 / 2"
      using round_div_near [of "d * 2 ^ nat e" n] True assms by (simp add: powi_nat)
    ultimately show ?thesis by (intro exI [of _ ?m] conjI)
  next
    case False
    let ?m = "round_div (n * 2 ^ nat (- e)) d"
    have "rnd_frac p emin n d = of_int ?m * 2 powi e"
      using False by (simp add: r powi_neg_nat)
    moreover have "rat_of_int n / of_int d / 2 powi e = of_int (n * 2 ^ nat (- e)) / of_int d"
      using False by (simp add: powi_neg_nat)
    then have "\<bar>rat_of_int ?m - rat_of_int n / of_int d / 2 powi e\<bar> \<le> 1 / 2"
      using round_div_near [OF assms(2), of "n * 2 ^ nat (- e)"] by (simp only:)
    ultimately show ?thesis by (intro exI [of _ ?m] conjI)
  qed
  then show ?thesis by (simp only: e_def)
qed

lemma rnd_near:
  assumes "x \<noteq> 0"
  obtains m k e where "rnd p emin x = of_int m * 2 powi e"
    and "\<bar>of_int m - x / 2 powi e\<bar> \<le> 1 / 2"
    and "e = max (k - (p - 1)) emin" and "2 powi k \<le> \<bar>x\<bar>" and "\<bar>x\<bar> < 2 powi (k + 1)"
proof -
  obtain n d where q: "quotient_of x = (n, d)" by fastforce
  then have d: "0 < d" and x: "x = of_int n / of_int d"
    by (rule quotient_of_denom_pos) (rule quotient_of_div [OF q])
  have n: "n \<noteq> 0" using assms x by auto
  have ax: "\<bar>x\<bar> = of_int \<bar>n\<bar> / of_int d" using d by (simp add: x)
  obtain m where m: "rnd_frac p emin n d = of_int m * 2 powi (ulp_exp p emin n d)"
    "\<bar>rat_of_int m - of_int n / of_int d / 2 powi (ulp_exp p emin n d)\<bar> \<le> 1 / 2"
    using rnd_frac_near [OF n d, of p emin] by (elim exE conjE)
  show ?thesis
  proof (rule that [of m "ulp_exp p emin n d" "ilog2_frac \<bar>n\<bar> d"])
    show "rnd p emin x = of_int m * 2 powi (ulp_exp p emin n d)"
      using m q by (simp add: rnd_def)
    show "\<bar>of_int m - x / 2 powi (ulp_exp p emin n d)\<bar> \<le> 1 / 2"
      using m by (simp only: x)
    show "ulp_exp p emin n d = max (ilog2_frac \<bar>n\<bar> d - (p - 1)) emin"
      by (simp only: ulp_exp_def)
    show "2 powi (ilog2_frac \<bar>n\<bar> d) \<le> \<bar>x\<bar>" and "\<bar>x\<bar> < 2 powi (ilog2_frac \<bar>n\<bar> d + 1)"
      using ilog2_frac_bounds [of "\<bar>n\<bar>" d] n d by (simp_all only: ax zero_less_abs_iff not_False_eq_True)
  qed
qed

lemma rnd_0 [simp]: "rnd p emin 0 = 0"
  by (simp add: rnd_def rnd_frac_def)

text \<open>The error of a rounding: half an ulp, relative plus subnormal.\<close>

lemma rnd_error: "\<bar>rnd p emin x - x\<bar> \<le> \<bar>x\<bar> * 2 powi (- p) + 2 powi (emin - 1)"
proof (cases "x = 0")
  case True
  then show ?thesis by simp
next
  case False
  then obtain m k e where r: "rnd p emin x = of_int m * 2 powi e"
    and near: "\<bar>of_int m - x / 2 powi e\<bar> \<le> 1 / 2"
    and e: "e = max (k - (p - 1)) emin" and k: "2 powi k \<le> \<bar>x\<bar>"
    by (rule rnd_near)
  have "rnd p emin x - x = (of_int m - x / 2 powi e) * 2 powi e"
    by (simp add: r field_simps)
  then have "\<bar>rnd p emin x - x\<bar> = \<bar>of_int m - x / 2 powi e\<bar> * 2 powi e"
    by (simp add: abs_mult)
  also have "\<dots> \<le> 1 / 2 * 2 powi e"
    using near by (rule mult_right_mono) simp
  also have "\<dots> = 2 powi (e - 1)"
    by (simp add: power_int_diff)
  also have "\<dots> \<le> \<bar>x\<bar> * 2 powi (- p) + 2 powi (emin - 1)"
  proof (cases "emin \<le> k - (p - 1)")
    case True
    then have "e - 1 = k + - p" by (simp add: e)
    then have "2 powi (e - 1) = 2 powi k * (2::rat) powi (- p)"
      using power_int_add [of "2::rat" k "- p"] by simp
    also have "\<dots> \<le> \<bar>x\<bar> * 2 powi (- p)"
      using k by (rule mult_right_mono) simp
    finally show ?thesis by (simp add: add_increasing2)
  next
    case False
    then show ?thesis by (simp add: e max_def)
  qed
  finally show ?thesis .
qed

text \<open>A value with at most \<open>p\<close> significant bits above the least exponent is not changed.\<close>

lemma int_near_eq:
  assumes "\<bar>rat_of_int m - of_int i\<bar> \<le> 1 / 2"
  shows "m = i"
proof -
  have "rat_of_int \<bar>m - i\<bar> < rat_of_int 1"
    using assms by simp
  then have "\<bar>m - i\<bar> < 1"
    by (simp only: of_int_less_iff)
  then show ?thesis by simp
qed

lemma rnd_exact:
  assumes m: "\<bar>i\<bar> \<le> 2 ^ nat p" and p: "1 \<le> p" and j: "emin \<le> j"
  shows "rnd p emin (of_int i * 2 powi j) = of_int i * 2 powi j" (is "_ = ?x")
proof (cases "i = 0")
  case True
  then show ?thesis by simp
next
  case False
  then have "?x \<noteq> 0" by simp
  then obtain m k e where r: "rnd p emin ?x = of_int m * 2 powi e"
    and near: "\<bar>of_int m - ?x / 2 powi e\<bar> \<le> 1 / 2"
    and e: "e = max (k - (p - 1)) emin" and k: "2 powi k \<le> \<bar>?x\<bar>"
    by (rule rnd_near)
  have "\<bar>rat_of_int i\<bar> \<le> 2 powi p"
  proof -
    have "rat_of_int \<bar>i\<bar> \<le> rat_of_int (2 ^ nat p)" using m by (simp only: of_int_le_iff)
    then show ?thesis using p by (simp add: powi_nat)
  qed
  then have ub: "\<bar>?x\<bar> \<le> 2 powi (p + j)"
    by (simp add: abs_mult power_int_add)
  have "\<exists>a. ?x / 2 powi e = rat_of_int a"
  proof (cases "e \<le> j")
    case True
    then have "?x / 2 powi e = of_int (i * 2 ^ nat (j - e))"
      by (simp add: powi_nat [symmetric] power_int_diff)
    then show ?thesis by (rule exI)
  next
    case False
    then have ek: "e = k - (p - 1)" using e j by simp
    have "k \<le> p + j"
      using order_trans [OF k ub] by (rule powi_le_imp)
    then have ej: "e = j + 1" and kp: "k = p + j"
      using False ek by simp_all
    then have "\<bar>?x\<bar> = 2 powi (p + j)"
      using k ub by simp
    then have "\<bar>?x / 2 powi e\<bar> = 2 powi (p - 1)"
      by (simp add: ej abs_mult power_int_add power_int_diff)
    then have "?x / 2 powi e = of_int (2 ^ nat (p - 1)) \<or> ?x / 2 powi e = of_int (- (2 ^ nat (p - 1)))"
      using p by (simp add: powi_nat abs_if split: if_splits)
    then show ?thesis by blast
  qed
  then obtain a where a: "?x / 2 powi e = rat_of_int a" ..
  then have "m = a"
    using near int_near_eq [of m a] by simp
  then show ?thesis
    using r a by (simp add: field_simps)
qed

text \<open>Rounding picks a nearest value of the format, hence it is monotone.\<close>

lemma powi_mono: "a \<le> b \<Longrightarrow> (2::rat) powi a \<le> 2 powi b"
  by (simp add: power_int_increasing)

lemma int_near_best:
  assumes "\<bar>rat_of_int m - y\<bar> \<le> 1 / 2"
  shows "\<bar>rat_of_int m - y\<bar> \<le> \<bar>rat_of_int i - y\<bar>"
proof (cases "i = m")
  case False
  then have "1 \<le> \<bar>i - m\<bar>" by simp
  then have "1 \<le> rat_of_int \<bar>i - m\<bar>" by (simp only: of_int_1_le_iff)
  then have "1 \<le> \<bar>rat_of_int i - rat_of_int m\<bar>" by simp
  then show ?thesis using assms by linarith
qed simp

lemma rnd_in_format:
  assumes "1 \<le> p"
  obtains i j where "rnd p emin x = of_int i * 2 powi j" "\<bar>i\<bar> \<le> 2 ^ nat p" "emin \<le> j"
proof (cases "x = 0")
  case True
  then show ?thesis by (intro that [of 0 emin]) simp_all
next
  case False
  then obtain m k e where r: "rnd p emin x = of_int m * 2 powi e"
    and near: "\<bar>of_int m - x / 2 powi e\<bar> \<le> 1 / 2"
    and e: "e = max (k - (p - 1)) emin" and k: "\<bar>x\<bar> < 2 powi (k + 1)"
    by (rule rnd_near)
  have "(2::rat) powi (k + 1) \<le> 2 powi (p + e)"
    using e by (intro powi_mono) simp
  then have "\<bar>x / 2 powi e\<bar> < 2 powi p"
    using k by (simp add: abs_divide divide_less_eq power_int_add)
  then have "\<bar>rat_of_int m\<bar> < 2 powi p + 1"
    using near by linarith
  then have "rat_of_int \<bar>m\<bar> < rat_of_int (2 ^ nat p + 1)"
    using assms by (simp add: powi_nat)
  then have "\<bar>m\<bar> \<le> 2 ^ nat p" by (simp only: of_int_less_iff zless_add1_eq le_less)
  then show ?thesis using r e by (intro that) auto
qed

lemma rnd_nearest:
  assumes p: "1 \<le> p" and i: "\<bar>i\<bar> \<le> 2 ^ nat p" and j: "emin \<le> j"
  shows "\<bar>rnd p emin x - x\<bar> \<le> \<bar>of_int i * 2 powi j - x\<bar>" (is "_ \<le> \<bar>?f - x\<bar>")
proof (cases "x = 0")
  case False
  then obtain m k e where r: "rnd p emin x = of_int m * 2 powi e"
    and near: "\<bar>of_int m - x / 2 powi e\<bar> \<le> 1 / 2"
    and e: "e = max (k - (p - 1)) emin" and k: "2 powi k \<le> \<bar>x\<bar>"
    by (rule rnd_near)
  have grid: "\<bar>rnd p emin x - x\<bar> \<le> \<bar>of_int a * 2 powi e - x\<bar>" for a
  proof -
    have "\<bar>of_int b * 2 powi e - x\<bar> = \<bar>of_int b - x / 2 powi e\<bar> * 2 powi e" for b
    proof -
      have "of_int b * 2 powi e - x = (of_int b - x / 2 powi e) * 2 powi e"
        by (simp add: field_simps)
      then show ?thesis by (simp add: abs_mult)
    qed
    then show ?thesis
      using int_near_best [OF near, of a] by (simp add: r)
  qed
  show ?thesis
  proof (cases "e \<le> j")
    case True
    then have "?f = of_int (i * 2 ^ nat (j - e)) * 2 powi e"
      by (simp add: powi_nat [symmetric] power_int_diff)
    then show ?thesis using grid by (simp only:)
  next
    case False
    then have ek: "k = e + (p - 1)" using e j by simp
    have "rat_of_int \<bar>i\<bar> \<le> rat_of_int (2 ^ nat p)"
      using i by (simp only: of_int_le_iff)
    then have "\<bar>rat_of_int i\<bar> \<le> 2 powi p"
      using p by (simp add: powi_nat)
    then have "\<bar>?f\<bar> \<le> 2 powi (p + j)"
      by (simp add: abs_mult power_int_add)
    also have "\<dots> \<le> 2 powi k"
      using False ek by (intro powi_mono) simp
    finally have f: "\<bar>?f\<bar> \<le> 2 powi k" .
    have pk: "rat_of_int (2 ^ nat (p - 1)) * 2 powi e = 2 powi k"
      using p by (simp add: powi_nat [symmetric] power_int_add [symmetric] ek add.commute)
    have "\<bar>(if 0 \<le> x then 2 powi k else - (2 powi k)) - x\<bar> \<le> \<bar>?f - x\<bar>"
      using f k by (simp add: abs_if split: if_splits)
    moreover have "\<bar>rnd p emin x - x\<bar> \<le> \<bar>(if 0 \<le> x then 2 powi k else - (2 powi k)) - x\<bar>"
      using grid [of "2 ^ nat (p - 1)"] grid [of "- (2 ^ nat (p - 1))"] pk by simp
    ultimately show ?thesis by linarith
  qed
qed simp

lemma rnd_mono:
  assumes "1 \<le> p" "x \<le> y"
  shows "rnd p emin x \<le> rnd p emin y"
proof (rule ccontr)
  assume c: "\<not> rnd p emin x \<le> rnd p emin y"
  have "\<bar>rnd p emin x - x\<bar> \<le> \<bar>rnd p emin y - x\<bar>"
    using rnd_in_format [OF assms(1), of emin y] rnd_nearest [OF assms(1)] by metis
  moreover have "\<bar>rnd p emin y - y\<bar> \<le> \<bar>rnd p emin x - y\<bar>"
    using rnd_in_format [OF assms(1), of emin x] rnd_nearest [OF assms(1)] by metis
  ultimately have "y \<le> x" using c assms(2) by linarith
  with assms(2) c show False by simp
qed

section \<open>Evaluating a rounding\<close>

text \<open>The result depends on the value of the quotient, not on the representation.\<close>

lemma ilog2_frac_scale:
  assumes "0 < c" "0 < n" "0 < d"
  shows "ilog2_frac (c * n) (c * d) = ilog2_frac n d"
proof -
  have "rat_of_int (c * n) / rat_of_int (c * d) = rat_of_int n / rat_of_int d"
    using assms by simp
  moreover have "0 < c * n" "0 < c * d"
    using assms by simp_all
  ultimately show ?thesis
    using ilog2_frac_bounds [of "c * n" "c * d"] ilog2_frac_bounds [OF assms(2,3)]
    by (metis powi_exponent_unique)
qed

lemma rnd_frac_scale:
  assumes c: "0 < c" and d: "0 < d"
  shows "rnd_frac p emin (c * n) (c * d) = rnd_frac p emin n d"
proof (cases "n = 0")
  case False
  have "ulp_exp p emin (c * n) (c * d) = ulp_exp p emin n d"
    using c d False ilog2_frac_scale [of c "\<bar>n\<bar>" d] by (simp add: ulp_exp_def abs_mult)
  moreover have "round_div (c * n) (c * d * 2 ^ i) = round_div n (d * 2 ^ i)"
    and "round_div (c * n * 2 ^ i) (c * d) = round_div (n * 2 ^ i) d" for i
    using round_div_scale [OF c, of "d * 2 ^ i" n] round_div_scale [OF c d, of "n * 2 ^ i"] d
    by (simp_all add: mult.assoc)
  ultimately show ?thesis
    using False c by (simp add: rnd_frac_def Let_def)
qed (simp add: rnd_frac_def)

lemma rnd_of_quotient:
  assumes "0 < d"
  shows "rnd p emin (of_int n / of_int d) = rnd_frac p emin n d"
proof -
  obtain n' d' where q: "quotient_of (rat_of_int n / rat_of_int d) = (n', d')" by fastforce
  then have d': "0 < d'" by (rule quotient_of_denom_pos)
  from q have eq: "rat_of_int n / of_int d = of_int n' / of_int d'" by (rule quotient_of_div)
  then have "rat_of_int (n * d') = rat_of_int (n' * d)"
    using assms d' by (simp add: field_simps)
  then have "n * d' = n' * d" by (simp only: of_int_eq_iff)
  then have "rnd_frac p emin (d * n') (d * d') = rnd_frac p emin (d' * n) (d' * d)"
    by (simp add: mult.commute)
  then have "rnd_frac p emin n' d' = rnd_frac p emin n d"
    using assms d' by (simp add: rnd_frac_scale)
  then show ?thesis by (simp add: rnd_def q)
qed

section \<open>Floating-point values\<close>

text \<open>
  A result whose magnitude needs more than 1024 bits before the point has overflowed.
  \<open>FNum\<close> is a finite value, \<open>FInf s\<close> an infinity (negative when \<open>s\<close>), \<open>FNaN\<close> any NaN.
\<close>

datatype f64 = FNaN | FInf bool | FNum rat

definition to_f64 :: "rat \<Rightarrow> f64" where
  "to_f64 q = (let r = rnd 53 (- 1074) q in
     if bitlen \<lfloor>\<bar>r\<bar>\<rfloor> \<le> 1024 then FNum r else FInf (r < 0))"

fun is_finite :: "f64 \<Rightarrow> bool" where
  "is_finite (FNum _) = True"
| "is_finite _ = False"

fun f64_sgn :: "f64 \<Rightarrow> rat" where
  "f64_sgn FNaN = 0"
| "f64_sgn (FInf s) = (if s then - 1 else 1)"
| "f64_sgn (FNum q) = sgn q"

fun f64_add :: "f64 \<Rightarrow> f64 \<Rightarrow> f64" where
  "f64_add (FNum a) (FNum b) = to_f64 (a + b)"
| "f64_add FNaN _ = FNaN"
| "f64_add _ FNaN = FNaN"
| "f64_add (FInf s) (FInf t) = (if s = t then FInf s else FNaN)"
| "f64_add (FInf s) (FNum _) = FInf s"
| "f64_add (FNum _) (FInf t) = FInf t"

fun f64_neg :: "f64 \<Rightarrow> f64" where
  "f64_neg FNaN = FNaN"
| "f64_neg (FInf s) = FInf (\<not> s)"
| "f64_neg (FNum q) = FNum (- q)"

fun f64_mul :: "f64 \<Rightarrow> f64 \<Rightarrow> f64" where
  "f64_mul (FNum a) (FNum b) = to_f64 (a * b)"
| "f64_mul FNaN _ = FNaN"
| "f64_mul _ FNaN = FNaN"
| "f64_mul x y = (if f64_sgn x * f64_sgn y = 0 then FNaN else FInf (f64_sgn x * f64_sgn y < 0))"

text \<open>A zero divisor counts as positive zero; the program never divides by zero.\<close>

fun f64_div :: "f64 \<Rightarrow> f64 \<Rightarrow> f64" where
  "f64_div (FNum a) (FNum b) =
     (if b \<noteq> 0 then to_f64 (a / b) else if a = 0 then FNaN else FInf (a < 0))"
| "f64_div FNaN _ = FNaN"
| "f64_div _ FNaN = FNaN"
| "f64_div (FInf s) (FInf t) = FNaN"
| "f64_div (FInf s) (FNum b) = FInf (s \<noteq> (b < 0))"
| "f64_div (FNum a) (FInf t) = FNum 0"

fun f64_less :: "f64 \<Rightarrow> f64 \<Rightarrow> bool" where
  "f64_less (FNum a) (FNum b) = (a < b)"
| "f64_less FNaN _ = False"
| "f64_less _ FNaN = False"
| "f64_less (FInf s) (FInf t) = (s \<and> \<not> t)"
| "f64_less (FInf s) (FNum _) = s"
| "f64_less (FNum _) (FInf t) = (\<not> t)"

fun f64_leq :: "f64 \<Rightarrow> f64 \<Rightarrow> bool" where
  "f64_leq (FNum a) (FNum b) = (a \<le> b)"
| "f64_leq FNaN _ = False"
| "f64_leq _ FNaN = False"
| "f64_leq (FInf s) (FInf t) = (s \<or> \<not> t)"
| "f64_leq (FInf s) (FNum _) = s"
| "f64_leq (FNum _) (FInf t) = (\<not> t)"

instantiation f64 :: "{zero, one, plus, minus, uminus, times, inverse, ord}"
begin
definition zero_f64 :: f64 where "zero_f64 = FNum 0"
definition one_f64 :: f64 where "one_f64 = FNum 1"
definition plus_f64 :: "f64 \<Rightarrow> f64 \<Rightarrow> f64" where "plus_f64 = f64_add"
definition minus_f64 :: "f64 \<Rightarrow> f64 \<Rightarrow> f64" where "minus_f64 x y = f64_add x (f64_neg y)"
definition uminus_f64 :: "f64 \<Rightarrow> f64" where "uminus_f64 = f64_neg"
definition times_f64 :: "f64 \<Rightarrow> f64 \<Rightarrow> f64" where "times_f64 = f64_mul"
definition divide_f64 :: "f64 \<Rightarrow> f64 \<Rightarrow> f64" where "divide_f64 = f64_div"
definition inverse_f64 :: "f64 \<Rightarrow> f64" where "inverse_f64 x = f64_div (FNum 1) x"
definition less_f64 :: "f64 \<Rightarrow> f64 \<Rightarrow> bool" where "less_f64 = f64_less"
definition less_eq_f64 :: "f64 \<Rightarrow> f64 \<Rightarrow> bool" where "less_eq_f64 = f64_leq"
instance ..
end

lemmas f64_ops =
  zero_f64_def one_f64_def plus_f64_def minus_f64_def uminus_f64_def times_f64_def
  divide_f64_def inverse_f64_def less_f64_def less_eq_f64_def

text \<open>
  A literal or an integer converted to \<open>double\<close>; \<open>std::isfinite\<close> is \<open>is_finite\<close>;
  \<open>(long) v\<close> truncates towards zero and is undefined (\<open>None\<close>) for NaN, infinities and values
  outside the 64-bit range.
\<close>

definition of_long :: "int \<Rightarrow> f64" where
  "of_long i = to_f64 (of_int i)"

definition rat_trunc :: "rat \<Rightarrow> int" where
  "rat_trunc q = (if 0 \<le> q then \<lfloor>q\<rfloor> else - \<lfloor>- q\<rfloor>)"

definition in_long :: "int \<Rightarrow> bool" where
  "in_long i \<longleftrightarrow> - (2 ^ 63) \<le> i \<and> i < 2 ^ 63"

fun f64_to_long :: "f64 \<Rightarrow> int option" where
  "f64_to_long (FNum q) = (if in_long (rat_trunc q) then Some (rat_trunc q) else None)"
| "f64_to_long _ = None"

section \<open>Laws of a rounding, and what they give\<close>

text \<open>
  What the codecs need of a rounding: a relative error \<open>u\<close> with an absolute part \<open>\<eta>\<close>,
  monotonicity, and exactness on small integers. Both formats of the program satisfy it.
\<close>

locale rounding =
  fixes rd :: "rat \<Rightarrow> rat" and u :: rat and eta :: rat
  assumes rd_error: "\<bar>rd x - x\<bar> \<le> \<bar>x\<bar> * u + eta"
    and rd_mono: "x \<le> y \<Longrightarrow> rd x \<le> rd y"
    and rd_small_int: "\<bar>i\<bar> \<le> 2 ^ 24 \<Longrightarrow> rd (of_int i) = of_int i"
    and u_bounds: "0 \<le> u" "u \<le> 1 / 2 ^ 20"
    and eta_bounds: "0 \<le> eta" "eta \<le> 1 / 2 ^ 100"
begin

lemma rd_0: "rd 0 = 0"
  using rd_small_int [of 0] by simp

lemma rd_nonneg: "0 \<le> x \<Longrightarrow> 0 \<le> rd x"
  using rd_mono [of 0 x] by (simp add: rd_0)

lemma rd_nonpos: "x \<le> 0 \<Longrightarrow> rd x \<le> 0"
  using rd_mono [of x 0] by (simp add: rd_0)

lemma rd_ge_int: "\<bar>i\<bar> \<le> 2 ^ 24 \<Longrightarrow> of_int i \<le> x \<Longrightarrow> of_int i \<le> rd x"
  using rd_mono [of "of_int i" x] by (simp add: rd_small_int)

lemma rd_le_int: "\<bar>i\<bar> \<le> 2 ^ 24 \<Longrightarrow> x \<le> of_int i \<Longrightarrow> rd x \<le> of_int i"
  using rd_mono [of x "of_int i"] by (simp add: rd_small_int)

lemma rd_abs_le: "\<bar>rd x\<bar> \<le> \<bar>x\<bar> * (1 + u) + eta"
  using rd_error [of x] by (simp add: algebra_simps)

text \<open>Multiplying a raw value by its scale and dividing again loses almost nothing.\<close>

lemma rd_scale_unscale:
  assumes l: "0 < l"
  shows "\<bar>rd (rd (x * l) / l) - x\<bar> \<le> \<bar>x\<bar> * (3 * u) + 2 * (eta / l) + eta"
proof -
  define y where "y = rd (x * l) / l"
  have "\<bar>rd (x * l) - x * l\<bar> \<le> \<bar>x\<bar> * l * u + eta"
    using rd_error [of "x * l"] l by (simp add: abs_mult)
  then have "\<bar>rd (x * l) - x * l\<bar> / l \<le> (\<bar>x\<bar> * l * u + eta) / l"
    using l by (simp add: divide_right_mono)
  moreover have "y - x = (rd (x * l) - x * l) / l"
    using l by (simp add: y_def field_simps)
  then have "\<bar>y - x\<bar> = \<bar>rd (x * l) - x * l\<bar> / l"
    using l by simp
  ultimately have y: "\<bar>y - x\<bar> \<le> \<bar>x\<bar> * u + eta / l"
    using l by (simp add: add_divide_distrib)
  have "\<bar>rd y - y\<bar> \<le> \<bar>y\<bar> * u + eta"
    by (rule rd_error)
  also have "\<bar>y\<bar> * u \<le> (\<bar>x\<bar> + (\<bar>x\<bar> * u + eta / l)) * u"
    using y u_bounds by (intro mult_right_mono) linarith+
  also have "\<dots> = \<bar>x\<bar> * u + (\<bar>x\<bar> * u + eta / l) * u"
    by (simp add: algebra_simps)
  also have "(\<bar>x\<bar> * u + eta / l) * u \<le> (\<bar>x\<bar> * u + eta / l) * 1"
    using u_bounds eta_bounds l by (intro mult_left_mono) auto
  finally have "\<bar>rd y - y\<bar> \<le> 2 * (\<bar>x\<bar> * u) + eta / l + eta"
    by (simp add: mult.commute)
  with y have "\<bar>rd y - x\<bar> \<le> 3 * (\<bar>x\<bar> * u) + 2 * (eta / l) + eta"
    by linarith
  then show ?thesis
    by (simp add: y_def algebra_simps)
qed

end

lemma rnd_rounding:
  assumes "24 \<le> p" "emin \<le> - 149"
  shows "rounding (rnd p emin) (2 powi (- p)) (2 powi (emin - 1))"
proof
  fix x y :: rat and i :: int
  show "\<bar>rnd p emin x - x\<bar> \<le> \<bar>x\<bar> * 2 powi (- p) + 2 powi (emin - 1)"
    by (rule rnd_error)
  show "x \<le> y \<Longrightarrow> rnd p emin x \<le> rnd p emin y"
    using assms by (intro rnd_mono) auto
  show "\<bar>i\<bar> \<le> 2 ^ 24 \<Longrightarrow> rnd p emin (of_int i) = of_int i"
  proof -
    assume i: "\<bar>i\<bar> \<le> 2 ^ 24"
    also have "(2::int) ^ 24 \<le> 2 ^ nat p"
      using assms by (intro power_increasing) auto
    finally show "rnd p emin (of_int i) = of_int i"
      using rnd_exact [of i p emin 0] assms by simp
  qed
  show "2 powi (- p) \<le> 1 / (2::rat) ^ 20"
    using powi_mono [of "- p" "- 20"] assms by (simp add: powi_neg_nat)
  show "2 powi (emin - 1) \<le> 1 / (2::rat) ^ 100"
    using powi_mono [of "emin - 1" "- 100"] assms by (simp add: powi_neg_nat)
qed simp_all

interpretation b64: rounding "rnd 53 (- 1074)" "2 powi - 53" "2 powi (- 1074 - 1)"
  by (rule rnd_rounding) simp_all

interpretation b32: rounding "rnd 24 (- 149)" "2 powi - 24" "2 powi (- 149 - 1)"
  by (rule rnd_rounding) simp_all

section \<open>Binary64 facts\<close>

abbreviation rd64 :: "rat \<Rightarrow> rat" where "rd64 \<equiv> rnd 53 (- 1074)"

lemma rd64_int: "\<bar>i\<bar> \<le> 2 ^ 53 \<Longrightarrow> rd64 (of_int i) = of_int i"
  using rnd_exact [of i 53 "- 1074" 0] by simp

lemma rd64_error: "\<bar>rd64 x - x\<bar> \<le> \<bar>x\<bar> / 2 ^ 53 + 1 / 2 ^ 200"
proof -
  have "2 powi (- 1074 - 1) \<le> 1 / (2::rat) ^ 200"
    using powi_mono [of "- 1075" "- 200"] by (simp add: powi_neg_nat)
  moreover have "\<bar>x\<bar> * 2 powi (- 53) = \<bar>x\<bar> / 2 ^ 53"
    by (simp add: powi_neg_nat)
  ultimately show ?thesis
    using b64.rd_error [of x] by linarith
qed

lemma rd64_below_overflow:
  assumes "\<bar>q\<bar> \<le> 2 ^ 1000"
  shows "\<bar>rd64 q\<bar> < 2 ^ 1024"
proof -
  have "\<bar>rd64 q\<bar> \<le> \<bar>q\<bar> + (\<bar>q\<bar> / 2 ^ 53 + 1 / 2 ^ 200)"
    using rd64_error [of q] by linarith
  also have "\<dots> \<le> 2 ^ 1000 + (2 ^ 1000 / 2 ^ 53 + 1 / 2 ^ 200)"
    using assms by (intro add_mono divide_right_mono) simp_all
  also have "\<dots> < 2 ^ 1024"
    by simp
  finally show ?thesis .
qed

lemma to_f64_FNum:
  assumes "\<bar>q\<bar> \<le> 2 ^ 1000"
  shows "to_f64 q = FNum (rd64 q)"
proof -
  have "\<bar>rd64 q\<bar> < rat_of_int (2 ^ 1024)"
    using rd64_below_overflow [OF assms] by (simp only: of_int_power of_int_numeral)
  then have "\<lfloor>\<bar>rd64 q\<bar>\<rfloor> < 2 ^ 1024"
    by (simp only: floor_less_iff)
  then show ?thesis
    by (simp add: to_f64_def Let_def bitlen_le_iff_power)
qed

lemma to_f64_cases:
  obtains "to_f64 q = FNum (rd64 q)" | s where "to_f64 q = FInf s"
  by (cases "bitlen \<lfloor>\<bar>rd64 q\<bar>\<rfloor> \<le> 1024") (simp_all add: to_f64_def Let_def)

lemma of_long_FNum: "\<bar>i\<bar> \<le> 2 ^ 53 \<Longrightarrow> of_long i = FNum (of_int i)"
proof -
  assume i: "\<bar>i\<bar> \<le> 2 ^ 53"
  then have "\<bar>rat_of_int i\<bar> \<le> 2 ^ 1000"
  proof -
    have "rat_of_int \<bar>i\<bar> \<le> rat_of_int (2 ^ 53)" using i by (simp only: of_int_le_iff)
    then show ?thesis by simp
  qed
  then show ?thesis using i by (simp add: of_long_def to_f64_FNum rd64_int)
qed

lemma rat_trunc_of_int [simp]: "rat_trunc (of_int i) = i"
  by (simp add: rat_trunc_def flip: of_int_minus)

lemma rat_trunc_nonneg: "0 \<le> q \<Longrightarrow> rat_trunc q = \<lfloor>q\<rfloor>"
  by (simp add: rat_trunc_def)

lemma near_trans: "\<bar>a - b\<bar> \<le> x \<Longrightarrow> \<bar>b - c\<bar> \<le> y \<Longrightarrow> \<bar>a - c\<bar> \<le> x + (y :: rat)"
  using abs_triangle_ineq [of "a - b" "b - c"] by simp

end
