(* ===== verification/Contract_Codec.thy ===== *)
theory Contract_Codec
  imports Ieee_Float
begin

text \<open>
  The wire primitives of \<^verbatim>\<open>contract/can_proxy_contract.h\<close>: the SNA constants, the little-endian
  byte helpers, \<open>canproxy_round\<close> and the scaled encoders. A conversion whose behaviour C leaves
  undefined has the value \<open>None\<close>.
\<close>

section \<open>Constants\<close>

definition CANPROXY_FRAME_DLC :: nat where [contract_consts]: "CANPROXY_FRAME_DLC = 8"

definition CANPROXY_SNA_U8 :: u8 where [contract_consts]: "CANPROXY_SNA_U8 = 0xFF"
definition CANPROXY_SNA_I8 :: u8 where [contract_consts]: "CANPROXY_SNA_I8 = 0x80"
definition CANPROXY_SNA_U16 :: u16 where [contract_consts]: "CANPROXY_SNA_U16 = 0xFFFF"
definition CANPROXY_SNA_I16 :: u16 where [contract_consts]: "CANPROXY_SNA_I16 = 0x8000"
definition CANPROXY_SNA_U32 :: u32 where [contract_consts]: "CANPROXY_SNA_U32 = 0xFFFFFFFF"

section \<open>Byte helpers\<close>

text \<open>A pointer into a frame is a frame and an offset.\<close>

definition canproxy_put_u16le :: "bytes \<Rightarrow> nat \<Rightarrow> u16 \<Rightarrow> bytes" where
  "canproxy_put_u16le d p v = d[p := ucast (v AND 0xFF), p + 1 := ucast (drop_bit 8 v)]"

definition canproxy_get_u16le :: "bytes \<Rightarrow> nat \<Rightarrow> u16" where
  "canproxy_get_u16le d p = ucast (d ! p) OR push_bit 8 (ucast (d ! (p + 1)))"

definition canproxy_put_u32le :: "bytes \<Rightarrow> nat \<Rightarrow> u32 \<Rightarrow> bytes" where
  "canproxy_put_u32le d p v =
     d[p := ucast (v AND 0xFF), p + 1 := ucast (drop_bit 8 v AND 0xFF),
       p + 2 := ucast (drop_bit 16 v AND 0xFF), p + 3 := ucast (drop_bit 24 v)]"

definition canproxy_get_u32le :: "bytes \<Rightarrow> nat \<Rightarrow> u32" where
  "canproxy_get_u32le d p =
     ucast (d ! p) OR push_bit 8 (ucast (d ! (p + 1))) OR
     push_bit 16 (ucast (d ! (p + 2))) OR push_bit 24 (ucast (d ! (p + 3)))"

definition canproxy_clear :: bytes where
  "canproxy_clear = replicate CANPROXY_FRAME_DLC 0"

text \<open>Reading back what was written, and writing back what was read.\<close>

lemma get_put_u16le [wire_simps]:
  "p + 1 < length d \<Longrightarrow> canproxy_get_u16le (canproxy_put_u16le d p v) p = v"
  by (simp add: canproxy_get_u16le_def canproxy_put_u16le_def word_join_u16)

lemma get_put_u32le [wire_simps]:
  "p + 3 < length d \<Longrightarrow> canproxy_get_u32le (canproxy_put_u32le d p v) p = v"
  using word_join_u32 [of v] by (simp add: canproxy_get_u32le_def canproxy_put_u32le_def or.assoc)

lemma length_put_u16le [simp]: "length (canproxy_put_u16le d p v) = length d"
  by (simp add: canproxy_put_u16le_def)

lemma length_put_u32le [simp]: "length (canproxy_put_u32le d p v) = length d"
  by (simp add: canproxy_put_u32le_def)

lemma put_u16le_of_bytes [wire_simps]:
  "canproxy_put_u16le d p (ucast a OR push_bit 8 (ucast b)) = d[p := a, p + 1 := b]"
  by (simp only: canproxy_put_u16le_def word_split_u16)

lemma put_u32le_of_bytes [wire_simps]:
  "canproxy_put_u32le d p (ucast a OR push_bit 8 (ucast b) OR push_bit 16 (ucast c) OR push_bit 24 (ucast e))
    = d[p := a, p + 1 := b, p + 2 := c, p + 3 := e]"
  by (simp only: canproxy_put_u32le_def word_split_u32)

section \<open>Rounding and scaled encoders\<close>

abbreviation dlit :: "rat \<Rightarrow> f64" where "dlit \<equiv> to_f64"

definition canproxy_round :: "f64 \<Rightarrow> int option" where
  "canproxy_round v =
     (if v \<ge> dlit 0 then f64_to_long (v + dlit (1/2))
      else map_option uminus (f64_to_long (- v + dlit (1/2))))"

definition canproxy_enc_u8 :: "f64 \<Rightarrow> f64 \<Rightarrow> bool \<Rightarrow> u8 \<Rightarrow> u8 option" where
  "canproxy_enc_u8 v lsb valid mx =
     (if \<not> valid then Some CANPROXY_SNA_U8
      else do {
        r \<leftarrow> canproxy_round (v / lsb);
        let r = (if r < 0 then 0 else r);
        let r = (if r > uint mx then uint mx else r);
        Some (word_of_int r)
      })"

definition canproxy_enc_i8 :: "f64 \<Rightarrow> f64 \<Rightarrow> bool \<Rightarrow> u8 option" where
  "canproxy_enc_i8 v lsb valid =
     (if \<not> valid then Some CANPROXY_SNA_I8
      else do {
        r \<leftarrow> canproxy_round (v / lsb);
        let r = (if r < - 127 then - 127 else r);
        let r = (if r > 127 then 127 else r);
        Some (word_of_int r)
      })"

definition canproxy_enc_u16 :: "f64 \<Rightarrow> f64 \<Rightarrow> bool \<Rightarrow> u16 option" where
  "canproxy_enc_u16 v lsb valid =
     (if \<not> valid then Some CANPROXY_SNA_U16
      else do {
        r \<leftarrow> canproxy_round (v / lsb);
        let r = (if r < 0 then 0 else r);
        let r = (if r > 0xFFFE then 0xFFFE else r);
        Some (word_of_int r)
      })"

definition canproxy_enc_i16 :: "f64 \<Rightarrow> f64 \<Rightarrow> bool \<Rightarrow> u16 option" where
  "canproxy_enc_i16 v lsb valid =
     (if \<not> valid then Some CANPROXY_SNA_I16
      else do {
        r \<leftarrow> canproxy_round (v / lsb);
        let r = (if r < - 32767 then - 32767 else r);
        let r = (if r > 32767 then 32767 else r);
        Some (word_of_int r)
      })"

text \<open>Conversion of a double to an unsigned type: undefined outside its range.\<close>

fun f64_to_unsigned :: "f64 \<Rightarrow> 'a::len word option" where
  "f64_to_unsigned (FNum q) =
     (if 0 \<le> rat_trunc q \<and> rat_trunc q < 2 ^ LENGTH('a) then Some (word_of_int (rat_trunc q)) else None)"
| "f64_to_unsigned _ = None"

definition canproxy_enc_u32 :: "f64 \<Rightarrow> f64 \<Rightarrow> bool \<Rightarrow> u32 option" where
  "canproxy_enc_u32 v lsb valid =
     (if \<not> valid then Some CANPROXY_SNA_U32
      else do {
        i \<leftarrow> canproxy_round (v / lsb);
        let r = of_long i;
        let r = (if r < dlit 0 then dlit 0 else r);
        let r = (if r > dlit 4294967294 then dlit 4294967294 else r);
        f64_to_unsigned r
      })"

section \<open>The rounding of the encoders\<close>

lemma dlit_0 [simp]: "dlit 0 = FNum 0"
  by (simp add: to_f64_FNum)

lemma dlit_half: "dlit (1/2) = FNum (1/2)"
proof -
  have "rd64 (of_int 1 * 2 powi (- 1)) = of_int 1 * 2 powi (- 1)"
    by (rule rnd_exact) simp_all
  then show ?thesis by (simp add: to_f64_FNum power_int_minus)
qed

lemma floor_in_long: "0 \<le> w \<Longrightarrow> w < 2 ^ 63 \<Longrightarrow> in_long \<lfloor>w :: rat\<rfloor>"
proof -
  assume w: "0 \<le> w" "w < 2 ^ 63"
  then have "\<lfloor>w\<rfloor> < 2 ^ 63" by (simp add: floor_less_iff)
  then show ?thesis using w by (simp add: in_long_def)
qed

lemma rd64_half_near:
  assumes "0 \<le> q" "q \<le> 2 ^ 62"
  shows "\<bar>rd64 (q + 1 / 2) - (q + 1 / 2)\<bar> \<le> (q + 1) / 2 ^ 52" "0 \<le> rd64 (q + 1 / 2)"
    "rd64 (q + 1 / 2) < 2 ^ 63"
proof -
  have "(q + 1 / 2) / 2 ^ 53 + 1 / 2 ^ 200 \<le> (q + 1) / (2::rat) ^ 52"
    using assms by (simp add: field_simps)
  moreover have "\<bar>q + 1 / 2\<bar> = q + 1 / 2"
    using assms by simp
  ultimately have "\<bar>q + 1 / 2\<bar> / 2 ^ 53 + 1 / 2 ^ 200 \<le> (q + 1) / 2 ^ 52"
    by (simp only:)
  then show e: "\<bar>rd64 (q + 1 / 2) - (q + 1 / 2)\<bar> \<le> (q + 1) / 2 ^ 52"
    by (rule order_trans [OF rd64_error])
  show "0 \<le> rd64 (q + 1 / 2)"
    using assms by (intro b64.rd_nonneg) simp
  have "rd64 (q + 1 / 2) \<le> q + 1 / 2 + (q + 1) / 2 ^ 52"
    using e unfolding abs_le_iff by linarith
  also have "\<dots> \<le> 2 ^ 62 + 1 / 2 + (2 ^ 62 + 1) / 2 ^ 52"
    using assms by (intro add_mono divide_right_mono) simp_all
  also have "\<dots> < 2 ^ 63"
    by simp
  finally show "rd64 (q + 1 / 2) < 2 ^ 63" .
qed

lemma canproxy_round_nonneg:
  assumes "0 \<le> q" "q \<le> 2 ^ 62"
  shows "canproxy_round (FNum q) = Some \<lfloor>rd64 (q + 1 / 2)\<rfloor>"
proof -
  have "q + 1 / 2 \<le> 2 ^ 62 + 1 / 2" using assms by simp
  also have "\<dots> \<le> (2::rat) ^ 1000" by simp
  finally have "to_f64 (q + 1 / 2) = FNum (rd64 (q + 1 / 2))"
    using assms by (intro to_f64_FNum) simp
  then show ?thesis
    using rd64_half_near [OF assms] assms
    by (simp add: canproxy_round_def f64_ops dlit_half rat_trunc_nonneg floor_in_long)
qed

lemma canproxy_round_neg:
  assumes "q < 0" "- (2 ^ 62) \<le> q"
  shows "canproxy_round (FNum q) = Some (- \<lfloor>rd64 (- q + 1 / 2)\<rfloor>)"
proof -
  have n: "0 \<le> - q" "- q \<le> 2 ^ 62" using assms by simp_all
  have "- q + 1 / 2 \<le> 2 ^ 62 + 1 / 2" using n by simp
  also have "\<dots> \<le> (2::rat) ^ 1000" by simp
  finally have "to_f64 (- q + 1 / 2) = FNum (rd64 (- q + 1 / 2))"
    using n by (intro to_f64_FNum) simp
  then show ?thesis
    using rd64_half_near [OF n] assms
    by (simp add: canproxy_round_def f64_ops dlit_half rat_trunc_nonneg floor_in_long)
qed

lemma floor_half_near:
  assumes "\<bar>w - (q + 1 / 2)\<bar> \<le> (d :: rat)"
  shows "\<bar>rat_of_int \<lfloor>w\<rfloor> - q\<bar> \<le> 1 / 2 + d"
  using assms of_int_floor_le [of w] floor_less_iff [of w "\<lfloor>w\<rfloor> + 1"]
  unfolding abs_le_iff by (simp, linarith)

text \<open>
  On a value below 2^62 the rounding is defined and at most half a unit away, up to the
  error of adding one half in double precision.
\<close>

lemma canproxy_round_near:
  assumes "\<bar>q\<bar> \<le> 2 ^ 62"
  obtains r where "canproxy_round (FNum q) = Some r"
    and "\<bar>rat_of_int r - q\<bar> \<le> 1 / 2 + (\<bar>q\<bar> + 1) / 2 ^ 52"
proof (cases "0 \<le> q")
  case True
  then have q: "0 \<le> q" "q \<le> 2 ^ 62" using assms by simp_all
  have "\<bar>rat_of_int \<lfloor>rd64 (q + 1 / 2)\<rfloor> - q\<bar> \<le> 1 / 2 + (\<bar>q\<bar> + 1) / 2 ^ 52"
    using floor_half_near [OF rd64_half_near(1) [OF q]] True by simp
  then show ?thesis
    using that canproxy_round_nonneg [OF q] by blast
next
  case False
  then have n: "0 \<le> - q" "- q \<le> 2 ^ 62" and q: "q < 0" "- (2 ^ 62) \<le> q" using assms by simp_all
  have "\<bar>rat_of_int (- \<lfloor>rd64 (- q + 1 / 2)\<rfloor>) - q\<bar> \<le> 1 / 2 + (\<bar>q\<bar> + 1) / 2 ^ 52"
    using floor_half_near [OF rd64_half_near(1) [OF n]] False by (simp add: abs_minus_commute algebra_simps)
  then show ?thesis
    using that canproxy_round_neg [OF q] by blast
qed

section \<open>Scales\<close>

text \<open>
  A scale of the contract (0.01, 0.1, 0.5 or 1 per bit): \<open>lsb\<close> is the double the code divides by,
  \<open>l\<close> its value. What follows from the bounds alone is proved once for all scales.
\<close>

locale lsb_scale =
  fixes lsb :: f64 and l :: rat
  assumes lsb_FNum: "lsb = FNum l" and l_lower: "1 / 128 \<le> l" and l_upper: "l \<le> 1"
begin

lemma l_pos: "0 < l"
  using l_lower by (rule less_le_trans [rotated]) simp

lemma div_bound:
  assumes "\<bar>v\<bar> \<le> c"
  shows "\<bar>v / l\<bar> \<le> 128 * c"
proof -
  have "\<bar>v\<bar> * 1 \<le> \<bar>v\<bar> * (128 * l)"
    using l_lower by (intro mult_left_mono) simp_all
  also have "\<dots> \<le> c * (128 * l)"
    using assms l_pos by (intro mult_right_mono) simp_all
  finally show ?thesis
    using l_pos by (simp add: divide_le_eq mult.commute mult.left_commute)
qed

lemma divide_lsb:
  assumes "\<bar>v\<bar> \<le> 2 ^ 50"
  shows "FNum v / lsb = FNum (rd64 (v / l))"
proof -
  have "\<bar>v / l\<bar> \<le> 128 * 2 ^ 50" using assms by (rule div_bound)
  also have "\<dots> \<le> 2 ^ 1000" by simp
  finally show ?thesis using l_pos by (simp add: f64_ops lsb_FNum to_f64_FNum)
qed

lemma quotient_small:
  assumes "\<bar>v\<bar> \<le> 2 ^ 50"
  shows "\<bar>rd64 (v / l) - v / l\<bar> \<le> (\<bar>v / l\<bar> + 1) / 2 ^ 53" "\<bar>rd64 (v / l)\<bar> \<le> 2 ^ 58"
proof -
  show e: "\<bar>rd64 (v / l) - v / l\<bar> \<le> (\<bar>v / l\<bar> + 1) / 2 ^ 53"
    by (rule order_trans [OF rd64_error]) simp
  have "\<bar>rd64 y\<bar> \<le> 2 ^ 58" if "\<bar>rd64 y - y\<bar> \<le> (\<bar>y\<bar> + 1) / 2 ^ 53" "\<bar>y\<bar> \<le> 128 * 2 ^ 50" for y
    using that abs_triangle_ineq2 [of "rd64 y" y] by simp
  then show "\<bar>rd64 (v / l)\<bar> \<le> 2 ^ 58"
    using e div_bound [OF assms] by blast
qed

text \<open>Every value below 2^50 is rounded to a nearest multiple of the scale, up to double precision.\<close>

lemma round_quotient_near:
  assumes "\<bar>v\<bar> \<le> 2 ^ 50"
  obtains r where "canproxy_round (FNum v / lsb) = Some r"
    and "\<bar>rat_of_int r - v / l\<bar> \<le> 1 / 2 + (\<bar>v / l\<bar> + 1) / 2 ^ 50"
proof -
  let ?q = "rd64 (v / l)"
  have "\<bar>?q\<bar> \<le> 2 ^ 62"
    using quotient_small(2) [OF assms] by (rule order_trans) simp
  then obtain r where r: "canproxy_round (FNum ?q) = Some r"
    and near: "\<bar>rat_of_int r - ?q\<bar> \<le> 1 / 2 + (\<bar>?q\<bar> + 1) / 2 ^ 52"
    by (rule canproxy_round_near)
  have "\<bar>rd64 y\<bar> \<le> 2 * (\<bar>y\<bar> + 1)" if "\<bar>rd64 y - y\<bar> \<le> (\<bar>y\<bar> + 1) / 2 ^ 53" for y
  proof -
    have "b \<le> 2 * (a + 1)" if "0 \<le> a" "d \<le> (a + 1) / 2 ^ 53" "b - a \<le> d" for a b d :: rat
      using that by simp
    from this [OF abs_ge_zero that abs_triangle_ineq2] show ?thesis .
  qed
  then have "\<bar>?q\<bar> \<le> 2 * (\<bar>v / l\<bar> + 1)"
    using quotient_small(1) [OF assms] by blast
  moreover have "x \<le> 1 / 2 + (a + 1) / 2 ^ 50"
    if "b \<le> 2 * (a + 1)" "0 \<le> a" "x \<le> 1 / 2 + (b + 1) / 2 ^ 52 + (a + 1) / 2 ^ 53" for a b x :: rat
    using that by (simp add: field_simps)
  ultimately have "\<bar>rat_of_int r - v / l\<bar> \<le> 1 / 2 + (\<bar>v / l\<bar> + 1) / 2 ^ 50"
    using near_trans [OF near quotient_small(1) [OF assms]] abs_ge_zero by blast
  then show ?thesis
    using that r divide_lsb [OF assms] by simp
qed

text \<open>A raw value decoded and encoded again is itself.\<close>

lemma of_long_times_lsb:
  assumes "\<bar>n\<bar> \<le> 2 ^ 33"
  shows "of_long n * lsb = FNum (rd64 (of_int n * l))" "\<bar>rat_of_int n * l\<bar> \<le> 2 ^ 33"
proof -
  have "rat_of_int \<bar>n\<bar> \<le> rat_of_int (2 ^ 33)" using assms by (simp only: of_int_le_iff)
  then have "\<bar>rat_of_int n\<bar> * l \<le> 2 ^ 33 * 1"
    using l_pos l_upper by (intro mult_mono) simp_all
  then show b: "\<bar>rat_of_int n * l\<bar> \<le> 2 ^ 33" using l_pos by (simp add: abs_mult)
  have "(2::rat) ^ 33 \<le> 2 ^ 1000" by simp
  with b have "\<bar>rat_of_int n * l\<bar> \<le> 2 ^ 1000" by (rule order_trans)
  then show "of_long n * lsb = FNum (rd64 (of_int n * l))"
    using assms by (simp add: f64_ops lsb_FNum to_f64_FNum of_long_FNum)
qed

lemma round_scaled:
  assumes n: "\<bar>n\<bar> \<le> 2 ^ 33"
  shows "canproxy_round (of_long n * lsb / lsb) = Some n"
proof -
  let ?v = "rd64 (of_int n * l)"
  have "\<bar>rat_of_int n * l\<bar> / 2 ^ 53 + 1 / 2 ^ 200 \<le> 1"
    using of_long_times_lsb(2) [OF n] by simp
  then have d: "\<bar>?v - of_int n * l\<bar> \<le> \<bar>rat_of_int n * l\<bar> / 2 ^ 53 + 1 / 2 ^ 200" "\<bar>?v\<bar> \<le> 2 ^ 50"
    using rd64_error [of "of_int n * l"] of_long_times_lsb(2) [OF n] by simp_all
  obtain r where r: "canproxy_round (FNum ?v / lsb) = Some r"
    and near: "\<bar>rat_of_int r - ?v / l\<bar> \<le> 1 / 2 + (\<bar>?v / l\<bar> + 1) / 2 ^ 50"
    using d(2) by (rule round_quotient_near)
  have "\<bar>?v / l - of_int n\<bar> = \<bar>(?v - of_int n * l) / l\<bar>"
    using l_pos by (simp add: diff_divide_distrib)
  also have "\<dots> \<le> 128 * (\<bar>rat_of_int n * l\<bar> / 2 ^ 53 + 1 / 2 ^ 200)"
    using d(1) by (rule div_bound)
  also have "\<dots> \<le> 1 / 2 ^ 10"
    using of_long_times_lsb(2) [OF n] by simp
  finally have e: "\<bar>?v / l - of_int n\<bar> \<le> 1 / 2 ^ 10" .
  have "rat_of_int \<bar>n\<bar> \<le> rat_of_int (2 ^ 33)" using n by (simp only: of_int_le_iff)
  then have n': "\<bar>rat_of_int n\<bar> \<le> 2 ^ 33" by simp
  have "(\<bar>y\<bar> + 1) / 2 ^ 50 \<le> 1 / 2 ^ 10" if "\<bar>y - rat_of_int n\<bar> \<le> 1 / 2 ^ 10" for y
    using that n' abs_triangle_ineq2 [of y "rat_of_int n"] by simp
  then have f: "(\<bar>?v / l\<bar> + 1) / 2 ^ 50 \<le> 1 / 2 ^ 10"
    using e by blast
  have "\<bar>rat_of_int r - of_int n\<bar> < 1"
  proof -
    have "x < 1" if "c \<le> 1 / 2 ^ 10" "x \<le> 1 / 2 + c + 1 / 2 ^ 10" for x c :: rat
      using that by simp
    from this [OF f near_trans [OF near e]] show ?thesis .
  qed
  then have "rat_of_int \<bar>r - n\<bar> < rat_of_int 1" by simp
  then have "\<bar>r - n\<bar> < 1" by (simp only: of_int_less_iff)
  then have "r = n" by simp
  then show ?thesis using r of_long_times_lsb(1) [OF n] by simp
qed

end

definition lsb_001 :: f64 where "lsb_001 = dlit (1/100)"
definition lsb_01 :: f64 where "lsb_01 = dlit (1/10)"
definition lsb_05 :: f64 where "lsb_05 = dlit (1/2)"
definition lsb_1 :: f64 where "lsb_1 = dlit 1"

lemma lsb_values:
  "lsb_001 = FNum (5764607523034235 / 576460752303423488)"
  "lsb_01 = FNum (3602879701896397 / 36028797018963968)"
  "lsb_05 = FNum (1 / 2)"
  "lsb_1 = FNum 1"
  by code_simp+

interpretation s001: lsb_scale lsb_001 "5764607523034235 / 576460752303423488"
  by unfold_locales (simp_all add: lsb_values)

interpretation s01: lsb_scale lsb_01 "3602879701896397 / 36028797018963968"
  by unfold_locales (simp_all add: lsb_values)

interpretation s05: lsb_scale lsb_05 "1 / 2"
  by unfold_locales (simp_all add: lsb_values)

interpretation s1: lsb_scale lsb_1 1
  by unfold_locales (simp_all add: lsb_values)

section \<open>What an encoder produces\<close>

lemma enc_u8_invalid [wire_simps]: "canproxy_enc_u8 v l False mx = Some CANPROXY_SNA_U8"
  by (simp add: canproxy_enc_u8_def)

lemma enc_i8_invalid [wire_simps]: "canproxy_enc_i8 v l False = Some CANPROXY_SNA_I8"
  by (simp add: canproxy_enc_i8_def)

lemma enc_u16_invalid [wire_simps]: "canproxy_enc_u16 v l False = Some CANPROXY_SNA_U16"
  by (simp add: canproxy_enc_u16_def)

lemma enc_i16_invalid [wire_simps]: "canproxy_enc_i16 v l False = Some CANPROXY_SNA_I16"
  by (simp add: canproxy_enc_i16_def)

lemma enc_u32_invalid [wire_simps]: "canproxy_enc_u32 v l False = Some CANPROXY_SNA_U32"
  by (simp add: canproxy_enc_u32_def)

definition clamp :: "int \<Rightarrow> int \<Rightarrow> int \<Rightarrow> int" where
  "clamp lo hi r = max lo (min hi r)"

lemma clamp_bounds: "lo \<le> hi \<Longrightarrow> lo \<le> clamp lo hi r \<and> clamp lo hi r \<le> hi"
  by (auto simp: clamp_def)

lemma clamp_id [simp]: "lo \<le> r \<Longrightarrow> r \<le> hi \<Longrightarrow> clamp lo hi r = r"
  by (simp add: clamp_def)

lemma clamp_steps:
  "lo \<le> hi \<Longrightarrow>
    (if hi < (if r < lo then lo else r) then hi else if r < lo then lo else r) = clamp lo hi r"
  by (auto simp: clamp_def)

text \<open>A valid value is rounded, clamped to the range without SNA, and truncated to the width.\<close>

lemma enc_u8_valid:
  "canproxy_enc_u8 v l True mx =
    map_option (\<lambda>r. word_of_int (clamp 0 (uint mx) r)) (canproxy_round (v / l))"
  by (cases "canproxy_round (v / l)") (simp_all add: canproxy_enc_u8_def Let_def clamp_steps)

lemma enc_i8_valid:
  "canproxy_enc_i8 v l True =
    map_option (\<lambda>r. word_of_int (clamp (- 127) 127 r)) (canproxy_round (v / l))"
  by (cases "canproxy_round (v / l)") (simp_all add: canproxy_enc_i8_def Let_def clamp_steps)

lemma enc_u16_valid:
  "canproxy_enc_u16 v l True =
    map_option (\<lambda>r. word_of_int (clamp 0 0xFFFE r)) (canproxy_round (v / l))"
  by (cases "canproxy_round (v / l)") (simp_all add: canproxy_enc_u16_def Let_def clamp_steps)

lemma enc_i16_valid:
  "canproxy_enc_i16 v l True =
    map_option (\<lambda>r. word_of_int (clamp (- 32767) 32767 r)) (canproxy_round (v / l))"
  by (cases "canproxy_round (v / l)") (simp_all add: canproxy_enc_i16_def Let_def clamp_steps)

text \<open>The 32-bit encoder clamps in double precision: the conversion of a 64-bit integer is monotone.\<close>

lemma of_long_cases:
  assumes "in_long i"
  obtains q where "of_long i = FNum q" and "i \<le> 0 \<longrightarrow> q \<le> 0" and "0 \<le> i \<longrightarrow> 0 \<le> q"
    and "4294967294 \<le> i \<longrightarrow> 4294967294 \<le> q" and "\<bar>i\<bar> \<le> 2 ^ 53 \<longrightarrow> q = of_int i"
proof -
  have "\<bar>i\<bar> \<le> 2 ^ 63"
    using assms unfolding in_long_def by linarith
  then have "rat_of_int \<bar>i\<bar> \<le> rat_of_int (2 ^ 63)"
    by (simp only: of_int_le_iff)
  also have "\<dots> \<le> 2 ^ 1000" by simp
  finally have eq: "of_long i = FNum (rd64 (of_int i))"
    by (simp add: of_long_def to_f64_FNum)
  have "4294967294 \<le> rd64 (of_int i)" if "4294967294 \<le> i"
  proof -
    have "rd64 (of_int 4294967294) \<le> rd64 (of_int i)"
      using that by (intro b64.rd_mono) (simp only: of_int_le_iff)
    then show ?thesis using rd64_int [of 4294967294] by simp
  qed
  then show ?thesis
    using eq by (intro that [of "rd64 (of_int i)"])
      (auto intro: b64.rd_nonneg b64.rd_nonpos simp: rd64_int)
qed

lemma dlit_max_u32: "dlit 4294967294 = FNum 4294967294"
proof -
  have "(4294967294::rat) \<le> 2 ^ 1000" by simp
  then show ?thesis using rd64_int [of 4294967294] by (simp add: to_f64_FNum)
qed

lemma canproxy_round_in_long: "canproxy_round v = Some r \<Longrightarrow> in_long r"
proof -
  have neg: "in_long (- i)" if "f64_to_long (FNum q) = Some i" "0 \<le> q" for q i
  proof -
    have "in_long i" and "0 \<le> i"
      using that by (auto simp: rat_trunc_nonneg split: if_splits)
    then show ?thesis unfolding in_long_def by linarith
  qed
  have pos: "in_long i" if "f64_to_long w = Some i" for w i
    using that by (cases w) (auto split: if_splits)
  assume r: "canproxy_round v = Some r"
  show ?thesis
  proof (cases "v \<ge> dlit 0")
    case True
    then show ?thesis using r pos by (auto simp: canproxy_round_def)
  next
    case False
    then obtain i where i: "f64_to_long (- v + dlit (1 / 2)) = Some i" and ri: "r = - i"
      using r by (auto simp: canproxy_round_def)
    show ?thesis
    proof (cases v)
      case (FNum q)
      with False have "0 \<le> - q + 1 / 2" by (simp add: f64_ops)
      then have "0 \<le> rd64 (- q + 1 / 2)" by (rule b64.rd_nonneg)
      moreover have "f64_to_long (to_f64 (- q + 1 / 2)) = Some i"
        using i FNum by (simp only: f64_ops dlit_half f64_add.simps f64_neg.simps)
      ultimately show ?thesis
        using neg ri by (cases rule: to_f64_cases [of "- q + 1 / 2"]) auto
    qed (use i in \<open>auto simp: f64_ops dlit_half\<close>)
  qed
qed

lemma enc_u32_valid:
  "canproxy_enc_u32 v l True =
    map_option (\<lambda>r. word_of_int (clamp 0 0xFFFFFFFE r)) (canproxy_round (v / l))"
proof (cases "canproxy_round (v / l)")
  case (Some r)
  then obtain q where q: "of_long r = FNum q" "r \<le> 0 \<longrightarrow> q \<le> 0" "0 \<le> r \<longrightarrow> 0 \<le> q"
    "4294967294 \<le> r \<longrightarrow> 4294967294 \<le> q" "\<bar>r\<bar> \<le> 2 ^ 53 \<longrightarrow> q = of_int r"
    using of_long_cases [OF canproxy_round_in_long] by metis
  consider "r \<le> 0" | "0 < r" "r < 4294967294" | "4294967294 \<le> r" by linarith
  then show ?thesis
  proof cases
    case 1
    with q Some show ?thesis
      by (auto simp: canproxy_enc_u32_def Let_def dlit_max_u32 f64_ops rat_trunc_def clamp_def)
  next
    case 2
    then have "q = of_int r" and "rat_of_int r < of_int 4294967294"
      using q by (simp, simp only: of_int_less_iff)
    with 2 q(1) Some show ?thesis
      by (simp add: canproxy_enc_u32_def Let_def dlit_max_u32 f64_ops clamp_def)
  next
    case 3
    with q Some have "\<not> q < 0" "q \<noteq> 4294967294 \<longrightarrow> 4294967294 < q" by auto
    with 3 q(1) Some show ?thesis
      using rat_trunc_of_int [of 4294967294]
      by (cases "q = 4294967294")
        (simp_all add: canproxy_enc_u32_def Let_def dlit_max_u32 f64_ops clamp_def)
  qed
qed (simp add: canproxy_enc_u32_def)

section \<open>SNA is never a valid value, and raw values survive\<close>

lemma uint_word_of_int_clamp:
  assumes "0 \<le> hi" "hi < 2 ^ LENGTH('a)"
  shows "uint (word_of_int (clamp 0 hi r) :: 'a::len word) = clamp 0 hi r"
  using clamp_bounds [of 0 hi r] assms by (simp add: uint_word_of_int take_bit_int_eq_self)

lemma sint_word_of_int_clamp:
  assumes "0 \<le> hi" "hi < 2 ^ (LENGTH('a) - 1)"
  shows "sint (word_of_int (clamp (- hi) hi r) :: 'a::len word) = clamp (- hi) hi r"
  using clamp_bounds [of "- hi" hi r] assms
  by (simp add: sint_sbintrunc' signed_take_bit_int_eq_self)

lemma enc_u8_not_SNA [wire_simps]:
  assumes "canproxy_enc_u8 v l True mx = Some r" "mx \<noteq> CANPROXY_SNA_U8"
  shows "r \<noteq> CANPROXY_SNA_U8"
proof
  assume sna: "r = CANPROXY_SNA_U8"
  obtain i where "r = word_of_int (clamp 0 (uint mx) i)"
    using assms(1) by (auto simp: enc_u8_valid)
  then have "uint r = clamp 0 (uint mx) i"
    using uint_lt2p [of mx] by (simp add: uint_word_of_int_clamp del: word_of_int_uint)
  then have "uint r \<le> uint mx"
    using clamp_bounds [of 0 "uint mx" i] by simp
  then have "uint mx = 0xFF"
    using sna uint_lt2p [of mx] by (simp add: contract_consts)
  then show False
    using assms(2) by (simp add: contract_consts word_uint_eq_iff)
qed

lemma enc_i8_not_SNA:
  assumes "canproxy_enc_i8 v l True = Some r"
  shows "r \<noteq> CANPROXY_SNA_I8"
proof
  assume sna: "r = CANPROXY_SNA_I8"
  obtain i where "r = word_of_int (clamp (- 127) 127 i)"
    using assms by (auto simp: enc_i8_valid)
  then have "- 127 \<le> sint r"
    using sint_word_of_int_clamp [where 'a = 8, of 127 i] clamp_bounds [of "- 127" 127 i] by simp
  then show False using sna by (simp add: contract_consts)
qed

lemma enc_u16_not_SNA:
  assumes "canproxy_enc_u16 v l True = Some r"
  shows "r \<noteq> CANPROXY_SNA_U16"
proof
  assume sna: "r = CANPROXY_SNA_U16"
  obtain i where "r = word_of_int (clamp 0 0xFFFE i)"
    using assms by (auto simp: enc_u16_valid)
  then have "uint r \<le> 0xFFFE"
    using uint_word_of_int_clamp [where 'a = 16, of "0xFFFE" i] clamp_bounds [of 0 "0xFFFE" i] by simp
  then show False using sna by (simp add: contract_consts)
qed

lemma enc_i16_not_SNA:
  assumes "canproxy_enc_i16 v l True = Some r"
  shows "r \<noteq> CANPROXY_SNA_I16"
proof
  assume sna: "r = CANPROXY_SNA_I16"
  obtain i where "r = word_of_int (clamp (- 32767) 32767 i)"
    using assms by (auto simp: enc_i16_valid)
  then have "- 32767 \<le> sint r"
    using sint_word_of_int_clamp [where 'a = 16, of 32767 i] clamp_bounds [of "- 32767" 32767 i] by simp
  then show False using sna by (simp add: contract_consts)
qed

lemma enc_u32_not_SNA:
  assumes "canproxy_enc_u32 v l True = Some r"
  shows "r \<noteq> CANPROXY_SNA_U32"
proof
  assume sna: "r = CANPROXY_SNA_U32"
  obtain i where "r = word_of_int (clamp 0 0xFFFFFFFE i)"
    using assms by (auto simp: enc_u32_valid)
  then have "uint r \<le> 0xFFFFFFFE"
    using uint_word_of_int_clamp [where 'a = 32, of "0xFFFFFFFE" i]
      clamp_bounds [of 0 "0xFFFFFFFE" i] by simp
  then show False using sna by (simp add: contract_consts)
qed

lemma uint_below_max:
  "w \<noteq> CANPROXY_SNA_U16 \<Longrightarrow> uint w \<le> 0xFFFE" "x \<noteq> CANPROXY_SNA_U32 \<Longrightarrow> uint x \<le> 0xFFFFFFFE"
proof -
  have "uint w \<noteq> 0xFFFF" if "w \<noteq> CANPROXY_SNA_U16"
    using that by (auto simp: word_uint_eq_iff contract_consts)
  then show "w \<noteq> CANPROXY_SNA_U16 \<Longrightarrow> uint w \<le> 0xFFFE"
    using uint_lt2p [of w] by fastforce
  have "uint x \<noteq> 0xFFFFFFFF" if "x \<noteq> CANPROXY_SNA_U32"
    using that by (auto simp: word_uint_eq_iff contract_consts)
  then show "x \<noteq> CANPROXY_SNA_U32 \<Longrightarrow> uint x \<le> 0xFFFFFFFE"
    using uint_lt2p [of x] by fastforce
qed

lemma sint_above_min_16:
  assumes "w \<noteq> CANPROXY_SNA_I16"
  shows "- 32767 \<le> sint w" "sint w \<le> 32767"
proof -
  have "sint w \<noteq> sint CANPROXY_SNA_I16" using assms signed_word_eqI by blast
  then show "- 32767 \<le> sint w" "sint w \<le> 32767"
    using sint_range_size [of w] by (simp_all add: word_size contract_consts)
qed

lemma sint_above_min_8:
  assumes "w \<noteq> CANPROXY_SNA_I8"
  shows "- 127 \<le> sint w" "sint w \<le> 127"
proof -
  have "sint w \<noteq> sint CANPROXY_SNA_I8" using assms signed_word_eqI by blast
  then show "- 127 \<le> sint w" "sint w \<le> 127"
    using sint_range_size [of w] by (simp_all add: word_size contract_consts)
qed

context lsb_scale
begin

lemma enc_u8_raw:
  assumes "raw \<le> mx"
  shows "canproxy_enc_u8 (of_long (uint raw) * lsb) lsb True mx = Some raw"
  using round_scaled [of "uint raw"] assms uint_lt2p [of raw]
  by (simp add: enc_u8_valid word_le_def)

lemma enc_u16_raw:
  assumes "raw \<noteq> CANPROXY_SNA_U16"
  shows "canproxy_enc_u16 (of_long (uint raw) * lsb) lsb True = Some raw"
  using round_scaled [of "uint raw"] uint_below_max(1) [OF assms] by (simp add: enc_u16_valid)

lemma enc_i16_raw:
  assumes "raw \<noteq> CANPROXY_SNA_I16"
  shows "canproxy_enc_i16 (of_long (sint raw) * lsb) lsb True = Some raw"
  using round_scaled [of "sint raw"] sint_above_min_16 [OF assms]
  by (simp add: enc_i16_valid)

lemma enc_u32_raw:
  assumes "raw \<noteq> CANPROXY_SNA_U32"
  shows "canproxy_enc_u32 (of_long (uint raw) * lsb) lsb True = Some raw"
  using round_scaled [of "uint raw"] uint_below_max(2) [OF assms] by (simp add: enc_u32_valid)

end

lemma of_long_times_1: "\<bar>n\<bar> \<le> 2 ^ 33 \<Longrightarrow> of_long n * lsb_1 = of_long n"
  using s1.of_long_times_lsb(1) [of n] by (simp add: rd64_int of_long_FNum)

lemma enc_i8_raw:
  assumes "raw \<noteq> CANPROXY_SNA_I8"
  shows "canproxy_enc_i8 (of_long (sint raw)) lsb_1 True = Some raw"
  using s1.round_scaled [of "sint raw"] sint_above_min_8 [OF assms] of_long_times_1 [of "sint raw"]
  by (simp add: enc_i8_valid)

lemma enc_u8_raw_1:
  assumes "raw \<le> mx"
  shows "canproxy_enc_u8 (of_long (uint raw)) lsb_1 True mx = Some raw"
  using s1.enc_u8_raw [OF assms] of_long_times_1 [of "uint raw"] uint_lt2p [of raw] by simp

end
