(* ===== verification/Contract_Tables.thy ===== *)
theory Contract_Tables
  imports Contract_Codec
begin

text \<open>
  The tables of \<^verbatim>\<open>contract/can_proxy_contract.h\<close>: version, frame identifiers, cycle times and
  staleness windows, enumeration values, capability, telltale and lane bits, and the lookups by
  identifier.
\<close>

section \<open>Version, identifiers, cycle times, staleness windows\<close>

definition CANPROXY_CONTRACT_MAJOR :: u8 where [contract_consts]: "CANPROXY_CONTRACT_MAJOR = 1"
definition CANPROXY_CONTRACT_MINOR :: u8 where [contract_consts]: "CANPROXY_CONTRACT_MINOR = 1"

definition CANPROXY_ID_STATUS :: u32 where [contract_consts]: "CANPROXY_ID_STATUS = 0x400"
definition CANPROXY_ID_IDENTITY :: u32 where [contract_consts]: "CANPROXY_ID_IDENTITY = 0x401"
definition CANPROXY_ID_MOTION :: u32 where [contract_consts]: "CANPROXY_ID_MOTION = 0x410"
definition CANPROXY_ID_EDRIVE :: u32 where [contract_consts]: "CANPROXY_ID_EDRIVE = 0x411"
definition CANPROXY_ID_TELLTALES :: u32 where [contract_consts]: "CANPROXY_ID_TELLTALES = 0x420"
definition CANPROXY_ID_ENERGY :: u32 where [contract_consts]: "CANPROXY_ID_ENERGY = 0x430"
definition CANPROXY_ID_TRIP :: u32 where [contract_consts]: "CANPROXY_ID_TRIP = 0x431"
definition CANPROXY_ID_THERMAL :: u32 where [contract_consts]: "CANPROXY_ID_THERMAL = 0x440"
definition CANPROXY_ID_ASSIST :: u32 where [contract_consts]: "CANPROXY_ID_ASSIST = 0x450"
definition CANPROXY_ID_FIRST :: u32 where [contract_consts]: "CANPROXY_ID_FIRST = CANPROXY_ID_STATUS"
definition CANPROXY_ID_LAST :: u32 where [contract_consts]: "CANPROXY_ID_LAST = CANPROXY_ID_ASSIST"
definition CANPROXY_FRAME_COUNT :: nat where [contract_consts]: "CANPROXY_FRAME_COUNT = 9"

definition CANPROXY_CYCLE_STATUS_MS :: u32 where [contract_consts]: "CANPROXY_CYCLE_STATUS_MS = 100"
definition CANPROXY_CYCLE_IDENTITY_MS :: u32 where [contract_consts]: "CANPROXY_CYCLE_IDENTITY_MS = 1000"
definition CANPROXY_CYCLE_MOTION_MS :: u32 where [contract_consts]: "CANPROXY_CYCLE_MOTION_MS = 50"
definition CANPROXY_CYCLE_EDRIVE_MS :: u32 where [contract_consts]: "CANPROXY_CYCLE_EDRIVE_MS = 50"
definition CANPROXY_CYCLE_TELLTALES_MS :: u32 where [contract_consts]: "CANPROXY_CYCLE_TELLTALES_MS = 100"
definition CANPROXY_CYCLE_ENERGY_MS :: u32 where [contract_consts]: "CANPROXY_CYCLE_ENERGY_MS = 500"
definition CANPROXY_CYCLE_TRIP_MS :: u32 where [contract_consts]: "CANPROXY_CYCLE_TRIP_MS = 1000"
definition CANPROXY_CYCLE_THERMAL_MS :: u32 where [contract_consts]: "CANPROXY_CYCLE_THERMAL_MS = 500"
definition CANPROXY_CYCLE_ASSIST_MS :: u32 where [contract_consts]: "CANPROXY_CYCLE_ASSIST_MS = 200"

definition CANPROXY_STALE_STATUS_MS :: u32 where [contract_consts]: "CANPROXY_STALE_STATUS_MS = 500"
definition CANPROXY_STALE_IDENTITY_MS :: u32 where [contract_consts]: "CANPROXY_STALE_IDENTITY_MS = 4000"
definition CANPROXY_STALE_MOTION_MS :: u32 where [contract_consts]: "CANPROXY_STALE_MOTION_MS = 250"
definition CANPROXY_STALE_EDRIVE_MS :: u32 where [contract_consts]: "CANPROXY_STALE_EDRIVE_MS = 250"
definition CANPROXY_STALE_TELLTALES_MS :: u32 where [contract_consts]: "CANPROXY_STALE_TELLTALES_MS = 500"
definition CANPROXY_STALE_ENERGY_MS :: u32 where [contract_consts]: "CANPROXY_STALE_ENERGY_MS = 2000"
definition CANPROXY_STALE_TRIP_MS :: u32 where [contract_consts]: "CANPROXY_STALE_TRIP_MS = 4000"
definition CANPROXY_STALE_THERMAL_MS :: u32 where [contract_consts]: "CANPROXY_STALE_THERMAL_MS = 2000"
definition CANPROXY_STALE_ASSIST_MS :: u32 where [contract_consts]: "CANPROXY_STALE_ASSIST_MS = 800"

section \<open>Enumerations\<close>

definition CANPROXY_STATE_STARTING :: u8 where [contract_consts]: "CANPROXY_STATE_STARTING = 0"
definition CANPROXY_STATE_NO_VEHICLE :: u8 where [contract_consts]: "CANPROXY_STATE_NO_VEHICLE = 1"
definition CANPROXY_STATE_DEGRADED :: u8 where [contract_consts]: "CANPROXY_STATE_DEGRADED = 2"
definition CANPROXY_STATE_OK :: u8 where [contract_consts]: "CANPROXY_STATE_OK = 3"

definition CANPROXY_GEAR_P :: u8 where [contract_consts]: "CANPROXY_GEAR_P = 0"
definition CANPROXY_GEAR_R :: u8 where [contract_consts]: "CANPROXY_GEAR_R = 1"
definition CANPROXY_GEAR_N :: u8 where [contract_consts]: "CANPROXY_GEAR_N = 2"
definition CANPROXY_GEAR_D :: u8 where [contract_consts]: "CANPROXY_GEAR_D = 3"
definition CANPROXY_GEAR_L :: u8 where [contract_consts]: "CANPROXY_GEAR_L = 4"

definition CANPROXY_POWER_OFF :: u8 where [contract_consts]: "CANPROXY_POWER_OFF = 0"
definition CANPROXY_POWER_ACC :: u8 where [contract_consts]: "CANPROXY_POWER_ACC = 1"
definition CANPROXY_POWER_ON :: u8 where [contract_consts]: "CANPROXY_POWER_ON = 2"
definition CANPROXY_POWER_READY :: u8 where [contract_consts]: "CANPROXY_POWER_READY = 3"

definition CANPROXY_CHARGE_NONE :: u8 where [contract_consts]: "CANPROXY_CHARGE_NONE = 0"
definition CANPROXY_CHARGE_AC :: u8 where [contract_consts]: "CANPROXY_CHARGE_AC = 1"
definition CANPROXY_CHARGE_DC :: u8 where [contract_consts]: "CANPROXY_CHARGE_DC = 2"
definition CANPROXY_CHARGE_COMPLETE :: u8 where [contract_consts]: "CANPROXY_CHARGE_COMPLETE = 3"

definition CANPROXY_DRIVETRAIN_UNKNOWN :: u8 where [contract_consts]: "CANPROXY_DRIVETRAIN_UNKNOWN = 0"
definition CANPROXY_DRIVETRAIN_ICE :: u8 where [contract_consts]: "CANPROXY_DRIVETRAIN_ICE = 1"
definition CANPROXY_DRIVETRAIN_BEV :: u8 where [contract_consts]: "CANPROXY_DRIVETRAIN_BEV = 2"
definition CANPROXY_DRIVETRAIN_HEV :: u8 where [contract_consts]: "CANPROXY_DRIVETRAIN_HEV = 3"
definition CANPROXY_DRIVETRAIN_PHEV :: u8 where [contract_consts]: "CANPROXY_DRIVETRAIN_PHEV = 4"
definition CANPROXY_DRIVETRAIN_FCEV :: u8 where [contract_consts]: "CANPROXY_DRIVETRAIN_FCEV = 5"

definition CANPROXY_SOURCE_SIMULATED :: u8 where [contract_consts]: "CANPROXY_SOURCE_SIMULATED = 0"
definition CANPROXY_SOURCE_EMULATOR :: u8 where [contract_consts]: "CANPROXY_SOURCE_EMULATOR = 1"
definition CANPROXY_SOURCE_LIVE :: u8 where [contract_consts]: "CANPROXY_SOURCE_LIVE = 2"
definition CANPROXY_SOURCE_REPLAY :: u8 where [contract_consts]: "CANPROXY_SOURCE_REPLAY = 3"

definition CANPROXY_RISK_NONE :: u8 where [contract_consts]: "CANPROXY_RISK_NONE = 0"
definition CANPROXY_RISK_LOW :: u8 where [contract_consts]: "CANPROXY_RISK_LOW = 1"
definition CANPROXY_RISK_MEDIUM :: u8 where [contract_consts]: "CANPROXY_RISK_MEDIUM = 2"
definition CANPROXY_RISK_HIGH :: u8 where [contract_consts]: "CANPROXY_RISK_HIGH = 3"

section \<open>Bit maps\<close>

definition CANPROXY_CAP_SPEED :: u32 where [contract_consts]: "CANPROXY_CAP_SPEED = push_bit 0 1"
definition CANPROXY_CAP_RPM :: u32 where [contract_consts]: "CANPROXY_CAP_RPM = push_bit 1 1"
definition CANPROXY_CAP_GEAR :: u32 where [contract_consts]: "CANPROXY_CAP_GEAR = push_bit 2 1"
definition CANPROXY_CAP_MOTOR_POWER :: u32 where [contract_consts]: "CANPROXY_CAP_MOTOR_POWER = push_bit 3 1"
definition CANPROXY_CAP_PACK_VI :: u32 where [contract_consts]: "CANPROXY_CAP_PACK_VI = push_bit 4 1"
definition CANPROXY_CAP_SOC :: u32 where [contract_consts]: "CANPROXY_CAP_SOC = push_bit 5 1"
definition CANPROXY_CAP_RANGE :: u32 where [contract_consts]: "CANPROXY_CAP_RANGE = push_bit 6 1"
definition CANPROXY_CAP_CONSUMPTION :: u32 where [contract_consts]: "CANPROXY_CAP_CONSUMPTION = push_bit 7 1"
definition CANPROXY_CAP_ODOMETER :: u32 where [contract_consts]: "CANPROXY_CAP_ODOMETER = push_bit 8 1"
definition CANPROXY_CAP_AMBIENT_TEMP :: u32 where [contract_consts]: "CANPROXY_CAP_AMBIENT_TEMP = push_bit 9 1"
definition CANPROXY_CAP_COOLANT_TEMP :: u32 where [contract_consts]: "CANPROXY_CAP_COOLANT_TEMP = push_bit 10 1"
definition CANPROXY_CAP_FUEL_LEVEL :: u32 where [contract_consts]: "CANPROXY_CAP_FUEL_LEVEL = push_bit 11 1"
definition CANPROXY_CAP_AUX_BATTERY :: u32 where [contract_consts]: "CANPROXY_CAP_AUX_BATTERY = push_bit 12 1"
definition CANPROXY_CAP_SOH :: u32 where [contract_consts]: "CANPROXY_CAP_SOH = push_bit 13 1"
definition CANPROXY_CAP_CHARGING :: u32 where [contract_consts]: "CANPROXY_CAP_CHARGING = push_bit 14 1"
definition CANPROXY_CAP_CABIN_TEMP :: u32 where [contract_consts]: "CANPROXY_CAP_CABIN_TEMP = push_bit 15 1"
definition CANPROXY_CAP_POWER_STATE :: u32 where [contract_consts]: "CANPROXY_CAP_POWER_STATE = push_bit 16 1"
definition CANPROXY_CAP_ASSIST :: u32 where [contract_consts]: "CANPROXY_CAP_ASSIST = push_bit 17 1"
definition CANPROXY_CAP_RESERVED_MASK :: u32 where [contract_consts]: "CANPROXY_CAP_RESERVED_MASK = 0xFFFC0000"

definition CANPROXY_TT_ENGINE :: u32 where [contract_consts]: "CANPROXY_TT_ENGINE = push_bit 0 1"
definition CANPROXY_TT_OIL :: u32 where [contract_consts]: "CANPROXY_TT_OIL = push_bit 1 1"
definition CANPROXY_TT_BATTERY :: u32 where [contract_consts]: "CANPROXY_TT_BATTERY = push_bit 2 1"
definition CANPROXY_TT_BRAKE :: u32 where [contract_consts]: "CANPROXY_TT_BRAKE = push_bit 3 1"
definition CANPROXY_TT_LEFT :: u32 where [contract_consts]: "CANPROXY_TT_LEFT = push_bit 4 1"
definition CANPROXY_TT_RIGHT :: u32 where [contract_consts]: "CANPROXY_TT_RIGHT = push_bit 5 1"
definition CANPROXY_TT_HIGHBEAM :: u32 where [contract_consts]: "CANPROXY_TT_HIGHBEAM = push_bit 6 1"
definition CANPROXY_TT_DOOR :: u32 where [contract_consts]: "CANPROXY_TT_DOOR = push_bit 7 1"
definition CANPROXY_TT_SEATBELT :: u32 where [contract_consts]: "CANPROXY_TT_SEATBELT = push_bit 8 1"
definition CANPROXY_TT_ABS :: u32 where [contract_consts]: "CANPROXY_TT_ABS = push_bit 9 1"
definition CANPROXY_TT_TRACTION :: u32 where [contract_consts]: "CANPROXY_TT_TRACTION = push_bit 10 1"
definition CANPROXY_TT_TPMS :: u32 where [contract_consts]: "CANPROXY_TT_TPMS = push_bit 11 1"
definition CANPROXY_TT_EV_READY :: u32 where [contract_consts]: "CANPROXY_TT_EV_READY = push_bit 12 1"
definition CANPROXY_TT_CHARGING :: u32 where [contract_consts]: "CANPROXY_TT_CHARGING = push_bit 13 1"
definition CANPROXY_TT_LIMITED_POWER :: u32 where [contract_consts]: "CANPROXY_TT_LIMITED_POWER = push_bit 14 1"
definition CANPROXY_TT_LOW_TRACTION_BATTERY :: u32 where [contract_consts]: "CANPROXY_TT_LOW_TRACTION_BATTERY = push_bit 15 1"
definition CANPROXY_TT_PARK_BRAKE :: u32 where [contract_consts]: "CANPROXY_TT_PARK_BRAKE = push_bit 16 1"
definition CANPROXY_TT_LOW_FUEL :: u32 where [contract_consts]: "CANPROXY_TT_LOW_FUEL = push_bit 17 1"
definition CANPROXY_TT_FOG :: u32 where [contract_consts]: "CANPROXY_TT_FOG = push_bit 18 1"
definition CANPROXY_TT_HV_SYSTEM_FAULT :: u32 where [contract_consts]: "CANPROXY_TT_HV_SYSTEM_FAULT = push_bit 19 1"
definition CANPROXY_TT_RESERVED_MASK :: u32 where [contract_consts]: "CANPROXY_TT_RESERVED_MASK = 0xFFF00000"
definition CANPROXY_TT_LEGACY_MASK :: u32 where [contract_consts]: "CANPROXY_TT_LEGACY_MASK = 0x0000FFFF"

definition CANPROXY_LANE_LEFT_SEEN :: u8 where [contract_consts]: "CANPROXY_LANE_LEFT_SEEN = push_bit 0 1"
definition CANPROXY_LANE_RIGHT_SEEN :: u8 where [contract_consts]: "CANPROXY_LANE_RIGHT_SEEN = push_bit 1 1"
definition CANPROXY_LANE_LEFT_DEPARTURE :: u8 where [contract_consts]: "CANPROXY_LANE_LEFT_DEPARTURE = push_bit 2 1"
definition CANPROXY_LANE_RIGHT_DEPARTURE :: u8 where [contract_consts]: "CANPROXY_LANE_RIGHT_DEPARTURE = push_bit 3 1"
definition CANPROXY_LANE_VALID_MASK :: u8 where [contract_consts]: "CANPROXY_LANE_VALID_MASK = 0x0F"

section \<open>Lookups by identifier\<close>

definition canproxy_cycle_ms :: "u32 \<Rightarrow> u32" where
  "canproxy_cycle_ms fid =
     (if fid = CANPROXY_ID_STATUS then CANPROXY_CYCLE_STATUS_MS
     else if fid = CANPROXY_ID_IDENTITY then CANPROXY_CYCLE_IDENTITY_MS
     else if fid = CANPROXY_ID_MOTION then CANPROXY_CYCLE_MOTION_MS
     else if fid = CANPROXY_ID_EDRIVE then CANPROXY_CYCLE_EDRIVE_MS
     else if fid = CANPROXY_ID_TELLTALES then CANPROXY_CYCLE_TELLTALES_MS
     else if fid = CANPROXY_ID_ENERGY then CANPROXY_CYCLE_ENERGY_MS
     else if fid = CANPROXY_ID_TRIP then CANPROXY_CYCLE_TRIP_MS
     else if fid = CANPROXY_ID_THERMAL then CANPROXY_CYCLE_THERMAL_MS
     else if fid = CANPROXY_ID_ASSIST then CANPROXY_CYCLE_ASSIST_MS
     else 0)"

definition canproxy_stale_ms :: "u32 \<Rightarrow> u32" where
  "canproxy_stale_ms fid =
     (if fid = CANPROXY_ID_STATUS then CANPROXY_STALE_STATUS_MS
     else if fid = CANPROXY_ID_IDENTITY then CANPROXY_STALE_IDENTITY_MS
     else if fid = CANPROXY_ID_MOTION then CANPROXY_STALE_MOTION_MS
     else if fid = CANPROXY_ID_EDRIVE then CANPROXY_STALE_EDRIVE_MS
     else if fid = CANPROXY_ID_TELLTALES then CANPROXY_STALE_TELLTALES_MS
     else if fid = CANPROXY_ID_ENERGY then CANPROXY_STALE_ENERGY_MS
     else if fid = CANPROXY_ID_TRIP then CANPROXY_STALE_TRIP_MS
     else if fid = CANPROXY_ID_THERMAL then CANPROXY_STALE_THERMAL_MS
     else if fid = CANPROXY_ID_ASSIST then CANPROXY_STALE_ASSIST_MS
     else 0)"

definition canproxy_is_contract_id :: "u32 \<Rightarrow> bool" where
  "canproxy_is_contract_id fid \<longleftrightarrow> canproxy_cycle_ms fid \<noteq> 0"

definition canproxy_id_name :: "u32 \<Rightarrow> string" where
  "canproxy_id_name fid =
     (if fid = CANPROXY_ID_STATUS then ''status''
     else if fid = CANPROXY_ID_IDENTITY then ''identity''
     else if fid = CANPROXY_ID_MOTION then ''motion''
     else if fid = CANPROXY_ID_EDRIVE then ''edrive''
     else if fid = CANPROXY_ID_TELLTALES then ''telltales''
     else if fid = CANPROXY_ID_ENERGY then ''energy''
     else if fid = CANPROXY_ID_TRIP then ''trip''
     else if fid = CANPROXY_ID_THERMAL then ''thermal''
     else if fid = CANPROXY_ID_ASSIST then ''assist''
     else ''unknown'')"

section \<open>Consistency of the tables\<close>

text \<open>The identifiers of the contract, in the order of the table.\<close>

definition contract_ids :: "u32 list" where
  "contract_ids =
     [CANPROXY_ID_STATUS, CANPROXY_ID_IDENTITY, CANPROXY_ID_MOTION,
      CANPROXY_ID_EDRIVE, CANPROXY_ID_TELLTALES, CANPROXY_ID_ENERGY,
      CANPROXY_ID_TRIP, CANPROXY_ID_THERMAL, CANPROXY_ID_ASSIST]"

lemmas table_defs = canproxy_cycle_ms_def canproxy_stale_ms_def canproxy_is_contract_id_def
  canproxy_id_name_def contract_ids_def

lemma contract_id_iff: "canproxy_is_contract_id fid \<longleftrightarrow> fid \<in> set contract_ids"
  by (simp add: table_defs contract_consts)

lemma cycle_of_id:
  "fid \<in> set contract_ids \<Longrightarrow> 0 < uint (canproxy_cycle_ms fid) \<and> uint (canproxy_cycle_ms fid) \<le> 1000"
  by (auto simp: table_defs contract_consts)

lemma stale_margin:
  "fid \<in> set contract_ids \<Longrightarrow>
    2 * uint (canproxy_cycle_ms fid) + 100 \<le> uint (canproxy_stale_ms fid)"
  by (auto simp: table_defs contract_consts)

lemma distinct_contract_ids: "distinct contract_ids"
  by (simp add: contract_ids_def contract_consts)

text \<open>Each bit of a map is a power of two; the masks complement them.\<close>

lemma cap_reserved_bit: "bit CANPROXY_CAP_RESERVED_MASK n \<longleftrightarrow> 18 \<le> n \<and> n < 32"
proof -
  have eq: "CANPROXY_CAP_RESERVED_MASK = push_bit 18 (mask 14)"
    by (simp add: CANPROXY_CAP_RESERVED_MASK_def mask_eq_exp_minus_1)
  show ?thesis unfolding eq by (auto simp: bit_simps)
qed

lemma tt_reserved_bit: "bit CANPROXY_TT_RESERVED_MASK n \<longleftrightarrow> 20 \<le> n \<and> n < 32"
proof -
  have eq: "CANPROXY_TT_RESERVED_MASK = push_bit 20 (mask 12)"
    by (simp add: CANPROXY_TT_RESERVED_MASK_def mask_eq_exp_minus_1)
  show ?thesis unfolding eq by (auto simp: bit_simps)
qed

lemma lane_valid_bit: "bit CANPROXY_LANE_VALID_MASK n \<longleftrightarrow> n < 4"
proof -
  have eq: "CANPROXY_LANE_VALID_MASK = mask 4"
    by (simp add: CANPROXY_LANE_VALID_MASK_def mask_eq_exp_minus_1)
  show ?thesis unfolding eq by (auto simp: bit_simps)
qed

end
