(* ===== verification/Contract_Frames.thy ===== *)
theory Contract_Frames
  imports Contract_Tables
begin

text \<open>
  The nine frames of \<^verbatim>\<open>contract/can_proxy_contract.h\<close>: the decoded structures, their pack and unpack
  functions, the identity hash, and the laws every pair of pack and unpack obeys. A frame is a
  list of eight bytes; \<open>int8_t\<close> and \<open>int16_t\<close> fields are words read with \<open>sint\<close>. A pack function
  is \<open>None\<close> where a conversion in it is undefined.
\<close>

section \<open>Decoded structures\<close>

record canproxy_status =
  contract_major :: u8
  contract_minor :: u8
  counter :: u8
  proxy_state :: u8
  capabilities :: u32

record canproxy_identity =
  drivetrain :: u8
  source_kind :: u8
  plugin_major :: u8
  plugin_minor :: u8
  vehicle_id :: u32

record canproxy_motion =
  speed_kmh :: f64
  speed_valid :: bool
  rpm :: u16
  rpm_valid :: bool
  gear :: u8
  gear_valid :: bool
  power_state :: u8
  power_state_valid :: bool

record canproxy_edrive =
  motor_power_kw :: f64
  motor_power_valid :: bool
  pack_voltage_v :: f64
  pack_voltage_valid :: bool
  pack_current_a :: f64
  pack_current_valid :: bool

record canproxy_telltales =
  bits :: u32

record canproxy_energy =
  soc_pct :: f64
  soc_valid :: bool
  soh_pct :: f64
  soh_valid :: bool
  range_km :: u16
  range_valid :: bool
  consumption_wh_km :: u16
  consumption_valid :: bool
  charging_state :: u8
  charging_state_valid :: bool

record canproxy_trip =
  odometer_km :: f64
  odometer_valid :: bool
  ambient_c :: u8
  ambient_valid :: bool
  cabin_c :: u8
  cabin_valid :: bool

record canproxy_thermal =
  coolant_c :: u8
  coolant_valid :: bool
  fuel_pct :: f64
  fuel_valid :: bool
  aux_battery_v :: f64
  aux_battery_valid :: bool

record canproxy_assist =
  eco_score :: u8
  eco_score_valid :: bool
  speed_limit_kmh :: u8
  speed_limit_valid :: bool
  collision_risk :: u8
  collision_risk_valid :: bool
  lane_state :: u8
  lane_state_valid :: bool
  lead_gap_m :: f64
  lead_gap_valid :: bool

section \<open>0x400 status\<close>

definition canproxy_pack_status :: "canproxy_status \<Rightarrow> bytes option" where
  "canproxy_pack_status s = (
     let d = canproxy_clear;
         d = d[0 := contract_major s];
         d = d[1 := contract_minor s];
         d = d[2 := counter s];
         d = d[3 := proxy_state s]
     in Some (canproxy_put_u32le d 4 (capabilities s AND NOT CANPROXY_CAP_RESERVED_MASK)))"

definition canproxy_unpack_status :: "bytes \<Rightarrow> canproxy_status" where
  "canproxy_unpack_status d =
     \<lparr> contract_major = d ! 0, contract_minor = d ! 1, counter = d ! 2, proxy_state = d ! 3,
       capabilities = canproxy_get_u32le d 4 \<rparr>"

definition canproxy_status_compatible :: "canproxy_status \<Rightarrow> bool" where
  "canproxy_status_compatible s \<longleftrightarrow> contract_major s = CANPROXY_CONTRACT_MAJOR"

section \<open>0x401 identity\<close>

definition canproxy_pack_identity :: "canproxy_identity \<Rightarrow> bytes option" where
  "canproxy_pack_identity s = (
     let d = canproxy_clear;
         d = d[0 := drivetrain s];
         d = d[1 := source_kind s];
         d = d[2 := plugin_major s];
         d = d[3 := plugin_minor s]
     in Some (canproxy_put_u32le d 4 (vehicle_id s)))"

definition canproxy_unpack_identity :: "bytes \<Rightarrow> canproxy_identity" where
  "canproxy_unpack_identity d =
     \<lparr> drivetrain = d ! 0, source_kind = d ! 1, plugin_major = d ! 2, plugin_minor = d ! 3,
       vehicle_id = canproxy_get_u32le d 4 \<rparr>"

text \<open>FNV-1a over a C string: the characters up to the first NUL.\<close>

fun fnv_step :: "u32 \<Rightarrow> string \<Rightarrow> u32" where
  "fnv_step h [] = h"
| "fnv_step h (c # cs) =
     (if (of_char c :: u8) = 0 then h
      else fnv_step ((h XOR ucast (of_char c :: u8)) * 0x01000193) cs)"

definition canproxy_fnv1a32 :: "string \<Rightarrow> u32" where
  "canproxy_fnv1a32 s = fnv_step 0x811C9DC5 s"

section \<open>0x410 motion\<close>

definition canproxy_pack_motion :: "canproxy_motion \<Rightarrow> bytes option" where
  "canproxy_pack_motion s = do {
     let d = canproxy_clear;
     speed \<leftarrow> canproxy_enc_u16 (speed_kmh s) lsb_001 (speed_valid s);
     let d = canproxy_put_u16le d 0 speed;
     let d = canproxy_put_u16le d 2
       (if rpm_valid s then if rpm s = 0xFFFF then 0xFFFE else rpm s else CANPROXY_SNA_U16);
     let d = d[4 := if gear_valid s then gear s else CANPROXY_SNA_U8];
     Some (d[5 := if power_state_valid s then power_state s else CANPROXY_SNA_U8])
   }"

definition canproxy_unpack_motion :: "bytes \<Rightarrow> canproxy_motion" where
  "canproxy_unpack_motion d = (
     let speed = canproxy_get_u16le d 0; v = (speed \<noteq> CANPROXY_SNA_U16);
         rev = canproxy_get_u16le d 2; rv = (rev \<noteq> CANPROXY_SNA_U16);
         gv = (d ! 4 \<noteq> CANPROXY_SNA_U8);
         pv = (d ! 5 \<noteq> CANPROXY_SNA_U8)
     in \<lparr> speed_kmh = (if v then of_long (uint speed) * lsb_001 else dlit 0), speed_valid = v,
          rpm = (if rv then rev else 0), rpm_valid = rv,
          gear = (if gv then d ! 4 else 0), gear_valid = gv,
          power_state = (if pv then d ! 5 else 0), power_state_valid = pv \<rparr>)"

section \<open>0x411 electric drive\<close>

definition canproxy_pack_edrive :: "canproxy_edrive \<Rightarrow> bytes option" where
  "canproxy_pack_edrive s = do {
     let d = canproxy_clear;
     p \<leftarrow> canproxy_enc_i16 (motor_power_kw s) lsb_01 (motor_power_valid s);
     let d = canproxy_put_u16le d 0 p;
     v \<leftarrow> canproxy_enc_u16 (pack_voltage_v s) lsb_01 (pack_voltage_valid s);
     let d = canproxy_put_u16le d 2 v;
     c \<leftarrow> canproxy_enc_i16 (pack_current_a s) lsb_01 (pack_current_valid s);
     Some (canproxy_put_u16le d 4 c)
   }"

definition canproxy_unpack_edrive :: "bytes \<Rightarrow> canproxy_edrive" where
  "canproxy_unpack_edrive d = (
     let p = canproxy_get_u16le d 0; mv = (p \<noteq> CANPROXY_SNA_I16);
         u = canproxy_get_u16le d 2; vv = (u \<noteq> CANPROXY_SNA_U16);
         c = canproxy_get_u16le d 4; cv = (c \<noteq> CANPROXY_SNA_I16)
     in \<lparr> motor_power_kw = (if mv then of_long (sint p) * lsb_01 else dlit 0), motor_power_valid = mv,
          pack_voltage_v = (if vv then of_long (uint u) * lsb_01 else dlit 0), pack_voltage_valid = vv,
          pack_current_a = (if cv then of_long (sint c) * lsb_01 else dlit 0), pack_current_valid = cv \<rparr>)"

section \<open>0x420 telltales\<close>

definition canproxy_pack_telltales :: "canproxy_telltales \<Rightarrow> bytes option" where
  "canproxy_pack_telltales s =
     Some (canproxy_put_u32le canproxy_clear 0 (bits s AND NOT CANPROXY_TT_RESERVED_MASK))"

definition canproxy_unpack_telltales :: "bytes \<Rightarrow> canproxy_telltales" where
  "canproxy_unpack_telltales d = \<lparr> bits = canproxy_get_u32le d 0 \<rparr>"

section \<open>0x430 energy\<close>

definition canproxy_pack_energy :: "canproxy_energy \<Rightarrow> bytes option" where
  "canproxy_pack_energy s = do {
     let d = canproxy_clear;
     c \<leftarrow> canproxy_enc_u8 (soc_pct s) lsb_05 (soc_valid s) 200;
     let d = d[0 := c];
     h \<leftarrow> canproxy_enc_u8 (soh_pct s) lsb_05 (soh_valid s) 200;
     let d = d[1 := h];
     let d = canproxy_put_u16le d 2
       (if range_valid s then if range_km s = 0xFFFF then 0xFFFE else range_km s else CANPROXY_SNA_U16);
     let d = canproxy_put_u16le d 4
       (if consumption_valid s
        then if consumption_wh_km s = CANPROXY_SNA_I16 then - 32767 else consumption_wh_km s
        else CANPROXY_SNA_I16);
     Some (d[6 := if charging_state_valid s then charging_state s else CANPROXY_SNA_U8])
   }"

definition canproxy_unpack_energy :: "bytes \<Rightarrow> canproxy_energy" where
  "canproxy_unpack_energy d = (
     let cv = (d ! 0 \<noteq> CANPROXY_SNA_U8);
         hv = (d ! 1 \<noteq> CANPROXY_SNA_U8);
         ur = canproxy_get_u16le d 2; rv = (ur \<noteq> CANPROXY_SNA_U16);
         sr = canproxy_get_u16le d 4; wv = (sr \<noteq> CANPROXY_SNA_I16);
         gv = (d ! 6 \<noteq> CANPROXY_SNA_U8)
     in \<lparr> soc_pct = (if cv then of_long (uint (d ! 0)) * lsb_05 else dlit 0), soc_valid = cv,
          soh_pct = (if hv then of_long (uint (d ! 1)) * lsb_05 else dlit 0), soh_valid = hv,
          range_km = (if rv then ur else 0), range_valid = rv,
          consumption_wh_km = (if wv then sr else 0), consumption_valid = wv,
          charging_state = (if gv then d ! 6 else 0), charging_state_valid = gv \<rparr>)"

section \<open>0x431 trip and environment\<close>

definition canproxy_pack_trip :: "canproxy_trip \<Rightarrow> bytes option" where
  "canproxy_pack_trip s = do {
     let d = canproxy_clear;
     km \<leftarrow> canproxy_enc_u32 (odometer_km s) lsb_01 (odometer_valid s);
     let d = canproxy_put_u32le d 0 km;
     a \<leftarrow> canproxy_enc_i8 (of_long (sint (ambient_c s))) lsb_1 (ambient_valid s);
     let d = d[4 := a];
     c \<leftarrow> canproxy_enc_i8 (of_long (sint (cabin_c s))) lsb_1 (cabin_valid s);
     Some (d[5 := c])
   }"

definition canproxy_unpack_trip :: "bytes \<Rightarrow> canproxy_trip" where
  "canproxy_unpack_trip d = (
     let ur = canproxy_get_u32le d 0; kv = (ur \<noteq> CANPROXY_SNA_U32);
         av = (d ! 4 \<noteq> CANPROXY_SNA_I8);
         cv = (d ! 5 \<noteq> CANPROXY_SNA_I8)
     in \<lparr> odometer_km = (if kv then of_long (uint ur) * lsb_01 else dlit 0), odometer_valid = kv,
          ambient_c = (if av then d ! 4 else 0), ambient_valid = av,
          cabin_c = (if cv then d ! 5 else 0), cabin_valid = cv \<rparr>)"

section \<open>0x440 thermal and auxiliary\<close>

definition canproxy_pack_thermal :: "canproxy_thermal \<Rightarrow> bytes option" where
  "canproxy_pack_thermal s = do {
     let d = canproxy_clear;
     c \<leftarrow> canproxy_enc_i8 (of_long (sint (coolant_c s))) lsb_1 (coolant_valid s);
     let d = d[0 := c];
     f \<leftarrow> canproxy_enc_u8 (fuel_pct s) lsb_05 (fuel_valid s) 200;
     let d = d[1 := f];
     a \<leftarrow> canproxy_enc_u16 (aux_battery_v s) lsb_001 (aux_battery_valid s);
     Some (canproxy_put_u16le d 2 a)
   }"

definition canproxy_unpack_thermal :: "bytes \<Rightarrow> canproxy_thermal" where
  "canproxy_unpack_thermal d = (
     let cv = (d ! 0 \<noteq> CANPROXY_SNA_I8);
         fv = (d ! 1 \<noteq> CANPROXY_SNA_U8);
         ur = canproxy_get_u16le d 2; av = (ur \<noteq> CANPROXY_SNA_U16)
     in \<lparr> coolant_c = (if cv then d ! 0 else 0), coolant_valid = cv,
          fuel_pct = (if fv then of_long (uint (d ! 1)) * lsb_05 else dlit 0), fuel_valid = fv,
          aux_battery_v = (if av then of_long (uint ur) * lsb_001 else dlit 0), aux_battery_valid = av \<rparr>)"

section \<open>0x450 driver assist and eco\<close>

definition canproxy_pack_assist :: "canproxy_assist \<Rightarrow> bytes option" where
  "canproxy_pack_assist s = do {
     let d = canproxy_clear;
     e \<leftarrow> canproxy_enc_u8 (of_long (uint (eco_score s))) lsb_1 (eco_score_valid s) 100;
     let d = d[0 := e];
     let d = d[1 := if speed_limit_valid s
                    then if speed_limit_kmh s = CANPROXY_SNA_U8 then 0xFE else speed_limit_kmh s
                    else CANPROXY_SNA_U8];
     let d = d[2 := if collision_risk_valid s then collision_risk s else CANPROXY_SNA_U8];
     let d = d[3 := if lane_state_valid s then lane_state s AND CANPROXY_LANE_VALID_MASK
                    else CANPROXY_SNA_U8];
     g \<leftarrow> canproxy_enc_u16 (lead_gap_m s) lsb_01 (lead_gap_valid s);
     Some (canproxy_put_u16le d 4 g)
   }"

definition canproxy_unpack_assist :: "bytes \<Rightarrow> canproxy_assist" where
  "canproxy_unpack_assist d = (
     let ev = (d ! 0 \<noteq> CANPROXY_SNA_U8);
         sv = (d ! 1 \<noteq> CANPROXY_SNA_U8);
         cv = (d ! 2 \<noteq> CANPROXY_SNA_U8);
         lv = (d ! 3 \<noteq> CANPROXY_SNA_U8);
         ur = canproxy_get_u16le d 4; gv = (ur \<noteq> CANPROXY_SNA_U16)
     in \<lparr> eco_score = (if ev then d ! 0 else 0), eco_score_valid = ev,
          speed_limit_kmh = (if sv then d ! 1 else 0), speed_limit_valid = sv,
          collision_risk = (if cv then d ! 2 else 0), collision_risk_valid = cv,
          lane_state = (if lv then d ! 3 else 0), lane_state_valid = lv,
          lead_gap_m = (if gv then of_long (uint ur) * lsb_01 else dlit 0), lead_gap_valid = gv \<rparr>)"

section \<open>Canonical frames\<close>

text \<open>
  The frames a proxy may send: eight bytes, reserved bits and bytes zero, percentages and the lane
  bits in their range or SNA.
\<close>

definition zero_from :: "nat \<Rightarrow> bytes \<Rightarrow> bool" where
  "zero_from n d \<longleftrightarrow> length d = CANPROXY_FRAME_DLC \<and> (\<forall>b \<in> set (drop n d). b = 0)"

definition u8_upto :: "u8 \<Rightarrow> u8 \<Rightarrow> bool" where
  "u8_upto mx b \<longleftrightarrow> b \<le> mx \<or> b = CANPROXY_SNA_U8"

definition canonical_status :: "bytes \<Rightarrow> bool" where
  "canonical_status d \<longleftrightarrow> zero_from 8 d \<and> canproxy_get_u32le d 4 AND CANPROXY_CAP_RESERVED_MASK = 0"

definition canonical_identity :: "bytes \<Rightarrow> bool" where
  "canonical_identity d \<longleftrightarrow> zero_from 8 d"

definition canonical_motion :: "bytes \<Rightarrow> bool" where
  "canonical_motion d \<longleftrightarrow> zero_from 6 d"

definition canonical_edrive :: "bytes \<Rightarrow> bool" where
  "canonical_edrive d \<longleftrightarrow> zero_from 6 d"

definition canonical_telltales :: "bytes \<Rightarrow> bool" where
  "canonical_telltales d \<longleftrightarrow> zero_from 4 d \<and> canproxy_get_u32le d 0 AND CANPROXY_TT_RESERVED_MASK = 0"

definition canonical_energy :: "bytes \<Rightarrow> bool" where
  "canonical_energy d \<longleftrightarrow> zero_from 7 d \<and> u8_upto 200 (d ! 0) \<and> u8_upto 200 (d ! 1)"

definition canonical_trip :: "bytes \<Rightarrow> bool" where
  "canonical_trip d \<longleftrightarrow> zero_from 6 d"

definition canonical_thermal :: "bytes \<Rightarrow> bool" where
  "canonical_thermal d \<longleftrightarrow> zero_from 4 d \<and> u8_upto 200 (d ! 1)"

definition canonical_assist :: "bytes \<Rightarrow> bool" where
  "canonical_assist d \<longleftrightarrow> zero_from 6 d \<and> u8_upto 100 (d ! 0) \<and> u8_upto CANPROXY_LANE_VALID_MASK (d ! 3)"

section \<open>The contract of a frame codec\<close>

text \<open>
  A codec packs into canonical frames only, and packing what it unpacked from a canonical frame
  gives the frame back. Everything else about round trips follows from these two laws.
\<close>

locale frame_codec =
  fixes pack :: "'s \<Rightarrow> bytes option" and unpack :: "bytes \<Rightarrow> 's" and canonical :: "bytes \<Rightarrow> bool"
  assumes pack_canonical: "pack s = Some d \<Longrightarrow> canonical d"
    and pack_unpack: "canonical d \<Longrightarrow> pack (unpack d) = Some d"
    and canonical_length: "canonical d \<Longrightarrow> length d = CANPROXY_FRAME_DLC"
begin

lemma pack_length: "pack s = Some d \<Longrightarrow> length d = CANPROXY_FRAME_DLC"
  using pack_canonical canonical_length by blast

lemma repack: "pack s = Some d \<Longrightarrow> pack (unpack d) = Some d"
  using pack_canonical pack_unpack by blast

lemma unpack_inj: "canonical d \<Longrightarrow> canonical e \<Longrightarrow> unpack d = unpack e \<Longrightarrow> d = e"
  using pack_unpack by (metis option.inject)

lemma packed_frames: "(\<exists>s. pack s = Some d) \<longleftrightarrow> canonical d"
  using pack_canonical pack_unpack by blast

text \<open>Decoding what was sent normalises a structure: doing it twice changes nothing.\<close>

lemma normalise_idempotent:
  "pack s = Some d \<Longrightarrow> pack (unpack d) = Some e \<Longrightarrow> unpack e = unpack d"
  using repack by (metis option.inject)

end

section \<open>The nine codecs\<close>

lemma frame_bytes:
  assumes "length d = CANPROXY_FRAME_DLC"
  obtains b0 b1 b2 b3 b4 b5 b6 b7 where "d = [b0, b1, b2, b3, b4, b5, b6, b7]"
  using assms by (auto simp: CANPROXY_FRAME_DLC_def numeral_eq_Suc length_Suc_conv)

lemma zero_from_length: "zero_from n d \<Longrightarrow> length d = CANPROXY_FRAME_DLC"
  by (simp add: zero_from_def)

lemma clear_bytes [wire_simps]: "canproxy_clear = [0, 0, 0, 0, 0, 0, 0, 0]"
  by (simp add: canproxy_clear_def CANPROXY_FRAME_DLC_def numeral_eq_Suc)

lemma and_not_mask_zero: "(x AND NOT m) AND m = 0" "x AND m = 0 \<Longrightarrow> x AND NOT m = (x :: 'a::len word)"
proof -
  show "(x AND NOT m) AND m = 0"
    by (rule bit_eqI) (auto simp: bit_simps)
  assume "x AND m = 0"
  then have "\<not> (bit x n \<and> bit m n)" for n
    by (metis bit_0_eq bit_and_iff bot_apply bot_bool_def)
  then show "x AND NOT m = x"
    by (auto intro!: bit_eqI simp: bit_simps dest: bit_imp_le_length)
qed

lemma enc_u8_upto: "canproxy_enc_u8 v l b mx = Some r \<Longrightarrow> u8_upto mx r"
proof (cases b)
  case True
  moreover assume "canproxy_enc_u8 v l b mx = Some r"
  ultimately obtain i where r: "r = word_of_int (clamp 0 (uint mx) i)"
    by (auto simp: enc_u8_valid)
  have "uint r = clamp 0 (uint mx) i"
    using uint_lt2p [of mx] unfolding r by (intro uint_word_of_int_clamp) simp_all
  then show ?thesis
    using clamp_bounds [of 0 "uint mx" i] by (simp add: u8_upto_def word_le_def)
qed (simp add: enc_u8_invalid u8_upto_def)

lemma lane_upto: "u8_upto CANPROXY_LANE_VALID_MASK (x AND CANPROXY_LANE_VALID_MASK)"
  by (simp add: u8_upto_def word_and_le1)

lemma upto_lane: "x \<le> CANPROXY_LANE_VALID_MASK \<Longrightarrow> x AND CANPROXY_LANE_VALID_MASK = x"
proof -
  have eq: "CANPROXY_LANE_VALID_MASK = mask 4"
    by (simp add: CANPROXY_LANE_VALID_MASK_def mask_eq_exp_minus_1)
  assume "x \<le> CANPROXY_LANE_VALID_MASK"
  then have "take_bit 4 (uint x) = uint x"
    by (intro take_bit_int_eq_self) (simp_all add: CANPROXY_LANE_VALID_MASK_def word_le_def)
  then have "uint (take_bit 4 x) = uint x"
    by transfer simp
  then show ?thesis
    by (simp add: eq word_uint_eq_iff take_bit_eq_mask)
qed

text \<open>Encoding what a decoder read from a raw field gives the field back.\<close>

context lsb_scale
begin

lemma reenc_u16:
  "canproxy_enc_u16 (if raw \<noteq> CANPROXY_SNA_U16 then of_long (uint raw) * lsb else z) lsb
     (raw \<noteq> CANPROXY_SNA_U16) = Some raw"
  by (cases "raw = CANPROXY_SNA_U16") (simp_all add: enc_u16_invalid enc_u16_raw)

lemma reenc_i16:
  "canproxy_enc_i16 (if raw \<noteq> CANPROXY_SNA_I16 then of_long (sint raw) * lsb else z) lsb
     (raw \<noteq> CANPROXY_SNA_I16) = Some raw"
  by (cases "raw = CANPROXY_SNA_I16") (simp_all add: enc_i16_invalid enc_i16_raw)

lemma reenc_u32:
  "canproxy_enc_u32 (if raw \<noteq> CANPROXY_SNA_U32 then of_long (uint raw) * lsb else z) lsb
     (raw \<noteq> CANPROXY_SNA_U32) = Some raw"
  by (cases "raw = CANPROXY_SNA_U32") (simp_all add: enc_u32_invalid enc_u32_raw)

lemma reenc_u8:
  "u8_upto mx raw \<Longrightarrow>
    canproxy_enc_u8 (if raw \<noteq> CANPROXY_SNA_U8 then of_long (uint raw) * lsb else z) lsb
      (raw \<noteq> CANPROXY_SNA_U8) mx = Some raw"
  by (cases "raw = CANPROXY_SNA_U8") (auto simp: enc_u8_invalid enc_u8_raw u8_upto_def)

end

lemma reenc_i8:
  "canproxy_enc_i8 (of_long (sint (if raw \<noteq> CANPROXY_SNA_I8 then raw else 0))) lsb_1
     (raw \<noteq> CANPROXY_SNA_I8) = Some raw"
  by (cases "raw = CANPROXY_SNA_I8") (simp_all add: enc_i8_invalid enc_i8_raw)

lemma reenc_u8_1:
  "u8_upto mx raw \<Longrightarrow>
    canproxy_enc_u8 (of_long (uint (if raw \<noteq> CANPROXY_SNA_U8 then raw else 0))) lsb_1
      (raw \<noteq> CANPROXY_SNA_U8) mx = Some raw"
  by (cases "raw = CANPROXY_SNA_U8") (auto simp: enc_u8_invalid enc_u8_raw_1 u8_upto_def)

lemmas reenc = s001.reenc_u16 s01.reenc_u16 s01.reenc_i16 s01.reenc_u32 s05.reenc_u8 reenc_i8 reenc_u8_1

text \<open>Writing the fields back, byte by byte.\<close>

lemma put_get_u16le:
  "p + 1 < length d \<Longrightarrow> length e = length d \<Longrightarrow>
    canproxy_put_u16le e p (canproxy_get_u16le d p) = e[p := d ! p, p + 1 := d ! (p + 1)]"
  by (simp add: canproxy_get_u16le_def put_u16le_of_bytes)

lemma put_get_u32le:
  "p + 3 < length d \<Longrightarrow> length e = length d \<Longrightarrow>
    canproxy_put_u32le e p (canproxy_get_u32le d p) =
      e[p := d ! p, p + 1 := d ! (p + 1), p + 2 := d ! (p + 2), p + 3 := d ! (p + 3)]"
  by (simp add: canproxy_get_u32le_def put_u32le_of_bytes)

lemmas canonical_defs = canonical_status_def canonical_identity_def canonical_motion_def
  canonical_edrive_def canonical_telltales_def canonical_energy_def canonical_trip_def
  canonical_thermal_def canonical_assist_def

text \<open>The unscaled fields: what the decoder kept is what the encoder writes.\<close>

lemma keep_raw: "(if raw \<noteq> s then raw else s) = raw"
  by simp

lemma keep_u16:
  "(if raw \<noteq> CANPROXY_SNA_U16 then if raw = 0xFFFF then 0xFFFE else raw else CANPROXY_SNA_U16) = raw"
  by (simp add: CANPROXY_SNA_U16_def)

lemma keep_lane:
  "u8_upto CANPROXY_LANE_VALID_MASK raw \<Longrightarrow>
    (if raw \<noteq> CANPROXY_SNA_U8 then raw AND CANPROXY_LANE_VALID_MASK else CANPROXY_SNA_U8) = raw"
  by (auto simp: u8_upto_def upto_lane)

lemma get_put_mask:
  "p + 3 < length d \<Longrightarrow> canproxy_get_u32le (canproxy_put_u32le d p (v AND NOT m)) p AND m = 0"
  by (simp add: get_put_u32le and_not_mask_zero)

lemma drop_put_u32le: "p + 4 \<le> n \<Longrightarrow> drop n (canproxy_put_u32le d p v) = drop n d"
  by (simp add: canproxy_put_u32le_def)

lemma upto_SNA: "u8_upto mx CANPROXY_SNA_U8"
  by (simp add: u8_upto_def)

lemmas codec_simps = canonical_defs zero_from_def clear_bytes CANPROXY_FRAME_DLC_def Let_def
lemmas codec_out = enc_u8_upto lane_upto upto_SNA get_put_mask drop_put_u32le canproxy_put_u16le_def
lemmas codec_back = put_get_u16le put_get_u32le and_not_mask_zero reenc keep_raw keep_u16 keep_lane

lemma pack_canonical_status:
  "canproxy_pack_status s = Some d \<Longrightarrow> canonical_status d"
  by (auto simp: codec_simps codec_out canproxy_pack_status_def split: bind_splits)

lemma pack_unpack_status:
  assumes "canonical_status d"
  shows "canproxy_pack_status (canproxy_unpack_status d) = Some d"
proof -
  have "length d = CANPROXY_FRAME_DLC"
    using assms by (simp add: canonical_defs zero_from_def)
  then obtain b0 b1 b2 b3 b4 b5 b6 b7 where d: "d = [b0, b1, b2, b3, b4, b5, b6, b7]"
    by (rule frame_bytes)
  show ?thesis
    using assms unfolding d
    by (simp add: codec_simps codec_back canproxy_pack_status_def canproxy_unpack_status_def
        split del: if_split cong: if_cong)
qed

lemma pack_canonical_identity:
  "canproxy_pack_identity s = Some d \<Longrightarrow> canonical_identity d"
  by (auto simp: codec_simps codec_out canproxy_pack_identity_def split: bind_splits)

lemma pack_unpack_identity:
  assumes "canonical_identity d"
  shows "canproxy_pack_identity (canproxy_unpack_identity d) = Some d"
proof -
  have "length d = CANPROXY_FRAME_DLC"
    using assms by (simp add: canonical_defs zero_from_def)
  then obtain b0 b1 b2 b3 b4 b5 b6 b7 where d: "d = [b0, b1, b2, b3, b4, b5, b6, b7]"
    by (rule frame_bytes)
  show ?thesis
    using assms unfolding d
    by (simp add: codec_simps codec_back canproxy_pack_identity_def canproxy_unpack_identity_def
        split del: if_split cong: if_cong)
qed

lemma pack_canonical_motion:
  "canproxy_pack_motion s = Some d \<Longrightarrow> canonical_motion d"
  by (auto simp: codec_simps codec_out canproxy_pack_motion_def split: bind_splits)

lemma pack_unpack_motion:
  assumes "canonical_motion d"
  shows "canproxy_pack_motion (canproxy_unpack_motion d) = Some d"
proof -
  have "length d = CANPROXY_FRAME_DLC"
    using assms by (simp add: canonical_defs zero_from_def)
  then obtain b0 b1 b2 b3 b4 b5 b6 b7 where d: "d = [b0, b1, b2, b3, b4, b5, b6, b7]"
    by (rule frame_bytes)
  show ?thesis
    using assms unfolding d
    by (simp add: codec_simps codec_back canproxy_pack_motion_def canproxy_unpack_motion_def
        split del: if_split cong: if_cong)
qed

lemma pack_canonical_edrive:
  "canproxy_pack_edrive s = Some d \<Longrightarrow> canonical_edrive d"
  by (auto simp: codec_simps codec_out canproxy_pack_edrive_def split: bind_splits)

lemma pack_unpack_edrive:
  assumes "canonical_edrive d"
  shows "canproxy_pack_edrive (canproxy_unpack_edrive d) = Some d"
proof -
  have "length d = CANPROXY_FRAME_DLC"
    using assms by (simp add: canonical_defs zero_from_def)
  then obtain b0 b1 b2 b3 b4 b5 b6 b7 where d: "d = [b0, b1, b2, b3, b4, b5, b6, b7]"
    by (rule frame_bytes)
  show ?thesis
    using assms unfolding d
    by (simp add: codec_simps codec_back canproxy_pack_edrive_def canproxy_unpack_edrive_def
        split del: if_split cong: if_cong)
qed

lemma pack_canonical_telltales:
  "canproxy_pack_telltales s = Some d \<Longrightarrow> canonical_telltales d"
  by (auto simp: codec_simps codec_out canproxy_pack_telltales_def split: bind_splits)

lemma pack_unpack_telltales:
  assumes "canonical_telltales d"
  shows "canproxy_pack_telltales (canproxy_unpack_telltales d) = Some d"
proof -
  have "length d = CANPROXY_FRAME_DLC"
    using assms by (simp add: canonical_defs zero_from_def)
  then obtain b0 b1 b2 b3 b4 b5 b6 b7 where d: "d = [b0, b1, b2, b3, b4, b5, b6, b7]"
    by (rule frame_bytes)
  show ?thesis
    using assms unfolding d
    by (clarsimp simp: codec_simps codec_back canproxy_pack_telltales_def canproxy_unpack_telltales_def
        split del: if_split cong: if_cong)
qed

lemma pack_canonical_energy:
  "canproxy_pack_energy s = Some d \<Longrightarrow> canonical_energy d"
  by (auto simp: codec_simps codec_out canproxy_pack_energy_def split: bind_splits)

lemma pack_unpack_energy:
  assumes "canonical_energy d"
  shows "canproxy_pack_energy (canproxy_unpack_energy d) = Some d"
proof -
  have "length d = CANPROXY_FRAME_DLC"
    using assms by (simp add: canonical_defs zero_from_def)
  then obtain b0 b1 b2 b3 b4 b5 b6 b7 where d: "d = [b0, b1, b2, b3, b4, b5, b6, b7]"
    by (rule frame_bytes)
  show ?thesis
    using assms unfolding d
    by (simp add: codec_simps codec_back canproxy_pack_energy_def canproxy_unpack_energy_def
        split del: if_split cong: if_cong)
qed

lemma pack_canonical_trip:
  "canproxy_pack_trip s = Some d \<Longrightarrow> canonical_trip d"
  by (auto simp: codec_simps codec_out canproxy_pack_trip_def split: bind_splits)

lemma pack_unpack_trip:
  assumes "canonical_trip d"
  shows "canproxy_pack_trip (canproxy_unpack_trip d) = Some d"
proof -
  have "length d = CANPROXY_FRAME_DLC"
    using assms by (simp add: canonical_defs zero_from_def)
  then obtain b0 b1 b2 b3 b4 b5 b6 b7 where d: "d = [b0, b1, b2, b3, b4, b5, b6, b7]"
    by (rule frame_bytes)
  show ?thesis
    using assms unfolding d
    by (simp add: codec_simps codec_back canproxy_pack_trip_def canproxy_unpack_trip_def
        split del: if_split cong: if_cong)
qed

lemma pack_canonical_thermal:
  "canproxy_pack_thermal s = Some d \<Longrightarrow> canonical_thermal d"
  by (auto simp: codec_simps codec_out canproxy_pack_thermal_def split: bind_splits)

lemma pack_unpack_thermal:
  assumes "canonical_thermal d"
  shows "canproxy_pack_thermal (canproxy_unpack_thermal d) = Some d"
proof -
  have "length d = CANPROXY_FRAME_DLC"
    using assms by (simp add: canonical_defs zero_from_def)
  then obtain b0 b1 b2 b3 b4 b5 b6 b7 where d: "d = [b0, b1, b2, b3, b4, b5, b6, b7]"
    by (rule frame_bytes)
  show ?thesis
    using assms unfolding d
    by (simp add: codec_simps codec_back canproxy_pack_thermal_def canproxy_unpack_thermal_def
        split del: if_split cong: if_cong)
qed

lemma pack_canonical_assist:
  "canproxy_pack_assist s = Some d \<Longrightarrow> canonical_assist d"
  by (auto simp: codec_simps codec_out canproxy_pack_assist_def split: bind_splits)

lemma pack_unpack_assist:
  assumes "canonical_assist d"
  shows "canproxy_pack_assist (canproxy_unpack_assist d) = Some d"
proof -
  have "length d = CANPROXY_FRAME_DLC"
    using assms by (simp add: canonical_defs zero_from_def)
  then obtain b0 b1 b2 b3 b4 b5 b6 b7 where d: "d = [b0, b1, b2, b3, b4, b5, b6, b7]"
    by (rule frame_bytes)
  show ?thesis
    using assms unfolding d
    by (simp add: codec_simps codec_back canproxy_pack_assist_def canproxy_unpack_assist_def
        split del: if_split cong: if_cong)
qed

lemma canonical_lengths:
  "canonical_status d \<Longrightarrow> length d = CANPROXY_FRAME_DLC"
  "canonical_identity d \<Longrightarrow> length d = CANPROXY_FRAME_DLC"
  "canonical_motion d \<Longrightarrow> length d = CANPROXY_FRAME_DLC"
  "canonical_edrive d \<Longrightarrow> length d = CANPROXY_FRAME_DLC"
  "canonical_telltales d \<Longrightarrow> length d = CANPROXY_FRAME_DLC"
  "canonical_energy d \<Longrightarrow> length d = CANPROXY_FRAME_DLC"
  "canonical_trip d \<Longrightarrow> length d = CANPROXY_FRAME_DLC"
  "canonical_thermal d \<Longrightarrow> length d = CANPROXY_FRAME_DLC"
  "canonical_assist d \<Longrightarrow> length d = CANPROXY_FRAME_DLC"
  by (auto simp: canonical_defs zero_from_length)

interpretation status_codec: frame_codec canproxy_pack_status canproxy_unpack_status canonical_status
  by unfold_locales (fact pack_canonical_status pack_unpack_status canonical_lengths)+

interpretation identity_codec: frame_codec canproxy_pack_identity canproxy_unpack_identity canonical_identity
  by unfold_locales (fact pack_canonical_identity pack_unpack_identity canonical_lengths)+

interpretation motion_codec: frame_codec canproxy_pack_motion canproxy_unpack_motion canonical_motion
  by unfold_locales (fact pack_canonical_motion pack_unpack_motion canonical_lengths)+

interpretation edrive_codec: frame_codec canproxy_pack_edrive canproxy_unpack_edrive canonical_edrive
  by unfold_locales (fact pack_canonical_edrive pack_unpack_edrive canonical_lengths)+

interpretation telltales_codec: frame_codec canproxy_pack_telltales canproxy_unpack_telltales canonical_telltales
  by unfold_locales (fact pack_canonical_telltales pack_unpack_telltales canonical_lengths)+

interpretation energy_codec: frame_codec canproxy_pack_energy canproxy_unpack_energy canonical_energy
  by unfold_locales (fact pack_canonical_energy pack_unpack_energy canonical_lengths)+

interpretation trip_codec: frame_codec canproxy_pack_trip canproxy_unpack_trip canonical_trip
  by unfold_locales (fact pack_canonical_trip pack_unpack_trip canonical_lengths)+

interpretation thermal_codec: frame_codec canproxy_pack_thermal canproxy_unpack_thermal canonical_thermal
  by unfold_locales (fact pack_canonical_thermal pack_unpack_thermal canonical_lengths)+

interpretation assist_codec: frame_codec canproxy_pack_assist canproxy_unpack_assist canonical_assist
  by unfold_locales (fact pack_canonical_assist pack_unpack_assist canonical_lengths)+

lemmas pack_lengths = status_codec.pack_length identity_codec.pack_length motion_codec.pack_length
  edrive_codec.pack_length telltales_codec.pack_length energy_codec.pack_length
  trip_codec.pack_length thermal_codec.pack_length assist_codec.pack_length

end
