(* ===== verification/Plugin_Abi.thy ===== *)
theory Plugin_Abi
  imports Contract_Frames
begin

text \<open>
  The plugin interface, \<^verbatim>\<open>include/canproxy/plugin.h\<close>: signals, lamps, enumerated values, the vehicle
  state a plugin publishes, the vehicle identifier and the argument lookup. A C string is the list
  of its characters before the terminating NUL; a null pointer is \<open>None\<close>. Fields of the vehicle
  state carry the prefix \<open>s_\<close>, since the wire structures use the same names.
\<close>

section \<open>Signals and lamps\<close>

datatype canproxy_signal =
    CANPROXY_SIG_SPEED | CANPROXY_SIG_RPM | CANPROXY_SIG_GEAR | CANPROXY_SIG_POWER_STATE
  | CANPROXY_SIG_MOTOR_POWER | CANPROXY_SIG_PACK_VOLTAGE | CANPROXY_SIG_PACK_CURRENT
  | CANPROXY_SIG_SOC | CANPROXY_SIG_SOH | CANPROXY_SIG_RANGE | CANPROXY_SIG_CONSUMPTION
  | CANPROXY_SIG_CHARGING_STATE | CANPROXY_SIG_ODOMETER | CANPROXY_SIG_AMBIENT_TEMP
  | CANPROXY_SIG_CABIN_TEMP | CANPROXY_SIG_COOLANT_TEMP | CANPROXY_SIG_FUEL_LEVEL
  | CANPROXY_SIG_AUX_BATTERY | CANPROXY_SIG_ECO_SCORE | CANPROXY_SIG_SPEED_LIMIT
  | CANPROXY_SIG_COLLISION_RISK | CANPROXY_SIG_LANE_STATE | CANPROXY_SIG_LEAD_GAP
  | CANPROXY_SIG_COUNT

datatype canproxy_lamp =
    CANPROXY_LAMP_ENGINE | CANPROXY_LAMP_OIL | CANPROXY_LAMP_BATTERY | CANPROXY_LAMP_BRAKE
  | CANPROXY_LAMP_TURN_LEFT | CANPROXY_LAMP_TURN_RIGHT | CANPROXY_LAMP_HIGH_BEAM
  | CANPROXY_LAMP_DOOR | CANPROXY_LAMP_SEATBELT | CANPROXY_LAMP_ABS | CANPROXY_LAMP_TRACTION
  | CANPROXY_LAMP_TPMS | CANPROXY_LAMP_EV_READY | CANPROXY_LAMP_CHARGING
  | CANPROXY_LAMP_LIMITED_POWER | CANPROXY_LAMP_LOW_TRACTION_BATTERY | CANPROXY_LAMP_PARK_BRAKE
  | CANPROXY_LAMP_LOW_FUEL | CANPROXY_LAMP_FOG | CANPROXY_LAMP_HV_SYSTEM_FAULT
  | CANPROXY_LAMP_COUNT

text \<open>The enumerators in the order of their values.\<close>

definition canproxy_signals :: "canproxy_signal list" where
  "canproxy_signals = [
    CANPROXY_SIG_SPEED, CANPROXY_SIG_RPM, CANPROXY_SIG_GEAR, CANPROXY_SIG_POWER_STATE,
    CANPROXY_SIG_MOTOR_POWER, CANPROXY_SIG_PACK_VOLTAGE, CANPROXY_SIG_PACK_CURRENT,
    CANPROXY_SIG_SOC, CANPROXY_SIG_SOH, CANPROXY_SIG_RANGE, CANPROXY_SIG_CONSUMPTION,
    CANPROXY_SIG_CHARGING_STATE, CANPROXY_SIG_ODOMETER, CANPROXY_SIG_AMBIENT_TEMP,
    CANPROXY_SIG_CABIN_TEMP, CANPROXY_SIG_COOLANT_TEMP, CANPROXY_SIG_FUEL_LEVEL,
    CANPROXY_SIG_AUX_BATTERY, CANPROXY_SIG_ECO_SCORE, CANPROXY_SIG_SPEED_LIMIT,
    CANPROXY_SIG_COLLISION_RISK, CANPROXY_SIG_LANE_STATE, CANPROXY_SIG_LEAD_GAP,
    CANPROXY_SIG_COUNT]"

definition canproxy_lamps :: "canproxy_lamp list" where
  "canproxy_lamps = [
    CANPROXY_LAMP_ENGINE, CANPROXY_LAMP_OIL, CANPROXY_LAMP_BATTERY, CANPROXY_LAMP_BRAKE,
    CANPROXY_LAMP_TURN_LEFT, CANPROXY_LAMP_TURN_RIGHT, CANPROXY_LAMP_HIGH_BEAM,
    CANPROXY_LAMP_DOOR, CANPROXY_LAMP_SEATBELT, CANPROXY_LAMP_ABS, CANPROXY_LAMP_TRACTION,
    CANPROXY_LAMP_TPMS, CANPROXY_LAMP_EV_READY, CANPROXY_LAMP_CHARGING,
    CANPROXY_LAMP_LIMITED_POWER, CANPROXY_LAMP_LOW_TRACTION_BATTERY, CANPROXY_LAMP_PARK_BRAKE,
    CANPROXY_LAMP_LOW_FUEL, CANPROXY_LAMP_FOG, CANPROXY_LAMP_HV_SYSTEM_FAULT,
    CANPROXY_LAMP_COUNT]"

fun sig_index :: "canproxy_signal \<Rightarrow> nat" where
  "sig_index CANPROXY_SIG_SPEED = 0"
| "sig_index CANPROXY_SIG_RPM = 1"
| "sig_index CANPROXY_SIG_GEAR = 2"
| "sig_index CANPROXY_SIG_POWER_STATE = 3"
| "sig_index CANPROXY_SIG_MOTOR_POWER = 4"
| "sig_index CANPROXY_SIG_PACK_VOLTAGE = 5"
| "sig_index CANPROXY_SIG_PACK_CURRENT = 6"
| "sig_index CANPROXY_SIG_SOC = 7"
| "sig_index CANPROXY_SIG_SOH = 8"
| "sig_index CANPROXY_SIG_RANGE = 9"
| "sig_index CANPROXY_SIG_CONSUMPTION = 10"
| "sig_index CANPROXY_SIG_CHARGING_STATE = 11"
| "sig_index CANPROXY_SIG_ODOMETER = 12"
| "sig_index CANPROXY_SIG_AMBIENT_TEMP = 13"
| "sig_index CANPROXY_SIG_CABIN_TEMP = 14"
| "sig_index CANPROXY_SIG_COOLANT_TEMP = 15"
| "sig_index CANPROXY_SIG_FUEL_LEVEL = 16"
| "sig_index CANPROXY_SIG_AUX_BATTERY = 17"
| "sig_index CANPROXY_SIG_ECO_SCORE = 18"
| "sig_index CANPROXY_SIG_SPEED_LIMIT = 19"
| "sig_index CANPROXY_SIG_COLLISION_RISK = 20"
| "sig_index CANPROXY_SIG_LANE_STATE = 21"
| "sig_index CANPROXY_SIG_LEAD_GAP = 22"
| "sig_index CANPROXY_SIG_COUNT = 23"

fun lamp_index :: "canproxy_lamp \<Rightarrow> nat" where
  "lamp_index CANPROXY_LAMP_ENGINE = 0"
| "lamp_index CANPROXY_LAMP_OIL = 1"
| "lamp_index CANPROXY_LAMP_BATTERY = 2"
| "lamp_index CANPROXY_LAMP_BRAKE = 3"
| "lamp_index CANPROXY_LAMP_TURN_LEFT = 4"
| "lamp_index CANPROXY_LAMP_TURN_RIGHT = 5"
| "lamp_index CANPROXY_LAMP_HIGH_BEAM = 6"
| "lamp_index CANPROXY_LAMP_DOOR = 7"
| "lamp_index CANPROXY_LAMP_SEATBELT = 8"
| "lamp_index CANPROXY_LAMP_ABS = 9"
| "lamp_index CANPROXY_LAMP_TRACTION = 10"
| "lamp_index CANPROXY_LAMP_TPMS = 11"
| "lamp_index CANPROXY_LAMP_EV_READY = 12"
| "lamp_index CANPROXY_LAMP_CHARGING = 13"
| "lamp_index CANPROXY_LAMP_LIMITED_POWER = 14"
| "lamp_index CANPROXY_LAMP_LOW_TRACTION_BATTERY = 15"
| "lamp_index CANPROXY_LAMP_PARK_BRAKE = 16"
| "lamp_index CANPROXY_LAMP_LOW_FUEL = 17"
| "lamp_index CANPROXY_LAMP_FOG = 18"
| "lamp_index CANPROXY_LAMP_HV_SYSTEM_FAULT = 19"
| "lamp_index CANPROXY_LAMP_COUNT = 20"

definition CANPROXY_SIG_BIT :: "canproxy_signal \<Rightarrow> u32" where
  "CANPROXY_SIG_BIT sig = push_bit (sig_index sig) 1"

definition CANPROXY_LAMP_BIT :: "canproxy_lamp \<Rightarrow> u32" where
  "CANPROXY_LAMP_BIT lamp = push_bit (lamp_index lamp) 1"

lemma sig_index_nth: "i < 24 \<Longrightarrow> sig_index (canproxy_signals ! i) = i"
  by (simp add: canproxy_signals_def numeral_eq_Suc less_Suc_eq) (elim disjE; simp)

lemma nth_sig_index: "canproxy_signals ! sig_index sig = sig" "sig_index sig < 24"
  by (cases sig; simp add: canproxy_signals_def)+

lemma lamp_index_nth: "i < 21 \<Longrightarrow> lamp_index (canproxy_lamps ! i) = i"
  by (simp add: canproxy_lamps_def numeral_eq_Suc less_Suc_eq) (elim disjE; simp)

lemma nth_lamp_index: "canproxy_lamps ! lamp_index lamp = lamp" "lamp_index lamp < 21"
  by (cases lamp; simp add: canproxy_lamps_def)+

lemma sig_index_inject [simp]: "sig_index a = sig_index b \<longleftrightarrow> a = b"
  by (metis nth_sig_index(1))

lemma lamp_index_inject [simp]: "lamp_index a = lamp_index b \<longleftrightarrow> a = b"
  by (metis nth_lamp_index(1))

text \<open>A mask test reads one bit.\<close>

lemma and_push_bit_1: "w AND push_bit n 1 \<noteq> 0 \<longleftrightarrow> bit (w :: u32) n" if "n < 32"
proof
  assume "w AND push_bit n 1 \<noteq> 0"
  then obtain m where "bit (w AND push_bit n 1) m"
    by (metis bit_0_eq bot_apply bot_bool_def bit_eqI)
  then show "bit w n" by (auto simp: bit_simps)
next
  assume "bit w n"
  then have "bit (w AND push_bit n 1) n" using that by (simp add: bit_simps)
  then show "w AND push_bit n 1 \<noteq> 0" by (metis bit_0_eq bot_apply bot_bool_def)
qed

lemma and_sig_bit: "w AND CANPROXY_SIG_BIT sig \<noteq> 0 \<longleftrightarrow> bit w (sig_index sig)"
  unfolding CANPROXY_SIG_BIT_def using nth_sig_index(2) [of sig] by (intro and_push_bit_1) simp

section \<open>Enumerated values\<close>

definition CP_GEAR_P :: int where [contract_consts]: "CP_GEAR_P = 0"
definition CP_GEAR_R :: int where [contract_consts]: "CP_GEAR_R = 1"
definition CP_GEAR_N :: int where [contract_consts]: "CP_GEAR_N = 2"
definition CP_GEAR_D :: int where [contract_consts]: "CP_GEAR_D = 3"
definition CP_GEAR_L :: int where [contract_consts]: "CP_GEAR_L = 4"

definition CP_POWER_OFF :: int where [contract_consts]: "CP_POWER_OFF = 0"
definition CP_POWER_ACC :: int where [contract_consts]: "CP_POWER_ACC = 1"
definition CP_POWER_ON :: int where [contract_consts]: "CP_POWER_ON = 2"
definition CP_POWER_READY :: int where [contract_consts]: "CP_POWER_READY = 3"

definition CP_CHARGING_NONE :: int where [contract_consts]: "CP_CHARGING_NONE = 0"
definition CP_CHARGING_AC :: int where [contract_consts]: "CP_CHARGING_AC = 1"
definition CP_CHARGING_DC :: int where [contract_consts]: "CP_CHARGING_DC = 2"
definition CP_CHARGING_COMPLETE :: int where [contract_consts]: "CP_CHARGING_COMPLETE = 3"

definition CP_DRIVETRAIN_UNKNOWN :: int where [contract_consts]: "CP_DRIVETRAIN_UNKNOWN = 0"
definition CP_DRIVETRAIN_ICE :: int where [contract_consts]: "CP_DRIVETRAIN_ICE = 1"
definition CP_DRIVETRAIN_BEV :: int where [contract_consts]: "CP_DRIVETRAIN_BEV = 2"
definition CP_DRIVETRAIN_HEV :: int where [contract_consts]: "CP_DRIVETRAIN_HEV = 3"
definition CP_DRIVETRAIN_PHEV :: int where [contract_consts]: "CP_DRIVETRAIN_PHEV = 4"
definition CP_DRIVETRAIN_FCEV :: int where [contract_consts]: "CP_DRIVETRAIN_FCEV = 5"

definition CP_SOURCE_SIMULATED :: int where [contract_consts]: "CP_SOURCE_SIMULATED = 0"
definition CP_SOURCE_EMULATOR :: int where [contract_consts]: "CP_SOURCE_EMULATOR = 1"
definition CP_SOURCE_LIVE :: int where [contract_consts]: "CP_SOURCE_LIVE = 2"
definition CP_SOURCE_REPLAY :: int where [contract_consts]: "CP_SOURCE_REPLAY = 3"

definition CP_RISK_NONE :: int where [contract_consts]: "CP_RISK_NONE = 0"
definition CP_RISK_LOW :: int where [contract_consts]: "CP_RISK_LOW = 1"
definition CP_RISK_MEDIUM :: int where [contract_consts]: "CP_RISK_MEDIUM = 2"
definition CP_RISK_HIGH :: int where [contract_consts]: "CP_RISK_HIGH = 3"

definition CP_LANE_LEFT_SEEN :: u32 where [contract_consts]: "CP_LANE_LEFT_SEEN = push_bit 0 1"
definition CP_LANE_RIGHT_SEEN :: u32 where [contract_consts]: "CP_LANE_RIGHT_SEEN = push_bit 1 1"
definition CP_LANE_LEFT_DEPARTURE :: u32 where [contract_consts]: "CP_LANE_LEFT_DEPARTURE = push_bit 2 1"
definition CP_LANE_RIGHT_DEPARTURE :: u32 where [contract_consts]: "CP_LANE_RIGHT_DEPARTURE = push_bit 3 1"

datatype canproxy_log_level =
    CANPROXY_LOG_ERROR | CANPROXY_LOG_WARN | CANPROXY_LOG_INFO | CANPROXY_LOG_DEBUG

section \<open>Vehicle state\<close>

record canproxy_vehicle_state =
  s_capable :: u32
  s_valid :: u32
  s_drivetrain :: int
  s_source :: int
  s_vehicle_id :: u32
  s_speed_kmh :: f64
  s_rpm :: f64
  s_gear :: int
  s_power_state :: int
  s_motor_power_kw :: f64
  s_pack_voltage_v :: f64
  s_pack_current_a :: f64
  s_soc_pct :: f64
  s_soh_pct :: f64
  s_range_km :: f64
  s_consumption_wh_km :: f64
  s_charging_state :: int
  s_odometer_km :: f64
  s_ambient_c :: f64
  s_cabin_c :: f64
  s_coolant_c :: f64
  s_fuel_pct :: f64
  s_aux_battery_v :: f64
  s_lamps :: u32
  s_eco_score :: int
  s_speed_limit_kmh :: int
  s_collision_risk :: int
  s_lane_state :: u32
  s_lead_gap_m :: f64

text \<open>\<open>memset(&s, 0, sizeof s)\<close>, the state every holder starts from.\<close>

definition zero_vehicle_state :: canproxy_vehicle_state where
  "zero_vehicle_state = \<lparr>
     s_capable = 0, s_valid = 0, s_drivetrain = 0, s_source = 0, s_vehicle_id = 0,
     s_speed_kmh = FNum 0, s_rpm = FNum 0, s_gear = 0, s_power_state = 0,
     s_motor_power_kw = FNum 0, s_pack_voltage_v = FNum 0, s_pack_current_a = FNum 0,
     s_soc_pct = FNum 0, s_soh_pct = FNum 0, s_range_km = FNum 0, s_consumption_wh_km = FNum 0,
     s_charging_state = 0, s_odometer_km = FNum 0, s_ambient_c = FNum 0, s_cabin_c = FNum 0,
     s_coolant_c = FNum 0, s_fuel_pct = FNum 0, s_aux_battery_v = FNum 0, s_lamps = 0,
     s_eco_score = 0, s_speed_limit_kmh = 0, s_collision_risk = 0, s_lane_state = 0,
     s_lead_gap_m = FNum 0 \<rparr>"

section \<open>Plugin arguments\<close>

record canproxy_plugin_args =
  vehicle_if :: "string option"
  plugin_args :: "(string \<times> string) list"

text \<open>The character-by-character comparison of \<open>canproxy_arg\<close>, and the lookup.\<close>

fun c_str_eq :: "string \<Rightarrow> string \<Rightarrow> bool" where
  "c_str_eq (k # ks) (q # qs) = (if k = q then c_str_eq ks qs else False)"
| "c_str_eq ks qs \<longleftrightarrow> ks = [] \<and> qs = []"

fun arg_lookup :: "(string \<times> string) list \<Rightarrow> string \<Rightarrow> string option" where
  "arg_lookup [] key = None"
| "arg_lookup ((k, v) # as) key = (if c_str_eq k key then Some v else arg_lookup as key)"

definition canproxy_arg :: "canproxy_plugin_args \<Rightarrow> string \<Rightarrow> string option" where
  "canproxy_arg a key = arg_lookup (plugin_args a) key"

lemma c_str_eq_iff: "c_str_eq k q \<longleftrightarrow> k = q"
  by (induction k q rule: c_str_eq.induct) auto

lemma canproxy_arg_map_of: "canproxy_arg a key = map_of (plugin_args a) key"
proof -
  have "arg_lookup as key = map_of as key" for as
    by (induction as) (auto simp: c_str_eq_iff)
  then show ?thesis by (simp add: canproxy_arg_def)
qed

section \<open>Vehicle identifier\<close>

definition fnv_char :: "u32 \<Rightarrow> char \<Rightarrow> u32" where
  "fnv_char h c = (h XOR ucast (of_char c :: u8)) * 0x01000193"

definition canproxy_vehicle_id :: "string option \<Rightarrow> string option \<Rightarrow> u32" where
  "canproxy_vehicle_id plugin_name vin = (
     let h = 0x811C9DC5;
         h = (case plugin_name of None \<Rightarrow> h | Some p \<Rightarrow> fold (\<lambda>c h. fnv_char h c) p h)
     in case vin of
          None \<Rightarrow> h
        | Some v \<Rightarrow> if v = [] then h else fold (\<lambda>c h. fnv_char h c) v (fnv_char h (CHR ''/'')))"

lemma fnv_step_fold:
  "\<forall>c \<in> set s. (of_char c :: u8) \<noteq> 0 \<Longrightarrow> fnv_step h s = fold (\<lambda>c h. fnv_char h c) s h"
  by (induction s arbitrary: h) (simp_all add: fnv_char_def)

end
