(* ===== verification/State_Store.thy ===== *)
theory State_Store
  imports Plugin_Abi
begin

text \<open>
  The host's copy of what the plugin last said (\<open>StateStore\<close> of \<^verbatim>\<open>core/Publisher.h\<close>, \<^verbatim>\<open>core/Publisher.cpp\<close>)
  and the state derived from it. A mutex makes every operation atomic, so a run of several threads
  is some sequence of these operations. A time (\<open>Nanos\<close>) is an unbounded integer: a 64-bit count of
  nanoseconds of uptime does not wrap in practice.
\<close>

section \<open>Operations\<close>

record Snapshot =
  state :: canproxy_vehicle_state
  everPublished :: bool
  linkKnown :: bool
  linkPresent :: bool
  lastPublish :: int

definition StateStore_init :: Snapshot where
  "StateStore_init = \<lparr> state = zero_vehicle_state, everPublished = False, linkKnown = False,
     linkPresent = False, lastPublish = 0 \<rparr>"

definition store_publish :: "canproxy_vehicle_state \<Rightarrow> int \<Rightarrow> Snapshot \<Rightarrow> Snapshot" where
  "store_publish s now d = d\<lparr> state := s, everPublished := True, lastPublish := now \<rparr>"

definition store_setLink :: "bool \<Rightarrow> int \<Rightarrow> Snapshot \<Rightarrow> Snapshot" where
  "store_setLink present now d = d\<lparr> linkKnown := True, linkPresent := present \<rparr>"

definition store_snapshot :: "Snapshot \<Rightarrow> Snapshot" where
  "store_snapshot d = d"

section \<open>Derived state\<close>

record Derived =
  proxyState :: u8
  live :: bool

definition derive :: "Snapshot \<Rightarrow> int \<Rightarrow> int \<Rightarrow> Derived" where
  "derive snap now pluginTimeout =
     (if \<not> linkKnown snap then \<lparr> proxyState = CANPROXY_STATE_STARTING, live = False \<rparr>
      else if \<not> linkPresent snap then \<lparr> proxyState = CANPROXY_STATE_NO_VEHICLE, live = False \<rparr>
      else if \<not> everPublished snap \<or> now - lastPublish snap > pluginTimeout
        then \<lparr> proxyState = CANPROXY_STATE_DEGRADED, live = False \<rparr>
      else let capable = s_capable (state snap);
               allFresh = (s_valid (state snap) AND capable = capable)
           in \<lparr> proxyState = (if allFresh then CANPROXY_STATE_OK else CANPROXY_STATE_DEGRADED), live = True \<rparr>)"

section \<open>The contract of the store\<close>

text \<open>
  What the publisher and the plugins rely on: a snapshot returns the last published state and its
  time, whatever link changes came after it, and the last link state, whatever was published after
  it.
\<close>

locale vehicle_store =
  fixes init :: 'd and publish :: "'s \<Rightarrow> int \<Rightarrow> 'd \<Rightarrow> 'd" and set_link :: "bool \<Rightarrow> int \<Rightarrow> 'd \<Rightarrow> 'd"
    and said :: "'d \<Rightarrow> ('s \<times> int) option" and link :: "'d \<Rightarrow> bool option"
  assumes said_init: "said init = None" and link_init: "link init = None"
    and said_publish: "said (publish s t d) = Some (s, t)" and link_publish: "link (publish s t d) = link d"
    and said_set_link: "said (set_link b t d) = said d" and link_set_link: "link (set_link b t d) = Some b"
begin

text \<open>A history of calls: publications and link changes, oldest first.\<close>

fun replay :: "('s + bool) list \<Rightarrow> int list \<Rightarrow> 'd \<Rightarrow> 'd" where
  "replay (Inl s # es) (t # ts) d = replay es ts (publish s t d)"
| "replay (Inr b # es) (t # ts) d = replay es ts (set_link b t d)"
| "replay _ _ d = d"

lemma replay_links: "\<forall>e \<in> set es. \<not> isl e \<Longrightarrow> said (replay es ts d) = said d"
  by (induction es ts d rule: replay.induct) (auto simp: said_set_link)

lemma replay_publishes: "\<forall>e \<in> set es. isl e \<Longrightarrow> link (replay es ts d) = link d"
  by (induction es ts d rule: replay.induct) (auto simp: link_publish)

lemma last_publication_wins:
  "\<forall>e \<in> set es. \<not> isl e \<Longrightarrow> said (replay (Inl s # es) (t # ts) d) = Some (s, t)"
  by (simp add: replay_links said_publish)

lemma last_link_wins:
  "\<forall>e \<in> set es. isl e \<Longrightarrow> link (replay (Inr b # es) (t # ts) d) = Some b"
  by (simp add: replay_publishes link_set_link)

end

text \<open>The store of the code, through its snapshot.\<close>

definition snap_said :: "Snapshot \<Rightarrow> (canproxy_vehicle_state \<times> int) option" where
  "snap_said d = (if everPublished (store_snapshot d)
     then Some (state (store_snapshot d), lastPublish (store_snapshot d)) else None)"

definition snap_link :: "Snapshot \<Rightarrow> bool option" where
  "snap_link d = (if linkKnown (store_snapshot d) then Some (linkPresent (store_snapshot d)) else None)"

lemmas store_defs = StateStore_init_def store_publish_def store_setLink_def store_snapshot_def
  snap_said_def snap_link_def

interpretation store: vehicle_store StateStore_init store_publish store_setLink snap_said snap_link
  by unfold_locales (simp_all add: store_defs)

text \<open>The derived state in terms of the contract.\<close>

lemma derive_live:
  "live (derive d now timeout) \<longleftrightarrow>
    snap_link d = Some True \<and> (\<exists>s t. snap_said d = Some (s, t) \<and> now - t \<le> timeout)"
  by (auto simp: derive_def store_defs Let_def)

lemma derive_state:
  "proxyState (derive d now timeout) =
    (case snap_link d of
       None \<Rightarrow> CANPROXY_STATE_STARTING
     | Some False \<Rightarrow> CANPROXY_STATE_NO_VEHICLE
     | Some True \<Rightarrow>
         (case snap_said d of
            None \<Rightarrow> CANPROXY_STATE_DEGRADED
          | Some (s, t) \<Rightarrow>
              if now - t \<le> timeout \<and> s_valid s AND s_capable s = s_capable s
              then CANPROXY_STATE_OK else CANPROXY_STATE_DEGRADED))"
  by (auto simp: derive_def store_defs Let_def)

lemma derive_small: "uint (proxyState (derive d now timeout)) \<le> 3"
  by (simp add: derive_def Let_def contract_consts)

end
