(* ===== verification/Plugin_Host.thy ===== *)
theory Plugin_Host
  imports Cli_Config State_Store
begin

text \<open>
  The plugin's life in the host, \<^verbatim>\<open>core/PluginHost.cpp\<close>. The dynamic loader and the plugin are outside
  the program: what they answer is an argument of each operation, what the host calls on them is a
  trace. A null function pointer of a descriptor is \<open>False\<close>.
\<close>

section \<open>The host's state\<close>

definition CANPROXY_PLUGIN_ABI_VERSION :: u32 where [contract_consts]: "CANPROXY_PLUGIN_ABI_VERSION = 1"

record canproxy_plugin =
  abi_version :: u32
  p_name :: "string option"
  version_major :: u8
  version_minor :: u8
  p_create :: bool
  p_start :: bool
  p_stop :: bool
  p_destroy :: bool

text \<open>What opening a library leads to: no library (with the loader's message), no entry symbol, an
  entry that returns null, or a descriptor.\<close>

datatype library = NoLibrary string | NoSymbol | NullEntry | Descriptor canproxy_plugin

datatype call =
    Dlopen string bool
  | Entry
  | Create "string option" "(string \<times> string) list" bool
  | Start int
  | Stop
  | Destroy
  | Dlclose

record PluginHost =
  m_handle :: bool
  m_plugin :: "canproxy_plugin option"
  m_instance :: bool
  m_started :: bool
  m_calls :: "call list"

definition PluginHost_new :: PluginHost where
  "PluginHost_new = \<lparr> m_handle = False, m_plugin = None, m_instance = False, m_started = False, m_calls = [] \<rparr>"

abbreviation called :: "call \<Rightarrow> PluginHost \<Rightarrow> PluginHost" where
  "called c h \<equiv> h\<lparr> m_calls := m_calls h @ [c] \<rparr>"

section \<open>Operations\<close>

definition host_stop :: "PluginHost \<Rightarrow> PluginHost" where
  "host_stop h = (if m_instance h \<and> m_started h then (called Stop h)\<lparr> m_started := False \<rparr> else h)"

definition host_unload :: "PluginHost \<Rightarrow> PluginHost" where
  "host_unload h = (
     let h = host_stop h;
         h = (if m_instance h then (called Destroy h)\<lparr> m_instance := False \<rparr> else h);
         h = h\<lparr> m_plugin := None \<rparr>
     in if m_handle h then (called Dlclose h)\<lparr> m_handle := False \<rparr> else h)"

definition complete_descriptor :: "canproxy_plugin \<Rightarrow> bool" where
  "complete_descriptor p \<longleftrightarrow> p_name p \<noteq> None \<and> p_create p \<and> p_start p \<and> p_stop p \<and> p_destroy p"

definition host_load :: "string \<Rightarrow> library \<Rightarrow> PluginHost \<Rightarrow> string \<times> PluginHost" where
  "host_load path lib h = (
     let h = host_unload h
     in case lib of
          NoLibrary why \<Rightarrow> (''dlopen: '' @ why, called (Dlopen path False) h)
        | _ \<Rightarrow> (
            let h = (called (Dlopen path True) h)\<lparr> m_handle := True \<rparr>
            in case lib of
                 NoSymbol \<Rightarrow> (path @ '': no canproxy_plugin_entry symbol'', host_unload h)
               | NullEntry \<Rightarrow> (path @ '': entry returned NULL'', host_unload (called Entry h))
               | Descriptor p \<Rightarrow> (
                   let h = called Entry h
                   in if abi_version p \<noteq> CANPROXY_PLUGIN_ABI_VERSION then
                        (path @ '': ABI version '' @ dec (unat (abi_version p)) @ '', host expects '' @
                           dec (unat CANPROXY_PLUGIN_ABI_VERSION), host_unload h)
                      else if \<not> complete_descriptor p then (path @ '': incomplete plugin descriptor'', host_unload h)
                      else ([], h\<lparr> m_plugin := Some p \<rparr>))))"

definition host_create :: "string \<Rightarrow> (string \<times> string) list \<Rightarrow> bool \<Rightarrow> PluginHost \<Rightarrow> string \<times> PluginHost" where
  "host_create vif args ok h =
     (case m_plugin h of
        None \<Rightarrow> (''no plugin loaded'', h)
      | Some p \<Rightarrow>
          if m_instance h then (''plugin already created'', h)
          else (
            let h = (called (Create (if vif = [] then None else Some vif) args ok) h)\<lparr> m_instance := ok \<rparr>
            in if \<not> ok then (the (p_name p) @ '': create() failed (see plugin log)'', h) else ([], h)))"

text \<open>The decimal rendering of an \<open>int\<close>.\<close>

definition dec_int :: "int \<Rightarrow> string" where
  "dec_int i = (if i < 0 then ''-'' @ dec (nat (- i)) else dec (nat i))"

definition host_start :: "int \<Rightarrow> PluginHost \<Rightarrow> string \<times> PluginHost" where
  "host_start rc h =
     (if \<not> m_instance h then (''plugin not created'', h)
      else if m_started h then ([], h)
      else let h = called (Start rc) h
           in if rc \<noteq> 0 then
                (the (p_name (the (m_plugin h))) @ '': start() returned '' @ dec_int rc, h)
              else ([], h\<lparr> m_started := True \<rparr>))"

section \<open>Services for the plugin\<close>

text \<open>A plugin passes back the context it was given, or null; the clock is read inside the call.\<close>

definition hostPublish :: "bool \<Rightarrow> canproxy_vehicle_state option \<Rightarrow> int \<Rightarrow> Snapshot \<Rightarrow> Snapshot" where
  "hostPublish ctx s now store =
     (if \<not> ctx then store else case s of None \<Rightarrow> store | Some s \<Rightarrow> store_publish s now store)"

definition hostSetLink :: "bool \<Rightarrow> int \<Rightarrow> int \<Rightarrow> Snapshot \<Rightarrow> Snapshot" where
  "hostSetLink ctx present now store = (if \<not> ctx then store else store_setLink (present \<noteq> 0) now store)"

definition hostLog :: "LogLevel \<Rightarrow> PluginHost option \<Rightarrow> int \<Rightarrow> string option \<Rightarrow> string option" where
  "hostLog current self level msg = (
     let lv = (if level = 0 then LogError else if level = 1 then LogWarn else if level = 2 then LogInfo else LogDebug);
         tag = (case self of
                  Some h \<Rightarrow> (case m_plugin h of Some p \<Rightarrow> the (p_name p) | None \<Rightarrow> ''plugin'')
                | None \<Rightarrow> ''plugin'')
     in log_line current lv tag (case msg of Some m \<Rightarrow> m | None \<Rightarrow> []))"

section \<open>The life cycle a plugin may rely on\<close>

text \<open>
  The abstract specification: a plugin is opened, created, started, stopped, destroyed and closed in
  this order; \<open>None\<close> is a call that breaks it.
\<close>

datatype phase = Closed | Opened | Created | Running

fun life_step :: "phase \<Rightarrow> call \<Rightarrow> phase option" where
  "life_step Closed (Dlopen _ ok) = Some (if ok then Opened else Closed)"
| "life_step Opened Entry = Some Opened"
| "life_step Opened (Create _ _ ok) = Some (if ok then Created else Opened)"
| "life_step Created (Start rc) = Some (if rc = 0 then Running else Created)"
| "life_step Running Stop = Some Created"
| "life_step Created Destroy = Some Opened"
| "life_step Opened Dlclose = Some Closed"
| "life_step _ _ = None"

fun life_run :: "phase \<Rightarrow> call list \<Rightarrow> phase option" where
  "life_run ph [] = Some ph"
| "life_run ph (c # cs) = (case life_step ph c of None \<Rightarrow> None | Some ph' \<Rightarrow> life_run ph' cs)"

fun_cases life_step_SomeE: "life_step ph c = Some ph'"

definition host_phase :: "PluginHost \<Rightarrow> phase" where
  "host_phase h = (if \<not> m_handle h then Closed else if \<not> m_instance h then Opened
     else if \<not> m_started h then Created else Running)"

definition host_ok :: "PluginHost \<Rightarrow> bool" where
  "host_ok h \<longleftrightarrow> (m_started h \<longrightarrow> m_instance h) \<and> (m_instance h \<longrightarrow> m_plugin h \<noteq> None) \<and>
     (m_plugin h \<noteq> None \<longrightarrow> m_handle h \<and> abi_version (the (m_plugin h)) = CANPROXY_PLUGIN_ABI_VERSION \<and>
        complete_descriptor (the (m_plugin h))) \<and>
     life_run Closed (m_calls h) = Some (host_phase h)"

lemma life_run_append: "life_run ph (cs @ ds) = (case life_run ph cs of None \<Rightarrow> None | Some ph' \<Rightarrow> life_run ph' ds)"
  by (induction cs arbitrary: ph) (auto split: option.splits)

lemma host_ok_new: "host_ok PluginHost_new"
  by (simp add: host_ok_def PluginHost_new_def host_phase_def)

lemma host_ok_stop: "host_ok h \<Longrightarrow> host_ok (host_stop h) \<and> m_started (host_stop h) = False"
  by (auto simp: host_ok_def host_stop_def host_phase_def life_run_append)

lemma host_ok_unload: "host_ok h \<Longrightarrow> host_ok (host_unload h) \<and> host_phase (host_unload h) = Closed"
  using host_ok_stop [of h]
  by (auto simp: host_ok_def host_unload_def Let_def host_phase_def life_run_append split: if_splits)

lemma unload_opened: "host_ok h \<Longrightarrow> \<not> m_instance h \<Longrightarrow> host_ok (host_unload h)"
  by (simp add: host_ok_unload)

lemma host_ok_load:
  assumes "host_ok h"
  shows "host_ok (snd (host_load path lib h))"
proof -
  let ?u = "host_unload h"
  have u: "host_ok ?u" "host_phase ?u = Closed" using host_ok_unload [OF assms] by simp_all
  then have closed: "\<not> m_handle ?u" "\<not> m_instance ?u" "\<not> m_started ?u" "m_plugin ?u = None"
    by (auto simp: host_ok_def host_phase_def split: if_splits)
  have opened: "host_ok ((called (Dlopen path True) ?u)\<lparr> m_handle := True \<rparr>)"
    using u closed by (simp add: host_ok_def host_phase_def life_run_append)
  have entered: "host_ok (called Entry ((called (Dlopen path True) ?u)\<lparr> m_handle := True \<rparr>))"
    using u closed by (simp add: host_ok_def host_phase_def life_run_append)
  show ?thesis
  proof (cases lib)
    case (NoLibrary why)
    then show ?thesis using u closed by (simp add: host_load_def Let_def host_ok_def host_phase_def life_run_append)
  next
    case NoSymbol
    then show ?thesis using host_ok_unload [OF opened] by (simp add: host_load_def Let_def)
  next
    case NullEntry
    then show ?thesis using host_ok_unload [OF entered] by (simp add: host_load_def Let_def)
  next
    case (Descriptor p)
    then show ?thesis
      using host_ok_unload [OF entered] entered closed
      by (auto simp: host_load_def Let_def) (simp add: host_ok_def host_phase_def)
  qed
qed

lemma host_ok_create: "host_ok h \<Longrightarrow> host_ok (snd (host_create vif args ok h))"
  by (auto simp: host_create_def Let_def host_ok_def host_phase_def life_run_append split: option.splits)

lemma host_ok_start: "host_ok h \<Longrightarrow> host_ok (snd (host_start rc h))"
  by (auto simp: host_start_def Let_def host_ok_def host_phase_def life_run_append)

text \<open>What a user of the host may call, in any order.\<close>

datatype host_op = OpLoad string library | OpCreate string "(string \<times> string) list" bool | OpStart int | OpStop | OpUnload

fun host_do :: "host_op \<Rightarrow> PluginHost \<Rightarrow> PluginHost" where
  "host_do (OpLoad path lib) h = snd (host_load path lib h)"
| "host_do (OpCreate vif args ok) h = snd (host_create vif args ok h)"
| "host_do (OpStart rc) h = snd (host_start rc h)"
| "host_do OpStop h = host_stop h"
| "host_do OpUnload h = host_unload h"

lemma host_ok_do: "host_ok h \<Longrightarrow> host_ok (host_do op h)"
  by (cases op) (simp_all add: host_ok_load host_ok_create host_ok_start host_ok_stop host_ok_unload)

lemma host_ok_fold: "host_ok h \<Longrightarrow> host_ok (fold host_do ops h)"
  by (induction ops arbitrary: h) (simp_all add: host_ok_do)

section \<open>Properties\<close>

text \<open>
  C21: Whatever sequence of loads, creates, starts, stops and unloads is asked for, and whatever the
  loader and the plugin answer, the calls the plugin sees follow its life cycle: never a start before
  a create, a stop of what is not running, a destroy or a close of a running plugin, nor a call into
  a library with another ABI version or an incomplete descriptor. The destructor leaves it closed.
\<close>

theorem plugin_life_cycle:
  "life_run Closed (m_calls (fold host_do ops PluginHost_new)) = Some (host_phase (fold host_do ops PluginHost_new)) \<and>
   life_run Closed (m_calls (host_unload (fold host_do ops PluginHost_new))) = Some Closed \<and>
   (host_phase (fold host_do ops PluginHost_new) \<in> {Created, Running} \<longrightarrow>
     (\<exists>p. m_plugin (fold host_do ops PluginHost_new) = Some p \<and>
       abi_version p = CANPROXY_PLUGIN_ABI_VERSION \<and> complete_descriptor p))"
proof -
  have ok: "host_ok (fold host_do ops PluginHost_new)" by (rule host_ok_fold [OF host_ok_new])
  then show ?thesis
    using host_ok_unload [OF ok] by (auto simp: host_ok_def host_phase_def split: if_splits)
qed

theorem plugin_life_cycle_witness:
  "life_run Closed (m_calls (fold host_do
      [OpCreate [] [] True, OpLoad ''/p/sim.so'' (Descriptor (canproxy_plugin.make 1 (Some ''sim'') 1 0 True True True True)),
       OpCreate ''can0'' [] True, OpStart 0] PluginHost_new)) =
    Some Running"
  using plugin_life_cycle [of "[OpCreate [] [] True,
       OpLoad ''/p/sim.so'' (Descriptor (canproxy_plugin.make 1 (Some ''sim'') 1 0 True True True True)),
       OpCreate ''can0'' [] True, OpStart 0]", THEN conjunct1]
  by (simp add: host_load_def host_create_def host_start_def host_unload_def host_stop_def PluginHost_new_def Let_def
      host_phase_def canproxy_plugin.make_def complete_descriptor_def CANPROXY_PLUGIN_ABI_VERSION_def)

end
