(* ===== verification/Can_Socket.thy ===== *)
theory Can_Socket
  imports Proxy_Prelude
begin

text \<open>
  Frames on a Linux CAN socket: the contract side, \<^verbatim>\<open>core/CanSocket.cpp\<close>. \<open>CAN_SFF_MASK\<close> and
  \<open>CAN_MAX_DLEN\<close> are the documented constants of the kernel interface; whether a system call succeeds
  is an argument.
\<close>

definition CAN_SFF_MASK :: u32 where [contract_consts]: "CAN_SFF_MASK = 0x7FF"
definition CAN_MAX_DLEN :: nat where [contract_consts]: "CAN_MAX_DLEN = 8"

record can_frame =
  can_id :: u32
  can_dlc :: u8
  can_data :: bytes

text \<open>Opening a raw socket: the steps that can fail, in order; a failed step closes the socket again.\<close>

datatype open_step = SocketFails string | IndexFails string | BindFails string | Opens

record CanSocket =
  sock_open :: bool
  sock_closed :: nat

definition CanSocket_close :: "CanSocket \<Rightarrow> CanSocket" where
  "CanSocket_close s = (if sock_open s then s\<lparr> sock_open := False, sock_closed := sock_closed s + 1 \<rparr> else s)"

definition CanSocket_open :: "string \<Rightarrow> open_step \<Rightarrow> CanSocket \<Rightarrow> string \<times> CanSocket" where
  "CanSocket_open interface result s = (
     let s = CanSocket_close s
     in case result of
          SocketFails why \<Rightarrow> (''socket(PF_CAN): '' @ why, s)
        | IndexFails why \<Rightarrow> (''interface '' @ interface @ '': '' @ why, s\<lparr> sock_closed := sock_closed s + 1 \<rparr>)
        | BindFails why \<Rightarrow> (''bind '' @ interface @ '': '' @ why, s\<lparr> sock_closed := sock_closed s + 1 \<rparr>)
        | Opens \<Rightarrow> ([], s\<lparr> sock_open := True \<rparr>))"

text \<open>The frame written, if any; the result also depends on the write. The data has \<open>len\<close> bytes.\<close>

definition CanSocket_frame :: "CanSocket \<Rightarrow> u32 \<Rightarrow> bytes \<Rightarrow> can_frame option" where
  "CanSocket_frame s i data =
     (if \<not> sock_open s \<or> length data > CAN_MAX_DLEN then None
      else Some \<lparr> can_id = i AND CAN_SFF_MASK, can_dlc = of_nat (length data),
        can_data = data @ replicate (CAN_MAX_DLEN - length data) 0 \<rparr>)"

definition CanSocket_send :: "CanSocket \<Rightarrow> u32 \<Rightarrow> bytes \<Rightarrow> bool \<Rightarrow> bool" where
  "CanSocket_send s i data written = (case CanSocket_frame s i data of None \<Rightarrow> False | Some _ \<Rightarrow> written)"

lemma frame_of_contract:
  assumes "sock_open s" "length d = 8" "i AND CAN_SFF_MASK = i"
  shows "CanSocket_frame s i d = Some \<lparr> can_id = i, can_dlc = 8, can_data = d \<rparr>"
  using assms by (simp add: CanSocket_frame_def CAN_MAX_DLEN_def)

end
