(* ===== verification/Frame_Fidelity.thy ===== *)
theory Frame_Fidelity
  imports Contract_Frames
begin

text \<open>
  What a consumer of the contract decodes from a packed frame: the validity flags survive, and a
  valid value comes back clamped to the encodable range, at most half a bit (and a small
  floating-point allowance) away.
\<close>

section \<open>Quantisation\<close>

definition rclamp :: "rat \<Rightarrow> rat \<Rightarrow> rat \<Rightarrow> rat" where
  "rclamp lo hi v = max lo (min hi v)"

lemma rclamp_id [simp]: "lo \<le> v \<Longrightarrow> v \<le> hi \<Longrightarrow> rclamp lo hi v = v"
  by (simp add: rclamp_def)

lemma clamp_lipschitz:
  assumes "lo \<le> hi"
  shows "\<bar>rat_of_int (clamp lo hi r) - rclamp (of_int lo) (of_int hi) q\<bar> \<le> \<bar>of_int r - q\<bar>"
proof -
  have c: "rat_of_int (clamp lo hi r) = rclamp (of_int lo) (of_int hi) (of_int r)"
    by (simp add: clamp_def rclamp_def of_int_max of_int_min)
  have "\<bar>max a (min b x) - max a (min b y)\<bar> \<le> \<bar>x - y\<bar>" if "a \<le> b" for a b x y :: rat
    using that by (auto simp: max_def min_def abs_if)
  then show ?thesis
    unfolding c rclamp_def using assms by simp
qed

lemma far_above:
  assumes "2 ^ 34 < q" "\<bar>x - q\<bar> \<le> 1 / 2 + (\<bar>q\<bar> + 1) / 2 ^ 50"
  shows "2 ^ 32 \<le> (x :: rat)"
  using abs_le_D2 [OF assms(2)] assms(1) by (simp add: field_simps)

lemma far_below:
  assumes "q < - (2 ^ 34)" "\<bar>x - q\<bar> \<le> 1 / 2 + (\<bar>q\<bar> + 1) / 2 ^ 50"
  shows "x \<le> - (2 ^ 32 :: rat)"
  using abs_le_D1 [OF assms(2)] assms(1) by (simp add: field_simps)

context lsb_scale
begin

text \<open>The clamped multiple of the scale is within half a bit of the clamped value.\<close>

lemma clamped_quotient_near:
  assumes v: "\<bar>v\<bar> \<le> 2 ^ 50" and lim: "- (2 ^ 32) \<le> lo" "lo \<le> hi" "hi \<le> 2 ^ 32"
    and r: "canproxy_round (FNum v / lsb) = Some r"
  shows "\<bar>rat_of_int (clamp lo hi r) - rclamp (of_int lo) (of_int hi) (v / l)\<bar> \<le> 1 / 2 + 1 / 2 ^ 12"
proof -
  obtain r' where "canproxy_round (FNum v / lsb) = Some r'"
    and near': "\<bar>rat_of_int r' - v / l\<bar> \<le> 1 / 2 + (\<bar>v / l\<bar> + 1) / 2 ^ 50"
    using v by (rule round_quotient_near)
  then have near: "\<bar>rat_of_int r - v / l\<bar> \<le> 1 / 2 + (\<bar>v / l\<bar> + 1) / 2 ^ 50"
    using r by simp
  have "rat_of_int (- (2 ^ 32)) \<le> rat_of_int lo" "rat_of_int hi \<le> rat_of_int (2 ^ 32)"
    using lim by (simp_all only: of_int_le_iff)
  then have lims: "- (2 ^ 32) \<le> rat_of_int lo" "rat_of_int hi \<le> 2 ^ 32"
    by simp_all
  have "\<bar>rat_of_int (clamp lo hi r) - rclamp (of_int lo) (of_int hi) q\<bar> \<le> 1 / 2 + 1 / 2 ^ 12"
    if n: "\<bar>rat_of_int r - q\<bar> \<le> 1 / 2 + (\<bar>q\<bar> + 1) / 2 ^ 50" for q
  proof -
    consider (mid) "\<bar>q\<bar> \<le> 2 ^ 34" | (high) "2 ^ 34 < q" | (low) "q < - (2 ^ 34)"
      by (metis abs_le_iff not_le less_minus_iff)
    then show ?thesis
    proof cases
      case mid
      then have "(\<bar>q\<bar> + 1) / 2 ^ 50 \<le> 1 / 2 ^ 12" by simp
      then show ?thesis
        by (meson add_left_mono clamp_lipschitz [OF lim(2), of r q] n order_trans)
    next
      case high
      then have "2 ^ 32 \<le> rat_of_int r"
        using n by (rule far_above)
      then have "rat_of_int hi \<le> rat_of_int r" using lims by linarith
      then have "clamp lo hi r = hi" using lim by (simp add: clamp_def)
      moreover have "rclamp (of_int lo) (of_int hi) q = of_int hi"
        using high lims lim by (simp add: rclamp_def)
      ultimately show ?thesis by simp
    next
      case low
      then have "rat_of_int r \<le> - (2 ^ 32)"
        using n by (rule far_below)
      then have "rat_of_int r \<le> rat_of_int lo" using lims by linarith
      then have "clamp lo hi r = lo" using lim by (simp add: clamp_def)
      moreover have "rclamp (of_int lo) (of_int hi) q = of_int lo"
        using low lims lim by (simp add: rclamp_def)
      ultimately show ?thesis by simp
    qed
  qed
  then show ?thesis using near by blast
qed

lemma rclamp_scale: "rclamp a b (v / l) * l = rclamp (a * l) (b * l) v"
  using l_pos by (auto simp: rclamp_def max_def min_def field_simps)

text \<open>Decoding it gives a value within half a bit of the clamped physical value.\<close>

lemma decode_clamped:
  assumes v: "\<bar>v\<bar> \<le> 2 ^ 50" and lim: "- (2 ^ 32) \<le> lo" "lo \<le> 0" "0 \<le> hi" "hi \<le> 2 ^ 32"
    and r: "canproxy_round (FNum v / lsb) = Some r"
  obtains w where "of_long (clamp lo hi r) * lsb = FNum w"
    and "\<bar>w - rclamp (of_int lo * l) (of_int hi * l) v\<bar> \<le> l * (1 / 2 + 1 / 2 ^ 10)"
proof -
  let ?n = "clamp lo hi r"
  have "lo \<le> hi" using lim by simp
  note near = clamped_quotient_near [OF v lim(1) this lim(4) r]
  have n: "\<bar>?n\<bar> \<le> 2 ^ 33"
    using clamp_bounds [OF \<open>lo \<le> hi\<close>, of r] lim by (simp add: abs_le_iff)
  note w = of_long_times_lsb(1) [OF n]
  have "\<bar>rat_of_int ?n * l - rclamp (of_int lo * l) (of_int hi * l) v\<bar>
      = \<bar>rat_of_int ?n - rclamp (of_int lo) (of_int hi) (v / l)\<bar> * l"
    unfolding rclamp_scale [symmetric] using l_pos by (simp add: abs_mult flip: left_diff_distrib)
  also have "\<dots> \<le> (1 / 2 + 1 / 2 ^ 12) * l"
    using near l_pos by (intro mult_right_mono) simp_all
  finally have 1: "\<bar>rat_of_int ?n * l - rclamp (of_int lo * l) (of_int hi * l) v\<bar> \<le> (1 / 2 + 1 / 2 ^ 12) * l" .
  have "\<bar>rat_of_int ?n * l\<bar> / 2 ^ 53 + 1 / 2 ^ 200 \<le> 1 / 2 ^ 19"
    using of_long_times_lsb(2) [OF n] by simp
  also have "\<dots> \<le> l / 2 ^ 12"
    using l_lower by simp
  finally have 2: "\<bar>rd64 (of_int ?n * l) - of_int ?n * l\<bar> \<le> l / 2 ^ 12"
    using rd64_error [of "of_int ?n * l"] by (rule order_trans [rotated])
  have "\<bar>w - c\<bar> \<le> l * (1 / 2 + 1 / 2 ^ 10)"
    if "\<bar>w - m\<bar> \<le> l / 2 ^ 12" "\<bar>m - c\<bar> \<le> (1 / 2 + 1 / 2 ^ 12) * l" for w m c
    using that l_pos unfolding abs_le_iff by (simp add: field_simps)
  then show ?thesis
    using that w 1 2 by blast
qed

lemma dec_u16:
  assumes "\<bar>v\<bar> \<le> 2 ^ 50" "canproxy_enc_u16 (FNum v) lsb True = Some x"
  obtains w where "of_long (uint x) * lsb = FNum w"
    and "\<bar>w - rclamp 0 (65534 * l) v\<bar> \<le> l * (1 / 2 + 1 / 2 ^ 10)"
proof -
  obtain r where r: "canproxy_round (FNum v / lsb) = Some r" and x: "x = word_of_int (clamp 0 0xFFFE r)"
    using assms(2) by (auto simp: enc_u16_valid)
  have "uint x = clamp 0 65534 r"
    unfolding x using uint_word_of_int_clamp [where 'a = 16, of "0xFFFE" r] by simp
  moreover obtain w where "of_long (clamp 0 65534 r) * lsb = FNum w"
    and "\<bar>w - rclamp (of_int (0) * l) (of_int (65534) * l) v\<bar> \<le> l * (1 / 2 + 1 / 2 ^ 10)"
    by (rule decode_clamped [OF assms(1) _ _ _ _ r, of 0 65534]) (use assms in simp_all)
  ultimately show ?thesis
    by (intro that [of w]) simp_all
qed

lemma dec_i16:
  assumes "\<bar>v\<bar> \<le> 2 ^ 50" "canproxy_enc_i16 (FNum v) lsb True = Some x"
  obtains w where "of_long (sint x) * lsb = FNum w"
    and "\<bar>w - rclamp (- 32767 * l) (32767 * l) v\<bar> \<le> l * (1 / 2 + 1 / 2 ^ 10)"
proof -
  obtain r where r: "canproxy_round (FNum v / lsb) = Some r"
    and x: "x = word_of_int (clamp (- 32767) 32767 r)"
    using assms(2) by (auto simp: enc_i16_valid)
  have "sint x = clamp (- 32767) 32767 r"
    unfolding x using sint_word_of_int_clamp [where 'a = 16, of 32767 r] by simp
  moreover obtain w where "of_long (clamp (- 32767) 32767 r) * lsb = FNum w"
    and "\<bar>w - rclamp (of_int (- 32767) * l) (of_int (32767) * l) v\<bar> \<le> l * (1 / 2 + 1 / 2 ^ 10)"
    by (rule decode_clamped [OF assms(1) _ _ _ _ r, of "- 32767" 32767]) (use assms in simp_all)
  ultimately show ?thesis
    by (intro that [of w]) simp_all
qed

lemma dec_u32:
  assumes "\<bar>v\<bar> \<le> 2 ^ 50" "canproxy_enc_u32 (FNum v) lsb True = Some x"
  obtains w where "of_long (uint x) * lsb = FNum w"
    and "\<bar>w - rclamp 0 (4294967294 * l) v\<bar> \<le> l * (1 / 2 + 1 / 2 ^ 10)"
proof -
  obtain r where r: "canproxy_round (FNum v / lsb) = Some r"
    and x: "x = word_of_int (clamp 0 0xFFFFFFFE r)"
    using assms(2) by (auto simp: enc_u32_valid)
  have "uint x = clamp 0 4294967294 r"
    unfolding x using uint_word_of_int_clamp [where 'a = 32, of "0xFFFFFFFE" r] by simp
  moreover obtain w where "of_long (clamp 0 4294967294 r) * lsb = FNum w"
    and "\<bar>w - rclamp (of_int (0) * l) (of_int (4294967294) * l) v\<bar> \<le> l * (1 / 2 + 1 / 2 ^ 10)"
    by (rule decode_clamped [OF assms(1) _ _ _ _ r, of 0 4294967294]) (use assms in simp_all)
  ultimately show ?thesis
    by (intro that [of w]) simp_all
qed

lemma dec_u8:
  assumes "\<bar>v\<bar> \<le> 2 ^ 50" "canproxy_enc_u8 (FNum v) lsb True mx = Some x"
  obtains w where "of_long (uint x) * lsb = FNum w"
    and "\<bar>w - rclamp 0 (of_int (uint mx) * l) v\<bar> \<le> l * (1 / 2 + 1 / 2 ^ 10)"
proof -
  obtain r where r: "canproxy_round (FNum v / lsb) = Some r"
    and x: "x = word_of_int (clamp 0 (uint mx) r)"
    using assms(2) by (auto simp: enc_u8_valid)
  have mx: "0 \<le> uint mx" "uint mx < 2 ^ 8" using uint_lt2p [of mx] by simp_all
  then have "uint x = clamp 0 (uint mx) r"
    unfolding x by (intro uint_word_of_int_clamp) simp_all
  moreover obtain w where "of_long (clamp 0 (uint mx) r) * lsb = FNum w"
    and "\<bar>w - rclamp (of_int (0) * l) (of_int (uint mx) * l) v\<bar> \<le> l * (1 / 2 + 1 / 2 ^ 10)"
    by (rule decode_clamped [OF assms(1) _ _ _ _ r, of 0 "uint mx"]) (use mx in simp_all)
  ultimately show ?thesis
    by (intro that [of w]) simp_all
qed

text \<open>An encoder is defined on every value below 2^50.\<close>

lemma enc_defined:
  assumes "\<bar>v\<bar> \<le> 2 ^ 50"
  shows "canproxy_enc_u16 (FNum v) lsb b \<noteq> None" "canproxy_enc_i16 (FNum v) lsb b \<noteq> None"
    "canproxy_enc_u32 (FNum v) lsb b \<noteq> None" "canproxy_enc_u8 (FNum v) lsb b mx \<noteq> None"
    "canproxy_enc_i8 (FNum v) lsb b \<noteq> None"
proof -
  obtain r where "canproxy_round (FNum v / lsb) = Some r"
    using assms by (rule round_quotient_near)
  then show "canproxy_enc_u16 (FNum v) lsb b \<noteq> None" "canproxy_enc_i16 (FNum v) lsb b \<noteq> None"
    "canproxy_enc_u32 (FNum v) lsb b \<noteq> None" "canproxy_enc_u8 (FNum v) lsb b mx \<noteq> None"
    "canproxy_enc_i8 (FNum v) lsb b \<noteq> None"
    by (cases b; simp add: wire_simps enc_u16_valid enc_i16_valid enc_u32_valid enc_u8_valid enc_i8_valid)+
qed

end

section \<open>Nominal scales\<close>

text \<open>
  The contract names decimal scales; the code divides by the nearest double. \<open>quantised n lo hi x y\<close>:
  \<open>y\<close> is a number within 0.51 of a bit of \<open>x\<close> clamped to \<open>lo\<close> .. \<open>hi\<close>.
\<close>

fun quantised :: "rat \<Rightarrow> rat \<Rightarrow> rat \<Rightarrow> f64 \<Rightarrow> f64 \<Rightarrow> bool" where
  "quantised n lo hi (FNum v) (FNum w) \<longleftrightarrow> \<bar>w - rclamp lo hi v\<bar> \<le> n * (51 / 100)"
| "quantised n lo hi _ _ \<longleftrightarrow> False"

fun encodable :: "f64 \<Rightarrow> bool" where
  "encodable (FNum v) \<longleftrightarrow> \<bar>v\<bar> \<le> 2 ^ 50"
| "encodable _ \<longleftrightarrow> False"

lemma encodable_FNum: "encodable x \<longleftrightarrow> (\<exists>v. x = FNum v \<and> \<bar>v\<bar> \<le> 2 ^ 50)"
  by (cases x) simp_all

lemma rclamp_limits:
  "\<bar>a - a'\<bar> \<le> d \<Longrightarrow> \<bar>b - b'\<bar> \<le> d \<Longrightarrow> \<bar>rclamp a b v - rclamp a' b' v\<bar> \<le> d"
  by (auto simp: rclamp_def max_def min_def abs_le_iff)

locale nominal_scale = lsb_scale +
  fixes n :: rat
  assumes n_lower: "1 / 128 \<le> n" and n_near: "\<bar>l - n\<bar> \<le> n / 2 ^ 50"
begin

lemma n_pos: "0 < n"
  using n_lower by (rule less_le_trans [rotated]) simp

lemma limit_near:
  assumes "\<bar>a\<bar> \<le> 2 ^ 32"
  shows "\<bar>a * l - a * n\<bar> \<le> n / 2 ^ 18"
proof -
  have "\<bar>a * l - a * n\<bar> = \<bar>a\<bar> * \<bar>l - n\<bar>"
    by (simp add: right_diff_distrib flip: abs_mult)
  also have "\<dots> \<le> 2 ^ 32 * (n / 2 ^ 50)"
    using assms n_near by (intro mult_mono) simp_all
  finally show ?thesis by simp
qed

lemma quantisedI:
  assumes w: "y = FNum w" and near: "\<bar>w - rclamp (a * l) (b * l) v\<bar> \<le> l * (1 / 2 + 1 / 2 ^ 10)"
    and lim: "\<bar>a\<bar> \<le> 2 ^ 32" "\<bar>b\<bar> \<le> 2 ^ 32"
  shows "quantised n (a * n) (b * n) (FNum v) y"
proof -
  have "l \<le> n + n / 2 ^ 50"
    using n_near unfolding abs_le_iff by simp
  then have "l * (1 / 2 + 1 / 2 ^ 10) \<le> (n + n / 2 ^ 50) * (1 / 2 + 1 / 2 ^ 10)"
    by (intro mult_right_mono) simp_all
  then have 1: "\<bar>w - rclamp (a * l) (b * l) v\<bar> \<le> (n + n / 2 ^ 50) * (1 / 2 + 1 / 2 ^ 10)"
    by (rule order_trans [OF near])
  have 2: "\<bar>rclamp (a * l) (b * l) v - rclamp (a * n) (b * n) v\<bar> \<le> n / 2 ^ 18"
    using limit_near [OF lim(1)] limit_near [OF lim(2)] by (rule rclamp_limits)
  have "(n + n / 2 ^ 50) * (1 / 2 + 1 / 2 ^ 10) + n / 2 ^ 18 \<le> n * (51 / 100)"
    using n_pos by (simp add: field_simps)
  then have "\<bar>w - rclamp (a * n) (b * n) v\<bar> \<le> n * (51 / 100)"
    by (rule order_trans [OF near_trans [OF 1 2]])
  then show ?thesis using w by simp
qed

lemma quantised_u16:
  assumes "encodable x" "canproxy_enc_u16 x lsb True = Some r"
  shows "quantised n 0 (65534 * n) x (of_long (uint r) * lsb)"
proof -
  obtain v where v: "x = FNum v" "\<bar>v\<bar> \<le> 2 ^ 50" using assms(1) by (auto simp: encodable_FNum)
  with assms(2) obtain w where "of_long (uint r) * lsb = FNum w"
    and "\<bar>w - rclamp 0 (65534 * l) v\<bar> \<le> l * (1 / 2 + 1 / 2 ^ 10)"
    using dec_u16 by metis
  then show ?thesis using quantisedI [of _ w 0 65534 v] v by simp
qed

lemma quantised_i16:
  assumes "encodable x" "canproxy_enc_i16 x lsb True = Some r"
  shows "quantised n (- 32767 * n) (32767 * n) x (of_long (sint r) * lsb)"
proof -
  obtain v where v: "x = FNum v" "\<bar>v\<bar> \<le> 2 ^ 50" using assms(1) by (auto simp: encodable_FNum)
  with assms(2) obtain w where "of_long (sint r) * lsb = FNum w"
    and "\<bar>w - rclamp (- 32767 * l) (32767 * l) v\<bar> \<le> l * (1 / 2 + 1 / 2 ^ 10)"
    using dec_i16 by metis
  then show ?thesis using quantisedI [of _ w "- 32767" 32767 v] v by simp
qed

lemma quantised_u32:
  assumes "encodable x" "canproxy_enc_u32 x lsb True = Some r"
  shows "quantised n 0 (4294967294 * n) x (of_long (uint r) * lsb)"
proof -
  obtain v where v: "x = FNum v" "\<bar>v\<bar> \<le> 2 ^ 50" using assms(1) by (auto simp: encodable_FNum)
  with assms(2) obtain w where "of_long (uint r) * lsb = FNum w"
    and "\<bar>w - rclamp 0 (4294967294 * l) v\<bar> \<le> l * (1 / 2 + 1 / 2 ^ 10)"
    using dec_u32 by metis
  then show ?thesis using quantisedI [of _ w 0 4294967294 v] v by simp
qed

lemma quantised_u8:
  assumes "encodable x" "canproxy_enc_u8 x lsb True mx = Some r"
  shows "quantised n 0 (of_int (uint mx) * n) x (of_long (uint r) * lsb)"
proof -
  obtain v where v: "x = FNum v" "\<bar>v\<bar> \<le> 2 ^ 50" using assms(1) by (auto simp: encodable_FNum)
  with assms(2) obtain w where "of_long (uint r) * lsb = FNum w"
    and "\<bar>w - rclamp 0 (of_int (uint mx) * l) v\<bar> \<le> l * (1 / 2 + 1 / 2 ^ 10)"
    using dec_u8 by metis
  moreover have "\<bar>rat_of_int (uint mx)\<bar> \<le> 2 ^ 32"
  proof -
    have "rat_of_int \<bar>uint mx\<bar> \<le> rat_of_int (2 ^ 32)"
      using uint_lt2p [of mx] by (simp only: of_int_le_iff) simp
    then show ?thesis by (simp only: of_int_abs of_int_power of_int_numeral)
  qed
  ultimately show ?thesis using quantisedI [of _ w 0 "of_int (uint mx)" v] v by simp
qed

end

interpretation n001: nominal_scale lsb_001 "5764607523034235 / 576460752303423488" "1 / 100"
  by unfold_locales simp_all

interpretation n01: nominal_scale lsb_01 "3602879701896397 / 36028797018963968" "1 / 10"
  by unfold_locales simp_all

interpretation n05: nominal_scale lsb_05 "1 / 2" "1 / 2"
  by unfold_locales simp_all

section \<open>Flags of an encoded field\<close>

lemma enc_flag:
  "canproxy_enc_u16 v l b = Some r \<Longrightarrow> r = CANPROXY_SNA_U16 \<longleftrightarrow> \<not> b"
  "canproxy_enc_i16 v l b = Some r \<Longrightarrow> r = CANPROXY_SNA_I16 \<longleftrightarrow> \<not> b"
  "canproxy_enc_u32 v l b = Some x \<Longrightarrow> x = CANPROXY_SNA_U32 \<longleftrightarrow> \<not> b"
  "canproxy_enc_i8 v l b = Some y \<Longrightarrow> y = CANPROXY_SNA_I8 \<longleftrightarrow> \<not> b"
  "canproxy_enc_u8 v l b mx = Some y \<Longrightarrow> mx \<noteq> CANPROXY_SNA_U8 \<Longrightarrow> y = CANPROXY_SNA_U8 \<longleftrightarrow> \<not> b"
  by (cases b; auto simp: wire_simps dest: enc_u16_not_SNA enc_i16_not_SNA enc_u32_not_SNA
      enc_i8_not_SNA enc_u8_not_SNA)+

section \<open>What a consumer decodes\<close>

text \<open>Fields at distinct offsets do not disturb each other.\<close>

lemma get_u16_upd:
  "q \<noteq> p \<Longrightarrow> q \<noteq> p + 1 \<Longrightarrow> canproxy_get_u16le (d[q := b]) p = canproxy_get_u16le d p"
  "q + 1 < p \<or> p + 1 < q \<Longrightarrow> canproxy_get_u16le (canproxy_put_u16le d q v) p = canproxy_get_u16le d p"
  by (auto simp: canproxy_get_u16le_def canproxy_put_u16le_def)

lemma get_u32_upd:
  "q < p \<or> p + 3 < q \<Longrightarrow> canproxy_get_u32le (d[q := b]) p = canproxy_get_u32le d p"
  by (auto simp: canproxy_get_u32le_def)

lemma nth_put_u16: "q \<noteq> p \<Longrightarrow> q \<noteq> p + 1 \<Longrightarrow> canproxy_put_u16le d p v ! q = d ! q"
  by (simp add: canproxy_put_u16le_def)

lemma nth_put_u32: "q < p \<or> p + 3 < q \<Longrightarrow> canproxy_put_u32le d p v ! q = d ! q"
  by (auto simp: canproxy_put_u32le_def)

lemma length_clear [simp]: "length canproxy_clear = 8"
  by (simp add: canproxy_clear_def CANPROXY_FRAME_DLC_def)

lemmas read_back = get_u16_upd get_u32_upd nth_put_u16 nth_put_u32 get_put_u16le get_put_u32le Let_def

text \<open>The saturations of the unscaled fields, and when such a field reads as SNA.\<close>

lemma sat_u16: "(if r = 0xFFFF then 0xFFFE else r) = min r (0xFFFE :: u16)"
proof (cases "r = 0xFFFF")
  case False
  then have "uint r \<le> 0xFFFE" using uint_below_max(1) [of r] by (simp add: CANPROXY_SNA_U16_def)
  then show ?thesis using False by (simp add: min_def word_le_def)
qed simp

lemma sat_u8: "(if r = CANPROXY_SNA_U8 then 0xFE else r) = min r (0xFE :: u8)"
proof (cases "r = CANPROXY_SNA_U8")
  case False
  then have "uint r \<noteq> 0xFF" by (auto simp: word_uint_eq_iff CANPROXY_SNA_U8_def)
  then have "uint r \<le> 0xFE" using uint_lt2p [of r] by simp
  then show ?thesis using False by (simp add: min_def word_le_def)
qed (simp add: CANPROXY_SNA_U8_def)

lemma reads_sna:
  "(if b then x else y) = y \<longleftrightarrow> \<not> b \<or> x = y"
  "min r (0xFFFE :: u16) = CANPROXY_SNA_U16 \<longleftrightarrow> False"
  "min q (0xFE :: u8) = CANPROXY_SNA_U8 \<longleftrightarrow> False"
  "(if i = CANPROXY_SNA_I16 then - 32767 else i) = CANPROXY_SNA_I16 \<longleftrightarrow> False"
  "l AND CANPROXY_LANE_VALID_MASK = CANPROXY_SNA_U8 \<longleftrightarrow> False"
proof -
  have "l AND CANPROXY_LANE_VALID_MASK \<le> CANPROXY_LANE_VALID_MASK"
    by (rule word_and_le1)
  then show "l AND CANPROXY_LANE_VALID_MASK = CANPROXY_SNA_U8 \<longleftrightarrow> False"
    by (auto simp: contract_consts word_le_def)
qed (auto simp: min_def contract_consts)

lemma enc_flag_pct:
  "canproxy_enc_u8 v l b 200 = Some y \<Longrightarrow> y = CANPROXY_SNA_U8 \<longleftrightarrow> \<not> b"
  "canproxy_enc_u8 v l b 100 = Some y \<Longrightarrow> y = CANPROXY_SNA_U8 \<longleftrightarrow> \<not> b"
  by (rule enc_flag(5), assumption, simp add: CANPROXY_SNA_U8_def)+

lemmas unpacked = reads_sna sat_u16 sat_u8 read_back

lemma unpack_pack_motion:
  assumes "canproxy_pack_motion s = Some d"
  obtains x where "canproxy_enc_u16 (speed_kmh s) lsb_001 (speed_valid s) = Some x"
    and "canproxy_unpack_motion d =
      \<lparr> speed_kmh = (if speed_valid s then of_long (uint x) * lsb_001 else dlit 0),
        speed_valid = speed_valid s,
        rpm = (if rpm_valid s then min (rpm s) 0xFFFE else 0), rpm_valid = rpm_valid s,
        gear = (if gear_valid s \<and> gear s \<noteq> CANPROXY_SNA_U8 then gear s else 0),
        gear_valid = (gear_valid s \<and> gear s \<noteq> CANPROXY_SNA_U8),
        power_state = (if power_state_valid s \<and> power_state s \<noteq> CANPROXY_SNA_U8 then power_state s else 0),
        power_state_valid = (power_state_valid s \<and> power_state s \<noteq> CANPROXY_SNA_U8) \<rparr>"
proof -
  obtain x where x: "canproxy_enc_u16 (speed_kmh s) lsb_001 (speed_valid s) = Some x"
    using assms by (auto simp: canproxy_pack_motion_def split: bind_splits)
  note d = assms [unfolded canproxy_pack_motion_def x bind.bind_lunit Let_def, simplified, symmetric]
  show ?thesis
    by (rule that [OF x])
      (simp add: d enc_flag(1) [OF x] canproxy_unpack_motion_def unpacked split del: if_split cong: if_cong)
qed

lemma unpack_pack_edrive:
  assumes "canproxy_pack_edrive s = Some d"
  obtains p v c where "canproxy_enc_i16 (motor_power_kw s) lsb_01 (motor_power_valid s) = Some p"
    and "canproxy_enc_u16 (pack_voltage_v s) lsb_01 (pack_voltage_valid s) = Some v"
    and "canproxy_enc_i16 (pack_current_a s) lsb_01 (pack_current_valid s) = Some c"
    and "canproxy_unpack_edrive d =
      \<lparr> motor_power_kw = (if motor_power_valid s then of_long (sint p) * lsb_01 else dlit 0), motor_power_valid = motor_power_valid s,
        pack_voltage_v = (if pack_voltage_valid s then of_long (uint v) * lsb_01 else dlit 0), pack_voltage_valid = pack_voltage_valid s,
        pack_current_a = (if pack_current_valid s then of_long (sint c) * lsb_01 else dlit 0), pack_current_valid = pack_current_valid s \<rparr>"
proof -
  obtain p v c where p: "canproxy_enc_i16 (motor_power_kw s) lsb_01 (motor_power_valid s) = Some p"
    and v: "canproxy_enc_u16 (pack_voltage_v s) lsb_01 (pack_voltage_valid s) = Some v"
    and c: "canproxy_enc_i16 (pack_current_a s) lsb_01 (pack_current_valid s) = Some c"
    using assms by (auto simp: canproxy_pack_edrive_def split: bind_splits)
  note d = assms [unfolded canproxy_pack_edrive_def p v c bind.bind_lunit Let_def, simplified, symmetric]
  show ?thesis
    by (rule that [OF p v c])
      (simp add: d enc_flag(2) [OF p] enc_flag(1) [OF v] enc_flag(2) [OF c] canproxy_unpack_edrive_def
        unpacked split del: if_split cong: if_cong)
qed

lemma unpack_pack_energy:
  assumes "canproxy_pack_energy s = Some d"
  obtains c h where "canproxy_enc_u8 (soc_pct s) lsb_05 (soc_valid s) 200 = Some c"
    and "canproxy_enc_u8 (soh_pct s) lsb_05 (soh_valid s) 200 = Some h"
    and "canproxy_unpack_energy d =
      \<lparr> soc_pct = (if soc_valid s then of_long (uint c) * lsb_05 else dlit 0), soc_valid = soc_valid s,
        soh_pct = (if soh_valid s then of_long (uint h) * lsb_05 else dlit 0), soh_valid = soh_valid s,
        range_km = (if range_valid s then min (range_km s) 0xFFFE else 0), range_valid = range_valid s,
        consumption_wh_km = (if consumption_valid s
          then if consumption_wh_km s = CANPROXY_SNA_I16 then - 32767 else consumption_wh_km s else 0),
        consumption_valid = consumption_valid s,
        charging_state = (if charging_state_valid s \<and> charging_state s \<noteq> CANPROXY_SNA_U8 then charging_state s else 0),
        charging_state_valid = (charging_state_valid s \<and> charging_state s \<noteq> CANPROXY_SNA_U8) \<rparr>"
proof -
  obtain c h where c: "canproxy_enc_u8 (soc_pct s) lsb_05 (soc_valid s) 200 = Some c"
    and h: "canproxy_enc_u8 (soh_pct s) lsb_05 (soh_valid s) 200 = Some h"
    using assms by (auto simp: canproxy_pack_energy_def split: bind_splits)
  note d = assms [unfolded canproxy_pack_energy_def c h bind.bind_lunit Let_def, simplified, symmetric]
  show ?thesis
    by (rule that [OF c h])
      (simp add: d enc_flag_pct(1) [OF c] enc_flag_pct(1) [OF h] canproxy_unpack_energy_def
        unpacked split del: if_split cong: if_cong)
qed

lemma unpack_pack_trip:
  assumes "canproxy_pack_trip s = Some d"
  obtains k a c where "canproxy_enc_u32 (odometer_km s) lsb_01 (odometer_valid s) = Some k"
    and "canproxy_enc_i8 (of_long (sint (ambient_c s))) lsb_1 (ambient_valid s) = Some a"
    and "canproxy_enc_i8 (of_long (sint (cabin_c s))) lsb_1 (cabin_valid s) = Some c"
    and "canproxy_unpack_trip d =
      \<lparr> odometer_km = (if odometer_valid s then of_long (uint k) * lsb_01 else dlit 0), odometer_valid = odometer_valid s,
        ambient_c = (if ambient_valid s then a else 0), ambient_valid = ambient_valid s,
        cabin_c = (if cabin_valid s then c else 0), cabin_valid = cabin_valid s \<rparr>"
proof -
  obtain k a c where k: "canproxy_enc_u32 (odometer_km s) lsb_01 (odometer_valid s) = Some k"
    and a: "canproxy_enc_i8 (of_long (sint (ambient_c s))) lsb_1 (ambient_valid s) = Some a"
    and c: "canproxy_enc_i8 (of_long (sint (cabin_c s))) lsb_1 (cabin_valid s) = Some c"
    using assms by (auto simp: canproxy_pack_trip_def split: bind_splits)
  note d = assms [unfolded canproxy_pack_trip_def k a c bind.bind_lunit Let_def, simplified, symmetric]
  show ?thesis
    by (rule that [OF k a c])
      (simp add: d enc_flag(3) [OF k] enc_flag(4) [OF a] enc_flag(4) [OF c] canproxy_unpack_trip_def
        unpacked split del: if_split cong: if_cong)
qed

lemma unpack_pack_thermal:
  assumes "canproxy_pack_thermal s = Some d"
  obtains c f a where "canproxy_enc_i8 (of_long (sint (coolant_c s))) lsb_1 (coolant_valid s) = Some c"
    and "canproxy_enc_u8 (fuel_pct s) lsb_05 (fuel_valid s) 200 = Some f"
    and "canproxy_enc_u16 (aux_battery_v s) lsb_001 (aux_battery_valid s) = Some a"
    and "canproxy_unpack_thermal d =
      \<lparr> coolant_c = (if coolant_valid s then c else 0), coolant_valid = coolant_valid s,
        fuel_pct = (if fuel_valid s then of_long (uint f) * lsb_05 else dlit 0), fuel_valid = fuel_valid s,
        aux_battery_v = (if aux_battery_valid s then of_long (uint a) * lsb_001 else dlit 0), aux_battery_valid = aux_battery_valid s \<rparr>"
proof -
  obtain c f a where c: "canproxy_enc_i8 (of_long (sint (coolant_c s))) lsb_1 (coolant_valid s) = Some c"
    and f: "canproxy_enc_u8 (fuel_pct s) lsb_05 (fuel_valid s) 200 = Some f"
    and a: "canproxy_enc_u16 (aux_battery_v s) lsb_001 (aux_battery_valid s) = Some a"
    using assms by (auto simp: canproxy_pack_thermal_def split: bind_splits)
  note d = assms [unfolded canproxy_pack_thermal_def c f a bind.bind_lunit Let_def, simplified, symmetric]
  show ?thesis
    by (rule that [OF c f a])
      (simp add: d enc_flag(4) [OF c] enc_flag_pct(1) [OF f] enc_flag(1) [OF a] canproxy_unpack_thermal_def
        unpacked split del: if_split cong: if_cong)
qed

lemma unpack_pack_assist:
  assumes "canproxy_pack_assist s = Some d"
  obtains e g where "canproxy_enc_u8 (of_long (uint (eco_score s))) lsb_1 (eco_score_valid s) 100 = Some e"
    and "canproxy_enc_u16 (lead_gap_m s) lsb_01 (lead_gap_valid s) = Some g"
    and "canproxy_unpack_assist d =
      \<lparr> eco_score = (if eco_score_valid s then e else 0), eco_score_valid = eco_score_valid s,
        speed_limit_kmh = (if speed_limit_valid s then min (speed_limit_kmh s) 0xFE else 0),
        speed_limit_valid = speed_limit_valid s,
        collision_risk = (if collision_risk_valid s \<and> collision_risk s \<noteq> CANPROXY_SNA_U8 then collision_risk s else 0),
        collision_risk_valid = (collision_risk_valid s \<and> collision_risk s \<noteq> CANPROXY_SNA_U8),
        lane_state = (if lane_state_valid s then lane_state s AND CANPROXY_LANE_VALID_MASK else 0),
        lane_state_valid = lane_state_valid s,
        lead_gap_m = (if lead_gap_valid s then of_long (uint g) * lsb_01 else dlit 0), lead_gap_valid = lead_gap_valid s \<rparr>"
proof -
  obtain e g where e: "canproxy_enc_u8 (of_long (uint (eco_score s))) lsb_1 (eco_score_valid s) 100 = Some e"
    and g: "canproxy_enc_u16 (lead_gap_m s) lsb_01 (lead_gap_valid s) = Some g"
    using assms by (auto simp: canproxy_pack_assist_def split: bind_splits)
  note d = assms [unfolded canproxy_pack_assist_def e g bind.bind_lunit Let_def, simplified, symmetric]
  show ?thesis
    by (rule that [OF e g])
      (simp add: d enc_flag_pct(2) [OF e] enc_flag(1) [OF g] canproxy_unpack_assist_def
        unpacked split del: if_split cong: if_cong)
qed

lemma unpack_pack_status:
  "canproxy_pack_status s = Some d \<Longrightarrow>
    canproxy_unpack_status d = s\<lparr> capabilities := capabilities s AND NOT CANPROXY_CAP_RESERVED_MASK \<rparr>"
  by (auto simp: canproxy_pack_status_def canproxy_unpack_status_def read_back)

lemma unpack_pack_identity: "canproxy_pack_identity s = Some d \<Longrightarrow> canproxy_unpack_identity d = s"
  by (auto simp: canproxy_pack_identity_def canproxy_unpack_identity_def read_back)

lemma unpack_pack_telltales:
  "canproxy_pack_telltales s = Some d \<Longrightarrow>
    canproxy_unpack_telltales d = s\<lparr> bits := bits s AND NOT CANPROXY_TT_RESERVED_MASK \<rparr>"
  by (auto simp: canproxy_pack_telltales_def canproxy_unpack_telltales_def read_back)

section \<open>Packing is defined\<close>

context lsb_scale
begin

lemma enc_some:
  assumes "b \<Longrightarrow> encodable x"
  shows "\<exists>r. canproxy_enc_u16 x lsb b = Some r" "\<exists>r. canproxy_enc_i16 x lsb b = Some r"
    "\<exists>r. canproxy_enc_u32 x lsb b = Some r" "\<exists>r. canproxy_enc_u8 x lsb b mx = Some r"
    "\<exists>r. canproxy_enc_i8 x lsb b = Some r"
proof -
  have "(\<exists>r. canproxy_enc_u16 x lsb b = Some r) \<and> (\<exists>r. canproxy_enc_i16 x lsb b = Some r) \<and>
    (\<exists>r. canproxy_enc_u32 x lsb b = Some r) \<and> (\<exists>r. canproxy_enc_u8 x lsb b mx = Some r) \<and>
    (\<exists>r. canproxy_enc_i8 x lsb b = Some r)"
  proof (cases b)
    case True
    then obtain v where v: "x = FNum v" "\<bar>v\<bar> \<le> 2 ^ 50" using assms by (auto simp: encodable_FNum)
    show ?thesis using enc_defined [OF v(2), of b] unfolding v(1) by blast
  qed (simp add: wire_simps)
  then show "\<exists>r. canproxy_enc_u16 x lsb b = Some r" "\<exists>r. canproxy_enc_i16 x lsb b = Some r"
    "\<exists>r. canproxy_enc_u32 x lsb b = Some r" "\<exists>r. canproxy_enc_u8 x lsb b mx = Some r"
    "\<exists>r. canproxy_enc_i8 x lsb b = Some r"
    by simp_all
qed

end

lemma encodable_long: "\<bar>i\<bar> \<le> 2 ^ 16 \<Longrightarrow> encodable (of_long i)"
proof -
  assume i: "\<bar>i\<bar> \<le> 2 ^ 16"
  then have "rat_of_int \<bar>i\<bar> \<le> rat_of_int (2 ^ 16)" by (simp only: of_int_le_iff)
  then have "\<bar>rat_of_int i\<bar> \<le> 2 ^ 16" by simp
  also have "\<dots> \<le> 2 ^ 50" by simp
  finally show ?thesis using i by (simp add: of_long_FNum)
qed

lemma encodable_small_int:
  "encodable (of_long (sint (b :: u8)))" "encodable (of_long (uint (b :: u8)))"
proof -
  have "- 128 \<le> sint b" "sint b < 128" using sint_range_size [of b] by (simp_all add: word_size)
  then show "encodable (of_long (sint b))" by (intro encodable_long) simp
  show "encodable (of_long (uint b))" using uint_lt2p [of b] by (intro encodable_long) simp
qed

lemma pack_defined:
  "(speed_valid m \<Longrightarrow> encodable (speed_kmh m)) \<Longrightarrow> \<exists>d. canproxy_pack_motion m = Some d"
  "(motor_power_valid e \<Longrightarrow> encodable (motor_power_kw e)) \<Longrightarrow>
   (pack_voltage_valid e \<Longrightarrow> encodable (pack_voltage_v e)) \<Longrightarrow>
   (pack_current_valid e \<Longrightarrow> encodable (pack_current_a e)) \<Longrightarrow> \<exists>d. canproxy_pack_edrive e = Some d"
  "(soc_valid n \<Longrightarrow> encodable (soc_pct n)) \<Longrightarrow>
   (soh_valid n \<Longrightarrow> encodable (soh_pct n)) \<Longrightarrow> \<exists>d. canproxy_pack_energy n = Some d"
  "(odometer_valid t \<Longrightarrow> encodable (odometer_km t)) \<Longrightarrow> \<exists>d. canproxy_pack_trip t = Some d"
  "(fuel_valid h \<Longrightarrow> encodable (fuel_pct h)) \<Longrightarrow>
   (aux_battery_valid h \<Longrightarrow> encodable (aux_battery_v h)) \<Longrightarrow> \<exists>d. canproxy_pack_thermal h = Some d"
  "(lead_gap_valid a \<Longrightarrow> encodable (lead_gap_m a)) \<Longrightarrow> \<exists>d. canproxy_pack_assist a = Some d"
proof -
  show "\<exists>d. canproxy_pack_motion m = Some d" if "speed_valid m \<Longrightarrow> encodable (speed_kmh m)"
    using s001.enc_some(1) [of "speed_valid m" "speed_kmh m", OF that]
    by (auto simp: canproxy_pack_motion_def split del: if_split)
  show "\<exists>d. canproxy_pack_edrive e = Some d"
    if "motor_power_valid e \<Longrightarrow> encodable (motor_power_kw e)"
      "pack_voltage_valid e \<Longrightarrow> encodable (pack_voltage_v e)"
      "pack_current_valid e \<Longrightarrow> encodable (pack_current_a e)"
    using s01.enc_some(2) [of "motor_power_valid e" "motor_power_kw e", OF that(1)]
      s01.enc_some(1) [of "pack_voltage_valid e" "pack_voltage_v e", OF that(2)]
      s01.enc_some(2) [of "pack_current_valid e" "pack_current_a e", OF that(3)]
    by (auto simp: canproxy_pack_edrive_def split del: if_split)
  show "\<exists>d. canproxy_pack_energy n = Some d"
    if "soc_valid n \<Longrightarrow> encodable (soc_pct n)" "soh_valid n \<Longrightarrow> encodable (soh_pct n)"
    using s05.enc_some(4) [of "soc_valid n" "soc_pct n" 200, OF that(1)]
      s05.enc_some(4) [of "soh_valid n" "soh_pct n" 200, OF that(2)]
    by (auto simp: canproxy_pack_energy_def split del: if_split)
  show "\<exists>d. canproxy_pack_trip t = Some d" if "odometer_valid t \<Longrightarrow> encodable (odometer_km t)"
    using s01.enc_some(3) [of "odometer_valid t" "odometer_km t", OF that] s1.enc_some(5) [of "ambient_valid t", OF encodable_small_int(1) [of "ambient_c t"]]
      s1.enc_some(5) [of "cabin_valid t", OF encodable_small_int(1) [of "cabin_c t"]]
    by (auto simp: canproxy_pack_trip_def split del: if_split)
  show "\<exists>d. canproxy_pack_thermal h = Some d"
    if "fuel_valid h \<Longrightarrow> encodable (fuel_pct h)" "aux_battery_valid h \<Longrightarrow> encodable (aux_battery_v h)"
    using s05.enc_some(4) [of "fuel_valid h" "fuel_pct h" 200, OF that(1)]
      s001.enc_some(1) [of "aux_battery_valid h" "aux_battery_v h", OF that(2)]
      s1.enc_some(5) [of "coolant_valid h", OF encodable_small_int(1) [of "coolant_c h"]]
    by (auto simp: canproxy_pack_thermal_def split del: if_split)
  show "\<exists>d. canproxy_pack_assist a = Some d" if "lead_gap_valid a \<Longrightarrow> encodable (lead_gap_m a)"
    using s01.enc_some(1) [of "lead_gap_valid a" "lead_gap_m a", OF that]
      s1.enc_some(4) [of "eco_score_valid a" _ 100, OF encodable_small_int(2) [of "eco_score a"]]
    by (auto simp: canproxy_pack_assist_def split del: if_split)
qed

lemma pack_defined_total:
  "\<exists>d. canproxy_pack_status s = Some d" "\<exists>d. canproxy_pack_identity i = Some d"
  "\<exists>d. canproxy_pack_telltales t = Some d"
  by (simp_all add: canproxy_pack_status_def canproxy_pack_identity_def canproxy_pack_telltales_def Let_def)

end
