(* ===== verification/Frame_Mapping.thy ===== *)
theory Frame_Mapping
  imports Plugin_Abi Frame_Fidelity
begin

text \<open>
  \<^verbatim>\<open>core/Mapping.cpp\<close>: from the vehicle state a plugin publishes to the decoded wire structures.
  \<open>framesFrom\<close> is \<open>None\<close> where one of its conversions from double is undefined.
\<close>

section \<open>Capabilities and telltales\<close>

fun capabilityBitFor :: "canproxy_signal \<Rightarrow> u32" where
  "capabilityBitFor CANPROXY_SIG_SPEED = CANPROXY_CAP_SPEED"
| "capabilityBitFor CANPROXY_SIG_RPM = CANPROXY_CAP_RPM"
| "capabilityBitFor CANPROXY_SIG_GEAR = CANPROXY_CAP_GEAR"
| "capabilityBitFor CANPROXY_SIG_POWER_STATE = CANPROXY_CAP_POWER_STATE"
| "capabilityBitFor CANPROXY_SIG_MOTOR_POWER = CANPROXY_CAP_MOTOR_POWER"
| "capabilityBitFor CANPROXY_SIG_PACK_VOLTAGE = CANPROXY_CAP_PACK_VI"
| "capabilityBitFor CANPROXY_SIG_PACK_CURRENT = CANPROXY_CAP_PACK_VI"
| "capabilityBitFor CANPROXY_SIG_SOC = CANPROXY_CAP_SOC"
| "capabilityBitFor CANPROXY_SIG_SOH = CANPROXY_CAP_SOH"
| "capabilityBitFor CANPROXY_SIG_RANGE = CANPROXY_CAP_RANGE"
| "capabilityBitFor CANPROXY_SIG_CONSUMPTION = CANPROXY_CAP_CONSUMPTION"
| "capabilityBitFor CANPROXY_SIG_CHARGING_STATE = CANPROXY_CAP_CHARGING"
| "capabilityBitFor CANPROXY_SIG_ODOMETER = CANPROXY_CAP_ODOMETER"
| "capabilityBitFor CANPROXY_SIG_AMBIENT_TEMP = CANPROXY_CAP_AMBIENT_TEMP"
| "capabilityBitFor CANPROXY_SIG_CABIN_TEMP = CANPROXY_CAP_CABIN_TEMP"
| "capabilityBitFor CANPROXY_SIG_COOLANT_TEMP = CANPROXY_CAP_COOLANT_TEMP"
| "capabilityBitFor CANPROXY_SIG_FUEL_LEVEL = CANPROXY_CAP_FUEL_LEVEL"
| "capabilityBitFor CANPROXY_SIG_AUX_BATTERY = CANPROXY_CAP_AUX_BATTERY"
| "capabilityBitFor CANPROXY_SIG_ECO_SCORE = CANPROXY_CAP_ASSIST"
| "capabilityBitFor CANPROXY_SIG_SPEED_LIMIT = CANPROXY_CAP_ASSIST"
| "capabilityBitFor CANPROXY_SIG_COLLISION_RISK = CANPROXY_CAP_ASSIST"
| "capabilityBitFor CANPROXY_SIG_LANE_STATE = CANPROXY_CAP_ASSIST"
| "capabilityBitFor CANPROXY_SIG_LEAD_GAP = CANPROXY_CAP_ASSIST"
| "capabilityBitFor CANPROXY_SIG_COUNT = 0"

definition capabilitiesFrom :: "u32 \<Rightarrow> u32" where
  "capabilitiesFrom capableMask =
     fold (\<lambda>i caps. if capableMask AND push_bit i 1 \<noteq> 0
                   then caps OR capabilityBitFor (canproxy_signals ! i) else caps)
       [0..<sig_index CANPROXY_SIG_COUNT] 0"

fun telltaleBitFor :: "canproxy_lamp \<Rightarrow> u32" where
  "telltaleBitFor CANPROXY_LAMP_ENGINE = CANPROXY_TT_ENGINE"
| "telltaleBitFor CANPROXY_LAMP_OIL = CANPROXY_TT_OIL"
| "telltaleBitFor CANPROXY_LAMP_BATTERY = CANPROXY_TT_BATTERY"
| "telltaleBitFor CANPROXY_LAMP_BRAKE = CANPROXY_TT_BRAKE"
| "telltaleBitFor CANPROXY_LAMP_TURN_LEFT = CANPROXY_TT_LEFT"
| "telltaleBitFor CANPROXY_LAMP_TURN_RIGHT = CANPROXY_TT_RIGHT"
| "telltaleBitFor CANPROXY_LAMP_HIGH_BEAM = CANPROXY_TT_HIGHBEAM"
| "telltaleBitFor CANPROXY_LAMP_DOOR = CANPROXY_TT_DOOR"
| "telltaleBitFor CANPROXY_LAMP_SEATBELT = CANPROXY_TT_SEATBELT"
| "telltaleBitFor CANPROXY_LAMP_ABS = CANPROXY_TT_ABS"
| "telltaleBitFor CANPROXY_LAMP_TRACTION = CANPROXY_TT_TRACTION"
| "telltaleBitFor CANPROXY_LAMP_TPMS = CANPROXY_TT_TPMS"
| "telltaleBitFor CANPROXY_LAMP_EV_READY = CANPROXY_TT_EV_READY"
| "telltaleBitFor CANPROXY_LAMP_CHARGING = CANPROXY_TT_CHARGING"
| "telltaleBitFor CANPROXY_LAMP_LIMITED_POWER = CANPROXY_TT_LIMITED_POWER"
| "telltaleBitFor CANPROXY_LAMP_LOW_TRACTION_BATTERY = CANPROXY_TT_LOW_TRACTION_BATTERY"
| "telltaleBitFor CANPROXY_LAMP_PARK_BRAKE = CANPROXY_TT_PARK_BRAKE"
| "telltaleBitFor CANPROXY_LAMP_LOW_FUEL = CANPROXY_TT_LOW_FUEL"
| "telltaleBitFor CANPROXY_LAMP_FOG = CANPROXY_TT_FOG"
| "telltaleBitFor CANPROXY_LAMP_HV_SYSTEM_FAULT = CANPROXY_TT_HV_SYSTEM_FAULT"
| "telltaleBitFor CANPROXY_LAMP_COUNT = 0"

definition telltalesFrom :: "u32 \<Rightarrow> u32" where
  "telltalesFrom lampsMask =
     fold (\<lambda>i bits. if lampsMask AND push_bit i 1 \<noteq> 0
                   then bits OR telltaleBitFor (canproxy_lamps ! i) else bits)
       [0..<lamp_index CANPROXY_LAMP_COUNT] 0"

section \<open>Enumerated values\<close>

definition gearFrom :: "int \<Rightarrow> u8" where
  "gearFrom g =
     (if g = CP_GEAR_P then CANPROXY_GEAR_P
     else if g = CP_GEAR_R then CANPROXY_GEAR_R
     else if g = CP_GEAR_N then CANPROXY_GEAR_N
     else if g = CP_GEAR_D then CANPROXY_GEAR_D
     else if g = CP_GEAR_L then CANPROXY_GEAR_L
      else CANPROXY_SNA_U8)"

definition powerStateFrom :: "int \<Rightarrow> u8" where
  "powerStateFrom p =
     (if p = CP_POWER_OFF then CANPROXY_POWER_OFF
     else if p = CP_POWER_ACC then CANPROXY_POWER_ACC
     else if p = CP_POWER_ON then CANPROXY_POWER_ON
     else if p = CP_POWER_READY then CANPROXY_POWER_READY
      else CANPROXY_SNA_U8)"

definition chargingStateFrom :: "int \<Rightarrow> u8" where
  "chargingStateFrom c =
     (if c = CP_CHARGING_NONE then CANPROXY_CHARGE_NONE
     else if c = CP_CHARGING_AC then CANPROXY_CHARGE_AC
     else if c = CP_CHARGING_DC then CANPROXY_CHARGE_DC
     else if c = CP_CHARGING_COMPLETE then CANPROXY_CHARGE_COMPLETE
      else CANPROXY_SNA_U8)"

definition drivetrainFrom :: "int \<Rightarrow> u8" where
  "drivetrainFrom d =
     (if d = CP_DRIVETRAIN_ICE then CANPROXY_DRIVETRAIN_ICE
     else if d = CP_DRIVETRAIN_BEV then CANPROXY_DRIVETRAIN_BEV
     else if d = CP_DRIVETRAIN_HEV then CANPROXY_DRIVETRAIN_HEV
     else if d = CP_DRIVETRAIN_PHEV then CANPROXY_DRIVETRAIN_PHEV
     else if d = CP_DRIVETRAIN_FCEV then CANPROXY_DRIVETRAIN_FCEV
      else CANPROXY_DRIVETRAIN_UNKNOWN)"

definition sourceKindFrom :: "int \<Rightarrow> u8" where
  "sourceKindFrom s =
     (if s = CP_SOURCE_EMULATOR then CANPROXY_SOURCE_EMULATOR
     else if s = CP_SOURCE_LIVE then CANPROXY_SOURCE_LIVE
     else if s = CP_SOURCE_REPLAY then CANPROXY_SOURCE_REPLAY
      else CANPROXY_SOURCE_SIMULATED)"

definition collisionRiskFrom :: "int \<Rightarrow> u8" where
  "collisionRiskFrom r =
     (if r = CP_RISK_LOW then CANPROXY_RISK_LOW
     else if r = CP_RISK_MEDIUM then CANPROXY_RISK_MEDIUM
     else if r = CP_RISK_HIGH then CANPROXY_RISK_HIGH
      else CANPROXY_RISK_NONE)"

section \<open>Frames\<close>

record Frames =
  f_status :: canproxy_status
  f_identity :: canproxy_identity
  f_motion :: canproxy_motion
  f_edrive :: canproxy_edrive
  f_telltales :: canproxy_telltales
  f_energy :: canproxy_energy
  f_trip :: canproxy_trip
  f_thermal :: canproxy_thermal
  f_assist :: canproxy_assist

definition has_signal :: "canproxy_vehicle_state \<Rightarrow> bool \<Rightarrow> canproxy_signal \<Rightarrow> bool" where
  "has_signal s live sig \<longleftrightarrow>
     live \<and> s_valid s AND CANPROXY_SIG_BIT sig \<noteq> 0 \<and> s_capable s AND CANPROXY_SIG_BIT sig \<noteq> 0"

text \<open>The conversion of \<open>rpm\<close> and \<open>range_km\<close>, written out twice in the code.\<close>

definition to_u16_saturated :: "f64 \<Rightarrow> u16 option" where
  "to_u16_saturated x =
     (if x < dlit 0 then Some 0
      else if x > dlit 65534 then Some 65534
      else f64_to_unsigned (x + dlit (1/2)))"

definition consumption_to_i16 :: "f64 \<Rightarrow> u16 option" where
  "consumption_to_i16 x = do {
     let c = x;
     let c = (if c > dlit 32767 then dlit 32767 else c);
     let c = (if c < dlit (- 32767) then dlit (- 32767) else c);
     r \<leftarrow> canproxy_round c;
     Some (word_of_int r)
   }"

definition framesFrom ::
  "canproxy_vehicle_state \<Rightarrow> bool \<Rightarrow> u8 \<Rightarrow> u8 \<Rightarrow> u8 \<Rightarrow> u8 \<Rightarrow> Frames option" where
  "framesFrom s live proxyState cnt pluginMajor pluginMinor = do {
     let status = \<lparr>
       contract_major = CANPROXY_CONTRACT_MAJOR, contract_minor = CANPROXY_CONTRACT_MINOR,
       counter = cnt, proxy_state = proxyState, capabilities = capabilitiesFrom (s_capable s) \<rparr>;
     let identity = \<lparr>
       drivetrain = drivetrainFrom (s_drivetrain s), source_kind = sourceKindFrom (s_source s),
       plugin_major = pluginMajor, plugin_minor = pluginMinor, vehicle_id = s_vehicle_id s \<rparr>;
     r \<leftarrow> to_u16_saturated (s_rpm s);
     let motion = \<lparr>
       speed_kmh = s_speed_kmh s, speed_valid = has_signal s live CANPROXY_SIG_SPEED,
       rpm = r, rpm_valid = has_signal s live CANPROXY_SIG_RPM,
       gear = gearFrom (s_gear s),
       gear_valid = has_signal s live CANPROXY_SIG_GEAR \<and> gearFrom (s_gear s) \<noteq> CANPROXY_SNA_U8,
       power_state = powerStateFrom (s_power_state s),
       power_state_valid = has_signal s live CANPROXY_SIG_POWER_STATE \<and>
         powerStateFrom (s_power_state s) \<noteq> CANPROXY_SNA_U8 \<rparr>;
     let edrive = \<lparr>
       motor_power_kw = s_motor_power_kw s, motor_power_valid = has_signal s live CANPROXY_SIG_MOTOR_POWER,
       pack_voltage_v = s_pack_voltage_v s, pack_voltage_valid = has_signal s live CANPROXY_SIG_PACK_VOLTAGE,
       pack_current_a = s_pack_current_a s, pack_current_valid = has_signal s live CANPROXY_SIG_PACK_CURRENT \<rparr>;
     let telltales = \<lparr> bits = (if live then telltalesFrom (s_lamps s) else 0) \<rparr>;
     km \<leftarrow> to_u16_saturated (s_range_km s);
     wh \<leftarrow> consumption_to_i16 (s_consumption_wh_km s);
     let energy = \<lparr>
       soc_pct = s_soc_pct s, soc_valid = has_signal s live CANPROXY_SIG_SOC,
       soh_pct = s_soh_pct s, soh_valid = has_signal s live CANPROXY_SIG_SOH,
       range_km = km, range_valid = has_signal s live CANPROXY_SIG_RANGE,
       consumption_wh_km = wh, consumption_valid = has_signal s live CANPROXY_SIG_CONSUMPTION,
       charging_state = chargingStateFrom (s_charging_state s),
       charging_state_valid = has_signal s live CANPROXY_SIG_CHARGING_STATE \<and>
         chargingStateFrom (s_charging_state s) \<noteq> CANPROXY_SNA_U8 \<rparr>;
     amb \<leftarrow> canproxy_enc_i8 (s_ambient_c s) lsb_1 True;
     cab \<leftarrow> canproxy_enc_i8 (s_cabin_c s) lsb_1 True;
     let trip = \<lparr>
       odometer_km = s_odometer_km s, odometer_valid = has_signal s live CANPROXY_SIG_ODOMETER,
       ambient_c = amb, ambient_valid = has_signal s live CANPROXY_SIG_AMBIENT_TEMP,
       cabin_c = cab, cabin_valid = has_signal s live CANPROXY_SIG_CABIN_TEMP \<rparr>;
     cool \<leftarrow> canproxy_enc_i8 (s_coolant_c s) lsb_1 True;
     let thermal = \<lparr>
       coolant_c = cool, coolant_valid = has_signal s live CANPROXY_SIG_COOLANT_TEMP,
       fuel_pct = s_fuel_pct s, fuel_valid = has_signal s live CANPROXY_SIG_FUEL_LEVEL,
       aux_battery_v = s_aux_battery_v s, aux_battery_valid = has_signal s live CANPROXY_SIG_AUX_BATTERY \<rparr>;
     let assist = \<lparr>
       eco_score = word_of_int (if s_eco_score s < 0 then 0 else if s_eco_score s > 100 then 100 else s_eco_score s),
       eco_score_valid = has_signal s live CANPROXY_SIG_ECO_SCORE,
       speed_limit_kmh = word_of_int (if s_speed_limit_kmh s < 0 then 0
         else if s_speed_limit_kmh s > 254 then 254 else s_speed_limit_kmh s),
       speed_limit_valid = has_signal s live CANPROXY_SIG_SPEED_LIMIT,
       collision_risk = collisionRiskFrom (s_collision_risk s),
       collision_risk_valid = has_signal s live CANPROXY_SIG_COLLISION_RISK,
       lane_state = ucast (s_lane_state s AND ucast CANPROXY_LANE_VALID_MASK),
       lane_state_valid = has_signal s live CANPROXY_SIG_LANE_STATE,
       lead_gap_m = s_lead_gap_m s, lead_gap_valid = has_signal s live CANPROXY_SIG_LEAD_GAP \<rparr>;
     Some \<lparr> f_status = status, f_identity = identity, f_motion = motion, f_edrive = edrive,
       f_telltales = telltales, f_energy = energy, f_trip = trip, f_thermal = thermal, f_assist = assist \<rparr>
   }"

section \<open>Bit maps, bit by bit\<close>

lemma bit_fold_or:
  "bit (fold (\<lambda>i acc. if P i then acc OR f i else acc) xs (a :: u32)) n \<longleftrightarrow>
    bit a n \<or> (\<exists>i \<in> set xs. P i \<and> bit (f i) n)"
  by (induction xs arbitrary: a) (auto simp: bit_simps)

lemma and_exp_eq_0: "n < 32 \<Longrightarrow> w AND 2 ^ n = 0 \<longleftrightarrow> \<not> bit (w :: u32) n"
  using and_push_bit_1 [of n w] unfolding push_bit_of_1 by blast

text \<open>Each signal has one capability bit, each lamp the telltale bit of its own position.\<close>

lemma capability_one_bit:
  assumes "sig \<noteq> CANPROXY_SIG_COUNT"
  obtains k where "k < 18" "capabilityBitFor sig = push_bit k 1"
proof -
  have "\<exists>k<18. capabilityBitFor sig = push_bit k 1"
    using assms
    by (cases sig; simp only: capabilityBitFor.simps contract_consts)
      (rule exI, rule conjI [rotated], rule refl, simp)+
  then show ?thesis using that by blast
qed

lemma telltale_bit: "lamp \<noteq> CANPROXY_LAMP_COUNT \<Longrightarrow> telltaleBitFor lamp = push_bit (lamp_index lamp) 1"
  by (cases lamp) (simp_all add: contract_consts del: push_bit_of_1)

lemma sig_below_count: "sig_index sig < 23 \<longleftrightarrow> sig \<noteq> CANPROXY_SIG_COUNT"
  by (cases sig) simp_all

lemma lamp_below_count: "lamp_index lamp < 20 \<longleftrightarrow> lamp \<noteq> CANPROXY_LAMP_COUNT"
  by (cases lamp) simp_all

lemma ex_signal:
  "(\<exists>i < 23. Q i (canproxy_signals ! i)) \<longleftrightarrow> (\<exists>sig. sig \<noteq> CANPROXY_SIG_COUNT \<and> Q (sig_index sig) sig)"
proof
  assume "\<exists>i < 23. Q i (canproxy_signals ! i)"
  then obtain i where i: "i < 23" "Q i (canproxy_signals ! i)" by blast
  then have "sig_index (canproxy_signals ! i) = i" by (intro sig_index_nth) simp
  then show "\<exists>sig. sig \<noteq> CANPROXY_SIG_COUNT \<and> Q (sig_index sig) sig"
    using i sig_below_count by (intro exI [of _ "canproxy_signals ! i"]) metis
next
  assume "\<exists>sig. sig \<noteq> CANPROXY_SIG_COUNT \<and> Q (sig_index sig) sig"
  then show "\<exists>i < 23. Q i (canproxy_signals ! i)"
    using sig_below_count nth_sig_index(1) by metis
qed

lemma bit_capabilitiesFrom:
  "bit (capabilitiesFrom m) n \<longleftrightarrow>
    (\<exists>sig. sig \<noteq> CANPROXY_SIG_COUNT \<and> bit m (sig_index sig) \<and> bit (capabilityBitFor sig) n)"
proof -
  have "bit (capabilitiesFrom m) n \<longleftrightarrow>
    (\<exists>i < 23. bit m i \<and> bit (capabilityBitFor (canproxy_signals ! i)) n)"
    by (auto simp: capabilitiesFrom_def bit_fold_or and_exp_eq_0)
  also have "\<dots> \<longleftrightarrow> (\<exists>sig. sig \<noteq> CANPROXY_SIG_COUNT \<and> bit m (sig_index sig) \<and> bit (capabilityBitFor sig) n)"
    by (rule ex_signal)
  finally show ?thesis .
qed

lemma bit_telltalesFrom: "bit (telltalesFrom m) n \<longleftrightarrow> n < 20 \<and> bit m n"
proof -
  have "bit (telltaleBitFor (canproxy_lamps ! i)) n \<longleftrightarrow> n = i" if "i < 20" for i
  proof -
    have "lamp_index (canproxy_lamps ! i) = i" using that by (intro lamp_index_nth) simp
    moreover from this have "canproxy_lamps ! i \<noteq> CANPROXY_LAMP_COUNT"
      using that lamp_below_count by metis
    ultimately show ?thesis
      using that by (auto simp: telltale_bit bit_simps)
  qed
  then show ?thesis
    by (auto simp: telltalesFrom_def bit_fold_or and_exp_eq_0)
qed

lemma telltalesFrom_mask: "telltalesFrom m = m AND NOT CANPROXY_TT_RESERVED_MASK"
  by (rule bit_eqI) (auto simp: bit_telltalesFrom tt_reserved_bit bit_simps)

lemma bit_capability:
  "sig \<noteq> CANPROXY_SIG_COUNT \<Longrightarrow> bit (capabilityBitFor sig) n \<longleftrightarrow> n < 18 \<and> capabilityBitFor sig = push_bit n 1"
proof -
  assume "sig \<noteq> CANPROXY_SIG_COUNT"
  then obtain k where k: "k < 18" "capabilityBitFor sig = push_bit k 1" by (rule capability_one_bit)
  have "push_bit k (1 :: u32) = push_bit n 1 \<longleftrightarrow> k = n" if "n < 18"
  proof
    assume "push_bit k (1 :: u32) = push_bit n 1"
    then have "bit (push_bit k (1 :: u32)) n \<longleftrightarrow> bit (push_bit n (1 :: u32)) n" by simp
    then show "k = n" using that by (simp add: bit_simps)
  qed simp
  then show ?thesis using k by (auto simp: bit_simps)
qed

lemma capabilitiesFrom_below: "bit (capabilitiesFrom m) n \<Longrightarrow> n < 18"
  using bit_capability by (auto simp: bit_capabilitiesFrom)

lemma capabilitiesFrom_reserved: "capabilitiesFrom m AND CANPROXY_CAP_RESERVED_MASK = 0"
  by (rule bit_eqI) (auto simp: bit_simps cap_reserved_bit dest: capabilitiesFrom_below)

section \<open>Enumerated values on the wire\<close>

lemmas enum_defs = gearFrom_def powerStateFrom_def chargingStateFrom_def drivetrainFrom_def
  sourceKindFrom_def collisionRiskFrom_def

lemma gearFrom_value: "gearFrom g = (if 0 \<le> g \<and> g \<le> 4 then word_of_int g else CANPROXY_SNA_U8)"
  by (auto simp: gearFrom_def contract_consts)

lemma powerStateFrom_value: "powerStateFrom p = (if 0 \<le> p \<and> p \<le> 3 then word_of_int p else CANPROXY_SNA_U8)"
  by (auto simp: powerStateFrom_def contract_consts)

lemma chargingStateFrom_value:
  "chargingStateFrom c = (if 0 \<le> c \<and> c \<le> 3 then word_of_int c else CANPROXY_SNA_U8)"
  by (auto simp: chargingStateFrom_def contract_consts)

lemma drivetrainFrom_value: "drivetrainFrom d = (if 0 \<le> d \<and> d \<le> 5 then word_of_int d else 0)"
  by (cases "d = 0") (auto simp: drivetrainFrom_def contract_consts)

lemma sourceKindFrom_value: "sourceKindFrom k = (if 0 \<le> k \<and> k \<le> 3 then word_of_int k else 0)"
  by (cases "k = 0") (auto simp: sourceKindFrom_def contract_consts)

lemma collisionRiskFrom_value: "collisionRiskFrom r = (if 0 \<le> r \<and> r \<le> 3 then word_of_int r else 0)"
  by (cases "r = 0") (auto simp: collisionRiskFrom_def contract_consts)

lemma collisionRiskFrom_not_SNA: "collisionRiskFrom r \<noteq> CANPROXY_SNA_U8"
  by (simp add: collisionRiskFrom_def contract_consts)

section \<open>Conversions to integers\<close>

lemma rd64_half_bound:
  assumes "0 \<le> q" "q \<le> 65534"
  shows "0 \<le> rd64 (q + 1 / 2)" "rd64 (q + 1 / 2) < 65535"
proof -
  show "0 \<le> rd64 (q + 1 / 2)" using assms by (intro b64.rd_nonneg) simp
  have "\<bar>rd64 (q + 1 / 2) - (q + 1 / 2)\<bar> \<le> (q + 1) / 2 ^ 52"
    using assms by (intro rd64_half_near(1)) (auto intro: order_trans)
  then have "rd64 (q + 1 / 2) \<le> q + 1 / 2 + (q + 1) / 2 ^ 52"
    unfolding abs_le_iff by linarith
  moreover have "(q + 1) / 2 ^ 52 \<le> 1 / 4" using assms by simp
  ultimately show "rd64 (q + 1 / 2) < 65535" using assms by linarith
qed

lemma dlit_u16_max: "dlit 65534 = FNum 65534"
  using of_long_FNum [of 65534] by (simp add: of_long_def)

lemma to_u16_saturated_NaN: "to_u16_saturated FNaN = None"
  by (simp add: to_u16_saturated_def f64_ops dlit_half dlit_u16_max)

lemma bind_Some_map: "m \<bind> (\<lambda>r. Some (f r)) = map_option f m"
  by (cases m) simp_all

text \<open>Every value but NaN converts, and never to SNA.\<close>

lemma to_u16_saturated_some:
  assumes "x \<noteq> FNaN"
  obtains r where "to_u16_saturated x = Some r" "r \<le> 0xFFFE"
proof (cases x)
  case (FNum q)
  consider "q < 0" | "65534 < q" | "0 \<le> q" "q \<le> 65534" by linarith
  then show ?thesis
  proof cases
    case 3
    have "q + 1 / 2 \<le> 65535" using 3 by simp
    also have "\<dots> \<le> (2::rat) ^ 1000" by simp
    finally have sum: "to_f64 (q + 1 / 2) = FNum (rd64 (q + 1 / 2))"
      using 3 by (intro to_f64_FNum) simp
    let ?t = "rat_trunc (rd64 (q + 1 / 2))"
    have t: "0 \<le> ?t" "?t < 65535"
      using rd64_half_bound [OF 3] by (simp_all add: rat_trunc_nonneg floor_less_iff)
    then have "to_u16_saturated x = Some (word_of_int ?t)"
      using 3 by (simp add: FNum to_u16_saturated_def f64_ops dlit_half dlit_u16_max sum)
    moreover have "uint (word_of_int ?t :: u16) = ?t"
      using t by (simp add: uint_word_of_int take_bit_int_eq_self)
    then have "(word_of_int ?t :: u16) \<le> 0xFFFE"
      using t by (simp add: word_le_def)
    ultimately show ?thesis using that by blast
  qed (use that in \<open>auto simp: FNum to_u16_saturated_def f64_ops dlit_u16_max\<close>)
next
  case (FInf sg)
  then show ?thesis
    using that by (cases sg) (auto simp: to_u16_saturated_def f64_ops dlit_u16_max)
qed (use assms in simp)

lemma dlit_i16_lims: "dlit 32767 = FNum 32767" "dlit (- 32767) = FNum (- 32767)"
  using of_long_FNum [of 32767] of_long_FNum [of "- 32767"] by (simp_all add: of_long_def)

lemma consumption_NaN: "consumption_to_i16 FNaN = None"
  by (simp add: consumption_to_i16_def f64_ops dlit_i16_lims canproxy_round_def dlit_half)

lemma consumption_some:
  assumes "x \<noteq> FNaN"
  obtains r where "consumption_to_i16 x = Some r" "r \<noteq> CANPROXY_SNA_I16"
proof -
  have "\<exists>q. \<bar>q\<bar> \<le> 32767 \<and> consumption_to_i16 x = map_option word_of_int (canproxy_round (FNum q))"
  proof (cases x)
    case (FNum q)
    consider "q < - 32767" | "32767 < q" | "- 32767 \<le> q" "q \<le> 32767" by linarith
    then show ?thesis
    proof cases
      case 1
      then show ?thesis
        by (intro exI [of _ "- 32767"]) (simp add: FNum consumption_to_i16_def f64_ops dlit_i16_lims Let_def
            bind_Some_map)
    next
      case 2
      then show ?thesis
        by (intro exI [of _ "32767"]) (simp add: FNum consumption_to_i16_def f64_ops dlit_i16_lims Let_def
            bind_Some_map)
    next
      case 3
      then show ?thesis
        by (intro exI [of _ q]) (simp add: FNum consumption_to_i16_def f64_ops dlit_i16_lims Let_def
            bind_Some_map abs_le_iff)
    qed
  next
    case (FInf sg)
    then show ?thesis
      by (intro exI [of _ "if sg then - 32767 else 32767"])
        (simp add: consumption_to_i16_def f64_ops dlit_i16_lims Let_def bind_Some_map)
  qed (use assms in simp)
  then obtain q where q: "\<bar>q\<bar> \<le> 32767"
    and eq: "consumption_to_i16 x = map_option word_of_int (canproxy_round (FNum q))" by blast
  have "\<bar>q\<bar> \<le> 2 ^ 62" using q by (rule order_trans) simp
  then obtain r where r: "canproxy_round (FNum q) = Some r"
    and near: "\<bar>rat_of_int r - q\<bar> \<le> 1 / 2 + (\<bar>q\<bar> + 1) / 2 ^ 52"
    by (rule canproxy_round_near)
  have "(\<bar>q\<bar> + 1) / 2 ^ 52 \<le> 1 / 4" using q by simp
  then have "\<bar>rat_of_int r\<bar> < 32768"
    using abs_triangle_ineq2 [of "rat_of_int r" q] near q by linarith
  then have "rat_of_int \<bar>r\<bar> < rat_of_int 32768" by simp
  then have "\<bar>r\<bar> < 32768" by (simp only: of_int_less_iff)
  then have "sint (word_of_int r :: u16) = r"
    by (simp add: sint_sbintrunc' signed_take_bit_int_eq_self)
  moreover have "r \<noteq> - 32768" using \<open>\<bar>r\<bar> < 32768\<close> by auto
  ultimately have "(word_of_int r :: u16) \<noteq> CANPROXY_SNA_I16"
    by (auto simp: CANPROXY_SNA_I16_def)
  then show ?thesis using that eq r by simp
qed

section \<open>The frames of a state\<close>

lemma framesFrom_cases:
  assumes "framesFrom s live proxyState cnt pluginMajor pluginMinor = Some f"
  obtains r km wh amb cab cool where
    "to_u16_saturated (s_rpm s) = Some r" "to_u16_saturated (s_range_km s) = Some km"
    "consumption_to_i16 (s_consumption_wh_km s) = Some wh"
    "canproxy_enc_i8 (s_ambient_c s) lsb_1 True = Some amb"
    "canproxy_enc_i8 (s_cabin_c s) lsb_1 True = Some cab"
    "canproxy_enc_i8 (s_coolant_c s) lsb_1 True = Some cool"
    "f_status f = \<lparr>
       contract_major = CANPROXY_CONTRACT_MAJOR, contract_minor = CANPROXY_CONTRACT_MINOR,
       counter = cnt, proxy_state = proxyState, capabilities = capabilitiesFrom (s_capable s) \<rparr>"
    "f_identity f = \<lparr>
       drivetrain = drivetrainFrom (s_drivetrain s), source_kind = sourceKindFrom (s_source s),
       plugin_major = pluginMajor, plugin_minor = pluginMinor, vehicle_id = s_vehicle_id s \<rparr>"
    "f_motion f = \<lparr>
       speed_kmh = s_speed_kmh s, speed_valid = has_signal s live CANPROXY_SIG_SPEED,
       rpm = r, rpm_valid = has_signal s live CANPROXY_SIG_RPM,
       gear = gearFrom (s_gear s),
       gear_valid = has_signal s live CANPROXY_SIG_GEAR \<and> gearFrom (s_gear s) \<noteq> CANPROXY_SNA_U8,
       power_state = powerStateFrom (s_power_state s),
       power_state_valid = has_signal s live CANPROXY_SIG_POWER_STATE \<and>
         powerStateFrom (s_power_state s) \<noteq> CANPROXY_SNA_U8 \<rparr>"
    "f_edrive f = \<lparr>
       motor_power_kw = s_motor_power_kw s, motor_power_valid = has_signal s live CANPROXY_SIG_MOTOR_POWER,
       pack_voltage_v = s_pack_voltage_v s, pack_voltage_valid = has_signal s live CANPROXY_SIG_PACK_VOLTAGE,
       pack_current_a = s_pack_current_a s, pack_current_valid = has_signal s live CANPROXY_SIG_PACK_CURRENT \<rparr>"
    "f_telltales f = \<lparr>
       bits = (if live then telltalesFrom (s_lamps s) else 0) \<rparr>"
    "f_energy f = \<lparr>
       soc_pct = s_soc_pct s, soc_valid = has_signal s live CANPROXY_SIG_SOC,
       soh_pct = s_soh_pct s, soh_valid = has_signal s live CANPROXY_SIG_SOH,
       range_km = km, range_valid = has_signal s live CANPROXY_SIG_RANGE,
       consumption_wh_km = wh, consumption_valid = has_signal s live CANPROXY_SIG_CONSUMPTION,
       charging_state = chargingStateFrom (s_charging_state s),
       charging_state_valid = has_signal s live CANPROXY_SIG_CHARGING_STATE \<and>
         chargingStateFrom (s_charging_state s) \<noteq> CANPROXY_SNA_U8 \<rparr>"
    "f_trip f = \<lparr>
       odometer_km = s_odometer_km s, odometer_valid = has_signal s live CANPROXY_SIG_ODOMETER,
       ambient_c = amb, ambient_valid = has_signal s live CANPROXY_SIG_AMBIENT_TEMP,
       cabin_c = cab, cabin_valid = has_signal s live CANPROXY_SIG_CABIN_TEMP \<rparr>"
    "f_thermal f = \<lparr>
       coolant_c = cool, coolant_valid = has_signal s live CANPROXY_SIG_COOLANT_TEMP,
       fuel_pct = s_fuel_pct s, fuel_valid = has_signal s live CANPROXY_SIG_FUEL_LEVEL,
       aux_battery_v = s_aux_battery_v s, aux_battery_valid = has_signal s live CANPROXY_SIG_AUX_BATTERY \<rparr>"
    "f_assist f = \<lparr>
       eco_score = word_of_int (if s_eco_score s < 0 then 0 else if s_eco_score s > 100 then 100 else s_eco_score s),
       eco_score_valid = has_signal s live CANPROXY_SIG_ECO_SCORE,
       speed_limit_kmh = word_of_int (if s_speed_limit_kmh s < 0 then 0
         else if s_speed_limit_kmh s > 254 then 254 else s_speed_limit_kmh s),
       speed_limit_valid = has_signal s live CANPROXY_SIG_SPEED_LIMIT,
       collision_risk = collisionRiskFrom (s_collision_risk s),
       collision_risk_valid = has_signal s live CANPROXY_SIG_COLLISION_RISK,
       lane_state = ucast (s_lane_state s AND ucast CANPROXY_LANE_VALID_MASK),
       lane_state_valid = has_signal s live CANPROXY_SIG_LANE_STATE,
       lead_gap_m = s_lead_gap_m s, lead_gap_valid = has_signal s live CANPROXY_SIG_LEAD_GAP \<rparr>"
  using assms by (auto simp: framesFrom_def Let_def split: bind_splits split del: if_split)

text \<open>The conversions that happen whether or not a signal is valid.\<close>

definition state_convertible :: "canproxy_vehicle_state \<Rightarrow> bool" where
  "state_convertible s \<longleftrightarrow>
     s_rpm s \<noteq> FNaN \<and> s_range_km s \<noteq> FNaN \<and> s_consumption_wh_km s \<noteq> FNaN \<and>
     encodable (s_ambient_c s) \<and> encodable (s_cabin_c s) \<and> encodable (s_coolant_c s)"

lemma framesFrom_defined:
  assumes "state_convertible s"
  obtains f where "framesFrom s live proxyState cnt pluginMajor pluginMinor = Some f"
proof -
  note c = assms [unfolded state_convertible_def]
  obtain r km wh where "to_u16_saturated (s_rpm s) = Some r" "to_u16_saturated (s_range_km s) = Some km"
    "consumption_to_i16 (s_consumption_wh_km s) = Some wh"
    using c to_u16_saturated_some consumption_some by metis
  moreover obtain amb cab cool where "canproxy_enc_i8 (s_ambient_c s) lsb_1 True = Some amb"
    "canproxy_enc_i8 (s_cabin_c s) lsb_1 True = Some cab"
    "canproxy_enc_i8 (s_coolant_c s) lsb_1 True = Some cool"
    using c s1.enc_some(5) [where b = True] by metis
  ultimately show ?thesis using that by (simp add: framesFrom_def)
qed

section \<open>Through the wire\<close>

text \<open>What a consumer that received the nine frames has decoded.\<close>

definition through_wire :: "Frames \<Rightarrow> Frames option" where
  "through_wire f = do {
     status \<leftarrow> canproxy_pack_status (f_status f);
     identity \<leftarrow> canproxy_pack_identity (f_identity f);
     motion \<leftarrow> canproxy_pack_motion (f_motion f);
     edrive \<leftarrow> canproxy_pack_edrive (f_edrive f);
     telltales \<leftarrow> canproxy_pack_telltales (f_telltales f);
     energy \<leftarrow> canproxy_pack_energy (f_energy f);
     trip \<leftarrow> canproxy_pack_trip (f_trip f);
     thermal \<leftarrow> canproxy_pack_thermal (f_thermal f);
     assist \<leftarrow> canproxy_pack_assist (f_assist f);
     Some \<lparr> f_status = canproxy_unpack_status status, f_identity = canproxy_unpack_identity identity,
       f_motion = canproxy_unpack_motion motion, f_edrive = canproxy_unpack_edrive edrive,
       f_telltales = canproxy_unpack_telltales telltales, f_energy = canproxy_unpack_energy energy,
       f_trip = canproxy_unpack_trip trip, f_thermal = canproxy_unpack_thermal thermal,
       f_assist = canproxy_unpack_assist assist \<rparr>
   }"

lemma through_wire_cases:
  assumes "through_wire f = Some g"
  obtains dm de dn dt dh da where
    "canproxy_pack_motion (f_motion f) = Some dm" "f_motion g = canproxy_unpack_motion dm"
    "canproxy_pack_edrive (f_edrive f) = Some de" "f_edrive g = canproxy_unpack_edrive de"
    "canproxy_pack_energy (f_energy f) = Some dn" "f_energy g = canproxy_unpack_energy dn"
    "canproxy_pack_trip (f_trip f) = Some dt" "f_trip g = canproxy_unpack_trip dt"
    "canproxy_pack_thermal (f_thermal f) = Some dh" "f_thermal g = canproxy_unpack_thermal dh"
    "canproxy_pack_assist (f_assist f) = Some da" "f_assist g = canproxy_unpack_assist da"
  using assms by (auto simp: through_wire_def split: bind_splits)

lemma through_wire_simple:
  assumes "through_wire f = Some g"
  shows "f_status g = (f_status f)\<lparr> capabilities := capabilities (f_status f) AND NOT CANPROXY_CAP_RESERVED_MASK \<rparr>"
    "f_identity g = f_identity f"
    "f_telltales g = (f_telltales f)\<lparr> bits := bits (f_telltales f) AND NOT CANPROXY_TT_RESERVED_MASK \<rparr>"
  using assms
  by (auto simp: through_wire_def unpack_pack_status unpack_pack_identity unpack_pack_telltales
      split: bind_splits)

text \<open>The validity flag a consumer sees for each signal.\<close>

fun wire_valid :: "Frames \<Rightarrow> canproxy_signal \<Rightarrow> bool" where
  "wire_valid g CANPROXY_SIG_SPEED = speed_valid (f_motion g)"
| "wire_valid g CANPROXY_SIG_RPM = rpm_valid (f_motion g)"
| "wire_valid g CANPROXY_SIG_GEAR = gear_valid (f_motion g)"
| "wire_valid g CANPROXY_SIG_POWER_STATE = power_state_valid (f_motion g)"
| "wire_valid g CANPROXY_SIG_MOTOR_POWER = motor_power_valid (f_edrive g)"
| "wire_valid g CANPROXY_SIG_PACK_VOLTAGE = pack_voltage_valid (f_edrive g)"
| "wire_valid g CANPROXY_SIG_PACK_CURRENT = pack_current_valid (f_edrive g)"
| "wire_valid g CANPROXY_SIG_SOC = soc_valid (f_energy g)"
| "wire_valid g CANPROXY_SIG_SOH = soh_valid (f_energy g)"
| "wire_valid g CANPROXY_SIG_RANGE = range_valid (f_energy g)"
| "wire_valid g CANPROXY_SIG_CONSUMPTION = consumption_valid (f_energy g)"
| "wire_valid g CANPROXY_SIG_CHARGING_STATE = charging_state_valid (f_energy g)"
| "wire_valid g CANPROXY_SIG_ODOMETER = odometer_valid (f_trip g)"
| "wire_valid g CANPROXY_SIG_AMBIENT_TEMP = ambient_valid (f_trip g)"
| "wire_valid g CANPROXY_SIG_CABIN_TEMP = cabin_valid (f_trip g)"
| "wire_valid g CANPROXY_SIG_COOLANT_TEMP = coolant_valid (f_thermal g)"
| "wire_valid g CANPROXY_SIG_FUEL_LEVEL = fuel_valid (f_thermal g)"
| "wire_valid g CANPROXY_SIG_AUX_BATTERY = aux_battery_valid (f_thermal g)"
| "wire_valid g CANPROXY_SIG_ECO_SCORE = eco_score_valid (f_assist g)"
| "wire_valid g CANPROXY_SIG_SPEED_LIMIT = speed_limit_valid (f_assist g)"
| "wire_valid g CANPROXY_SIG_COLLISION_RISK = collision_risk_valid (f_assist g)"
| "wire_valid g CANPROXY_SIG_LANE_STATE = lane_state_valid (f_assist g)"
| "wire_valid g CANPROXY_SIG_LEAD_GAP = lead_gap_valid (f_assist g)"
| "wire_valid g CANPROXY_SIG_COUNT = False"

text \<open>The enumerated signals have values the wire cannot carry.\<close>

fun enum_in_range :: "canproxy_vehicle_state \<Rightarrow> canproxy_signal \<Rightarrow> bool" where
  "enum_in_range s CANPROXY_SIG_GEAR \<longleftrightarrow> 0 \<le> s_gear s \<and> s_gear s \<le> 4"
| "enum_in_range s CANPROXY_SIG_POWER_STATE \<longleftrightarrow> 0 \<le> s_power_state s \<and> s_power_state s \<le> 3"
| "enum_in_range s CANPROXY_SIG_CHARGING_STATE \<longleftrightarrow> 0 \<le> s_charging_state s \<and> s_charging_state s \<le> 3"
| "enum_in_range s _ \<longleftrightarrow> True"

lemma enum_from_SNA:
  "gearFrom g = CANPROXY_SNA_U8 \<longleftrightarrow> \<not> (0 \<le> g \<and> g \<le> 4)"
  "powerStateFrom p = CANPROXY_SNA_U8 \<longleftrightarrow> \<not> (0 \<le> p \<and> p \<le> 3)"
  "chargingStateFrom c = CANPROXY_SNA_U8 \<longleftrightarrow> \<not> (0 \<le> c \<and> c \<le> 3)"
  by (auto simp: enum_defs contract_consts)

text \<open>The flags \<open>framesFrom\<close> sets, and what packing makes of them.\<close>

lemma frames_flags:
  assumes "framesFrom s live proxyState cnt pluginMajor pluginMinor = Some f"
  shows "speed_valid (f_motion f) \<longleftrightarrow> has_signal s live CANPROXY_SIG_SPEED"
    "rpm_valid (f_motion f) \<longleftrightarrow> has_signal s live CANPROXY_SIG_RPM"
    "gear_valid (f_motion f) \<longleftrightarrow> has_signal s live CANPROXY_SIG_GEAR \<and> gearFrom (s_gear s) \<noteq> CANPROXY_SNA_U8"
    "power_state_valid (f_motion f) \<longleftrightarrow> has_signal s live CANPROXY_SIG_POWER_STATE \<and> powerStateFrom (s_power_state s) \<noteq> CANPROXY_SNA_U8"
    "motor_power_valid (f_edrive f) \<longleftrightarrow> has_signal s live CANPROXY_SIG_MOTOR_POWER"
    "pack_voltage_valid (f_edrive f) \<longleftrightarrow> has_signal s live CANPROXY_SIG_PACK_VOLTAGE"
    "pack_current_valid (f_edrive f) \<longleftrightarrow> has_signal s live CANPROXY_SIG_PACK_CURRENT"
    "soc_valid (f_energy f) \<longleftrightarrow> has_signal s live CANPROXY_SIG_SOC"
    "soh_valid (f_energy f) \<longleftrightarrow> has_signal s live CANPROXY_SIG_SOH"
    "range_valid (f_energy f) \<longleftrightarrow> has_signal s live CANPROXY_SIG_RANGE"
    "consumption_valid (f_energy f) \<longleftrightarrow> has_signal s live CANPROXY_SIG_CONSUMPTION"
    "charging_state_valid (f_energy f) \<longleftrightarrow> has_signal s live CANPROXY_SIG_CHARGING_STATE \<and> chargingStateFrom (s_charging_state s) \<noteq> CANPROXY_SNA_U8"
    "odometer_valid (f_trip f) \<longleftrightarrow> has_signal s live CANPROXY_SIG_ODOMETER"
    "ambient_valid (f_trip f) \<longleftrightarrow> has_signal s live CANPROXY_SIG_AMBIENT_TEMP"
    "cabin_valid (f_trip f) \<longleftrightarrow> has_signal s live CANPROXY_SIG_CABIN_TEMP"
    "coolant_valid (f_thermal f) \<longleftrightarrow> has_signal s live CANPROXY_SIG_COOLANT_TEMP"
    "fuel_valid (f_thermal f) \<longleftrightarrow> has_signal s live CANPROXY_SIG_FUEL_LEVEL"
    "aux_battery_valid (f_thermal f) \<longleftrightarrow> has_signal s live CANPROXY_SIG_AUX_BATTERY"
    "eco_score_valid (f_assist f) \<longleftrightarrow> has_signal s live CANPROXY_SIG_ECO_SCORE"
    "speed_limit_valid (f_assist f) \<longleftrightarrow> has_signal s live CANPROXY_SIG_SPEED_LIMIT"
    "collision_risk_valid (f_assist f) \<longleftrightarrow> has_signal s live CANPROXY_SIG_COLLISION_RISK"
    "lane_state_valid (f_assist f) \<longleftrightarrow> has_signal s live CANPROXY_SIG_LANE_STATE"
    "lead_gap_valid (f_assist f) \<longleftrightarrow> has_signal s live CANPROXY_SIG_LEAD_GAP"
    "gear (f_motion f) = gearFrom (s_gear s)"
    "power_state (f_motion f) = powerStateFrom (s_power_state s)"
    "charging_state (f_energy f) = chargingStateFrom (s_charging_state s)"
    "collision_risk (f_assist f) = collisionRiskFrom (s_collision_risk s)"
  using assms by (rule framesFrom_cases, simp)+

lemma wire_flags:
  assumes "through_wire f = Some g"
  shows "speed_valid (f_motion g) = speed_valid (f_motion f)"
    "rpm_valid (f_motion g) = rpm_valid (f_motion f)"
    "gear_valid (f_motion g) \<longleftrightarrow> gear_valid (f_motion f) \<and> gear (f_motion f) \<noteq> CANPROXY_SNA_U8"
    "power_state_valid (f_motion g) \<longleftrightarrow> power_state_valid (f_motion f) \<and> power_state (f_motion f) \<noteq> CANPROXY_SNA_U8"
    "motor_power_valid (f_edrive g) = motor_power_valid (f_edrive f)"
    "pack_voltage_valid (f_edrive g) = pack_voltage_valid (f_edrive f)"
    "pack_current_valid (f_edrive g) = pack_current_valid (f_edrive f)"
    "soc_valid (f_energy g) = soc_valid (f_energy f)"
    "soh_valid (f_energy g) = soh_valid (f_energy f)"
    "range_valid (f_energy g) = range_valid (f_energy f)"
    "consumption_valid (f_energy g) = consumption_valid (f_energy f)"
    "charging_state_valid (f_energy g) \<longleftrightarrow> charging_state_valid (f_energy f) \<and> charging_state (f_energy f) \<noteq> CANPROXY_SNA_U8"
    "odometer_valid (f_trip g) = odometer_valid (f_trip f)"
    "ambient_valid (f_trip g) = ambient_valid (f_trip f)"
    "cabin_valid (f_trip g) = cabin_valid (f_trip f)"
    "coolant_valid (f_thermal g) = coolant_valid (f_thermal f)"
    "fuel_valid (f_thermal g) = fuel_valid (f_thermal f)"
    "aux_battery_valid (f_thermal g) = aux_battery_valid (f_thermal f)"
    "eco_score_valid (f_assist g) = eco_score_valid (f_assist f)"
    "speed_limit_valid (f_assist g) = speed_limit_valid (f_assist f)"
    "collision_risk_valid (f_assist g) \<longleftrightarrow> collision_risk_valid (f_assist f) \<and> collision_risk (f_assist f) \<noteq> CANPROXY_SNA_U8"
    "lane_state_valid (f_assist g) = lane_state_valid (f_assist f)"
    "lead_gap_valid (f_assist g) = lead_gap_valid (f_assist f)"
proof -
  obtain d where d: "canproxy_pack_motion (f_motion f) = Some d" and g: "f_motion g = canproxy_unpack_motion d"
    using assms by (rule through_wire_cases)
  show "speed_valid (f_motion g) = speed_valid (f_motion f)"
    "rpm_valid (f_motion g) = rpm_valid (f_motion f)"
    "gear_valid (f_motion g) \<longleftrightarrow> gear_valid (f_motion f) \<and> gear (f_motion f) \<noteq> CANPROXY_SNA_U8"
    "power_state_valid (f_motion g) \<longleftrightarrow> power_state_valid (f_motion f) \<and> power_state (f_motion f) \<noteq> CANPROXY_SNA_U8"
    using d by (rule unpack_pack_motion, simp add: g)+
  obtain d where d: "canproxy_pack_edrive (f_edrive f) = Some d" and g: "f_edrive g = canproxy_unpack_edrive d"
    using assms by (rule through_wire_cases)
  show "motor_power_valid (f_edrive g) = motor_power_valid (f_edrive f)"
    "pack_voltage_valid (f_edrive g) = pack_voltage_valid (f_edrive f)"
    "pack_current_valid (f_edrive g) = pack_current_valid (f_edrive f)"
    using d by (rule unpack_pack_edrive, simp add: g)+
  obtain d where d: "canproxy_pack_energy (f_energy f) = Some d" and g: "f_energy g = canproxy_unpack_energy d"
    using assms by (rule through_wire_cases)
  show "soc_valid (f_energy g) = soc_valid (f_energy f)"
    "soh_valid (f_energy g) = soh_valid (f_energy f)"
    "range_valid (f_energy g) = range_valid (f_energy f)"
    "consumption_valid (f_energy g) = consumption_valid (f_energy f)"
    "charging_state_valid (f_energy g) \<longleftrightarrow> charging_state_valid (f_energy f) \<and> charging_state (f_energy f) \<noteq> CANPROXY_SNA_U8"
    using d by (rule unpack_pack_energy, simp add: g)+
  obtain d where d: "canproxy_pack_trip (f_trip f) = Some d" and g: "f_trip g = canproxy_unpack_trip d"
    using assms by (rule through_wire_cases)
  show "odometer_valid (f_trip g) = odometer_valid (f_trip f)"
    "ambient_valid (f_trip g) = ambient_valid (f_trip f)"
    "cabin_valid (f_trip g) = cabin_valid (f_trip f)"
    using d by (rule unpack_pack_trip, simp add: g)+
  obtain d where d: "canproxy_pack_thermal (f_thermal f) = Some d" and g: "f_thermal g = canproxy_unpack_thermal d"
    using assms by (rule through_wire_cases)
  show "coolant_valid (f_thermal g) = coolant_valid (f_thermal f)"
    "fuel_valid (f_thermal g) = fuel_valid (f_thermal f)"
    "aux_battery_valid (f_thermal g) = aux_battery_valid (f_thermal f)"
    using d by (rule unpack_pack_thermal, simp add: g)+
  obtain d where d: "canproxy_pack_assist (f_assist f) = Some d" and g: "f_assist g = canproxy_unpack_assist d"
    using assms by (rule through_wire_cases)
  show "eco_score_valid (f_assist g) = eco_score_valid (f_assist f)"
    "speed_limit_valid (f_assist g) = speed_limit_valid (f_assist f)"
    "collision_risk_valid (f_assist g) \<longleftrightarrow> collision_risk_valid (f_assist f) \<and> collision_risk (f_assist f) \<noteq> CANPROXY_SNA_U8"
    "lane_state_valid (f_assist g) = lane_state_valid (f_assist f)"
    "lead_gap_valid (f_assist g) = lead_gap_valid (f_assist f)"
    using d by (rule unpack_pack_assist, simp add: g)+
qed

text \<open>The scaled values, and the unscaled ones.\<close>

lemma quantised_pct:
  "encodable x \<Longrightarrow> canproxy_enc_u8 x lsb_05 True 200 = Some r \<Longrightarrow>
    quantised (1 / 2) 0 100 x (of_long (uint r) * lsb_05)"
  using n05.quantised_u8 [where mx = 200] by simp

lemma wire_scaled:
  assumes "through_wire f = Some g"
  shows "speed_valid (f_motion f) \<Longrightarrow> encodable (speed_kmh (f_motion f)) \<Longrightarrow>
      quantised (1 / 100) (0) (65534 / 100) (speed_kmh (f_motion f)) (speed_kmh (f_motion g))"
    "motor_power_valid (f_edrive f) \<Longrightarrow> encodable (motor_power_kw (f_edrive f)) \<Longrightarrow>
      quantised (1 / 10) (- 32767 / 10) (32767 / 10) (motor_power_kw (f_edrive f)) (motor_power_kw (f_edrive g))"
    "pack_voltage_valid (f_edrive f) \<Longrightarrow> encodable (pack_voltage_v (f_edrive f)) \<Longrightarrow>
      quantised (1 / 10) (0) (65534 / 10) (pack_voltage_v (f_edrive f)) (pack_voltage_v (f_edrive g))"
    "pack_current_valid (f_edrive f) \<Longrightarrow> encodable (pack_current_a (f_edrive f)) \<Longrightarrow>
      quantised (1 / 10) (- 32767 / 10) (32767 / 10) (pack_current_a (f_edrive f)) (pack_current_a (f_edrive g))"
    "soc_valid (f_energy f) \<Longrightarrow> encodable (soc_pct (f_energy f)) \<Longrightarrow>
      quantised (1 / 2) (0) (100) (soc_pct (f_energy f)) (soc_pct (f_energy g))"
    "soh_valid (f_energy f) \<Longrightarrow> encodable (soh_pct (f_energy f)) \<Longrightarrow>
      quantised (1 / 2) (0) (100) (soh_pct (f_energy f)) (soh_pct (f_energy g))"
    "odometer_valid (f_trip f) \<Longrightarrow> encodable (odometer_km (f_trip f)) \<Longrightarrow>
      quantised (1 / 10) (0) (4294967294 / 10) (odometer_km (f_trip f)) (odometer_km (f_trip g))"
    "fuel_valid (f_thermal f) \<Longrightarrow> encodable (fuel_pct (f_thermal f)) \<Longrightarrow>
      quantised (1 / 2) (0) (100) (fuel_pct (f_thermal f)) (fuel_pct (f_thermal g))"
    "aux_battery_valid (f_thermal f) \<Longrightarrow> encodable (aux_battery_v (f_thermal f)) \<Longrightarrow>
      quantised (1 / 100) (0) (65534 / 100) (aux_battery_v (f_thermal f)) (aux_battery_v (f_thermal g))"
    "lead_gap_valid (f_assist f) \<Longrightarrow> encodable (lead_gap_m (f_assist f)) \<Longrightarrow>
      quantised (1 / 10) (0) (65534 / 10) (lead_gap_m (f_assist f)) (lead_gap_m (f_assist g))"
proof -
  obtain d where d: "canproxy_pack_motion (f_motion f) = Some d" and g: "f_motion g = canproxy_unpack_motion d"
    using assms by (rule through_wire_cases)
  show "speed_valid (f_motion f) \<Longrightarrow> encodable (speed_kmh (f_motion f)) \<Longrightarrow>
      quantised (1 / 100) (0) (65534 / 100) (speed_kmh (f_motion f)) (speed_kmh (f_motion g))"
    using d by (rule unpack_pack_motion) (use n001.quantised_u16 [where ?x = "speed_kmh (f_motion f)"] in \<open>simp add: g\<close>)
  obtain d where d: "canproxy_pack_edrive (f_edrive f) = Some d" and g: "f_edrive g = canproxy_unpack_edrive d"
    using assms by (rule through_wire_cases)
  show "motor_power_valid (f_edrive f) \<Longrightarrow> encodable (motor_power_kw (f_edrive f)) \<Longrightarrow>
      quantised (1 / 10) (- 32767 / 10) (32767 / 10) (motor_power_kw (f_edrive f)) (motor_power_kw (f_edrive g))"
    using d by (rule unpack_pack_edrive) (use n01.quantised_i16 [where ?x = "motor_power_kw (f_edrive f)"] in \<open>simp add: g\<close>)
  show "pack_voltage_valid (f_edrive f) \<Longrightarrow> encodable (pack_voltage_v (f_edrive f)) \<Longrightarrow>
      quantised (1 / 10) (0) (65534 / 10) (pack_voltage_v (f_edrive f)) (pack_voltage_v (f_edrive g))"
    using d by (rule unpack_pack_edrive) (use n01.quantised_u16 [where ?x = "pack_voltage_v (f_edrive f)"] in \<open>simp add: g\<close>)
  show "pack_current_valid (f_edrive f) \<Longrightarrow> encodable (pack_current_a (f_edrive f)) \<Longrightarrow>
      quantised (1 / 10) (- 32767 / 10) (32767 / 10) (pack_current_a (f_edrive f)) (pack_current_a (f_edrive g))"
    using d by (rule unpack_pack_edrive) (use n01.quantised_i16 [where ?x = "pack_current_a (f_edrive f)"] in \<open>simp add: g\<close>)
  obtain d where d: "canproxy_pack_energy (f_energy f) = Some d" and g: "f_energy g = canproxy_unpack_energy d"
    using assms by (rule through_wire_cases)
  show "soc_valid (f_energy f) \<Longrightarrow> encodable (soc_pct (f_energy f)) \<Longrightarrow>
      quantised (1 / 2) (0) (100) (soc_pct (f_energy f)) (soc_pct (f_energy g))"
    using d by (rule unpack_pack_energy) (use quantised_pct [where ?x = "soc_pct (f_energy f)"] in \<open>simp add: g\<close>)
  show "soh_valid (f_energy f) \<Longrightarrow> encodable (soh_pct (f_energy f)) \<Longrightarrow>
      quantised (1 / 2) (0) (100) (soh_pct (f_energy f)) (soh_pct (f_energy g))"
    using d by (rule unpack_pack_energy) (use quantised_pct [where ?x = "soh_pct (f_energy f)"] in \<open>simp add: g\<close>)
  obtain d where d: "canproxy_pack_trip (f_trip f) = Some d" and g: "f_trip g = canproxy_unpack_trip d"
    using assms by (rule through_wire_cases)
  show "odometer_valid (f_trip f) \<Longrightarrow> encodable (odometer_km (f_trip f)) \<Longrightarrow>
      quantised (1 / 10) (0) (4294967294 / 10) (odometer_km (f_trip f)) (odometer_km (f_trip g))"
    using d by (rule unpack_pack_trip) (use n01.quantised_u32 [where ?x = "odometer_km (f_trip f)"] in \<open>simp add: g\<close>)
  obtain d where d: "canproxy_pack_thermal (f_thermal f) = Some d" and g: "f_thermal g = canproxy_unpack_thermal d"
    using assms by (rule through_wire_cases)
  show "fuel_valid (f_thermal f) \<Longrightarrow> encodable (fuel_pct (f_thermal f)) \<Longrightarrow>
      quantised (1 / 2) (0) (100) (fuel_pct (f_thermal f)) (fuel_pct (f_thermal g))"
    using d by (rule unpack_pack_thermal) (use quantised_pct [where ?x = "fuel_pct (f_thermal f)"] in \<open>simp add: g\<close>)
  show "aux_battery_valid (f_thermal f) \<Longrightarrow> encodable (aux_battery_v (f_thermal f)) \<Longrightarrow>
      quantised (1 / 100) (0) (65534 / 100) (aux_battery_v (f_thermal f)) (aux_battery_v (f_thermal g))"
    using d by (rule unpack_pack_thermal) (use n001.quantised_u16 [where ?x = "aux_battery_v (f_thermal f)"] in \<open>simp add: g\<close>)
  obtain d where d: "canproxy_pack_assist (f_assist f) = Some d" and g: "f_assist g = canproxy_unpack_assist d"
    using assms by (rule through_wire_cases)
  show "lead_gap_valid (f_assist f) \<Longrightarrow> encodable (lead_gap_m (f_assist f)) \<Longrightarrow>
      quantised (1 / 10) (0) (65534 / 10) (lead_gap_m (f_assist f)) (lead_gap_m (f_assist g))"
    using d by (rule unpack_pack_assist) (use n01.quantised_u16 [where ?x = "lead_gap_m (f_assist f)"] in \<open>simp add: g\<close>)
qed

lemma wire_unscaled:
  assumes "through_wire f = Some g"
  shows "rpm_valid (f_motion f) \<Longrightarrow> rpm (f_motion g) = min (rpm (f_motion f)) 0xFFFE"
    "gear_valid (f_motion f) \<Longrightarrow> gear (f_motion f) \<noteq> CANPROXY_SNA_U8 \<Longrightarrow> gear (f_motion g) = gear (f_motion f)"
    "power_state_valid (f_motion f) \<Longrightarrow> power_state (f_motion f) \<noteq> CANPROXY_SNA_U8 \<Longrightarrow>
      power_state (f_motion g) = power_state (f_motion f)"
    "range_valid (f_energy f) \<Longrightarrow> range_km (f_energy g) = min (range_km (f_energy f)) 0xFFFE"
    "consumption_valid (f_energy f) \<Longrightarrow> consumption_wh_km (f_energy f) \<noteq> CANPROXY_SNA_I16 \<Longrightarrow>
      consumption_wh_km (f_energy g) = consumption_wh_km (f_energy f)"
    "charging_state_valid (f_energy f) \<Longrightarrow> charging_state (f_energy f) \<noteq> CANPROXY_SNA_U8 \<Longrightarrow>
      charging_state (f_energy g) = charging_state (f_energy f)"
    "ambient_valid (f_trip f) \<Longrightarrow> ambient_c (f_trip f) \<noteq> CANPROXY_SNA_I8 \<Longrightarrow> ambient_c (f_trip g) = ambient_c (f_trip f)"
    "cabin_valid (f_trip f) \<Longrightarrow> cabin_c (f_trip f) \<noteq> CANPROXY_SNA_I8 \<Longrightarrow> cabin_c (f_trip g) = cabin_c (f_trip f)"
    "coolant_valid (f_thermal f) \<Longrightarrow> coolant_c (f_thermal f) \<noteq> CANPROXY_SNA_I8 \<Longrightarrow>
      coolant_c (f_thermal g) = coolant_c (f_thermal f)"
    "eco_score_valid (f_assist f) \<Longrightarrow> eco_score (f_assist f) \<le> 100 \<Longrightarrow> eco_score (f_assist g) = eco_score (f_assist f)"
    "speed_limit_valid (f_assist f) \<Longrightarrow> speed_limit_kmh (f_assist g) = min (speed_limit_kmh (f_assist f)) 0xFE"
    "collision_risk_valid (f_assist f) \<Longrightarrow> collision_risk (f_assist f) \<noteq> CANPROXY_SNA_U8 \<Longrightarrow>
      collision_risk (f_assist g) = collision_risk (f_assist f)"
    "lane_state_valid (f_assist f) \<Longrightarrow> lane_state (f_assist g) = lane_state (f_assist f) AND CANPROXY_LANE_VALID_MASK"
proof -
  obtain d where d: "canproxy_pack_motion (f_motion f) = Some d" and g: "f_motion g = canproxy_unpack_motion d"
    using assms by (rule through_wire_cases)
  show "rpm_valid (f_motion f) \<Longrightarrow> rpm (f_motion g) = min (rpm (f_motion f)) 0xFFFE"
    "gear_valid (f_motion f) \<Longrightarrow> gear (f_motion f) \<noteq> CANPROXY_SNA_U8 \<Longrightarrow> gear (f_motion g) = gear (f_motion f)"
    "power_state_valid (f_motion f) \<Longrightarrow> power_state (f_motion f) \<noteq> CANPROXY_SNA_U8 \<Longrightarrow>
      power_state (f_motion g) = power_state (f_motion f)"
    using d by (rule unpack_pack_motion, simp add: g)+
  obtain d where d: "canproxy_pack_energy (f_energy f) = Some d" and g: "f_energy g = canproxy_unpack_energy d"
    using assms by (rule through_wire_cases)
  show "range_valid (f_energy f) \<Longrightarrow> range_km (f_energy g) = min (range_km (f_energy f)) 0xFFFE"
    "consumption_valid (f_energy f) \<Longrightarrow> consumption_wh_km (f_energy f) \<noteq> CANPROXY_SNA_I16 \<Longrightarrow>
      consumption_wh_km (f_energy g) = consumption_wh_km (f_energy f)"
    "charging_state_valid (f_energy f) \<Longrightarrow> charging_state (f_energy f) \<noteq> CANPROXY_SNA_U8 \<Longrightarrow>
      charging_state (f_energy g) = charging_state (f_energy f)"
    using d by (rule unpack_pack_energy, simp add: g)+
  obtain d where d: "canproxy_pack_trip (f_trip f) = Some d" and g: "f_trip g = canproxy_unpack_trip d"
    using assms by (rule through_wire_cases)
  show "ambient_valid (f_trip f) \<Longrightarrow> ambient_c (f_trip f) \<noteq> CANPROXY_SNA_I8 \<Longrightarrow> ambient_c (f_trip g) = ambient_c (f_trip f)"
    "cabin_valid (f_trip f) \<Longrightarrow> cabin_c (f_trip f) \<noteq> CANPROXY_SNA_I8 \<Longrightarrow> cabin_c (f_trip g) = cabin_c (f_trip f)"
    using d by (rule unpack_pack_trip, simp add: g enc_i8_raw)+
  obtain d where d: "canproxy_pack_thermal (f_thermal f) = Some d" and g: "f_thermal g = canproxy_unpack_thermal d"
    using assms by (rule through_wire_cases)
  show "coolant_valid (f_thermal f) \<Longrightarrow> coolant_c (f_thermal f) \<noteq> CANPROXY_SNA_I8 \<Longrightarrow>
      coolant_c (f_thermal g) = coolant_c (f_thermal f)"
    using d by (rule unpack_pack_thermal, simp add: g enc_i8_raw)+
  obtain d where d: "canproxy_pack_assist (f_assist f) = Some d" and g: "f_assist g = canproxy_unpack_assist d"
    using assms by (rule through_wire_cases)
  show "eco_score_valid (f_assist f) \<Longrightarrow> eco_score (f_assist f) \<le> 100 \<Longrightarrow> eco_score (f_assist g) = eco_score (f_assist f)"
    "speed_limit_valid (f_assist f) \<Longrightarrow> speed_limit_kmh (f_assist g) = min (speed_limit_kmh (f_assist f)) 0xFE"
    "collision_risk_valid (f_assist f) \<Longrightarrow> collision_risk (f_assist f) \<noteq> CANPROXY_SNA_U8 \<Longrightarrow>
      collision_risk (f_assist g) = collision_risk (f_assist f)"
    "lane_state_valid (f_assist f) \<Longrightarrow> lane_state (f_assist g) = lane_state (f_assist f) AND CANPROXY_LANE_VALID_MASK"
    using d by (rule unpack_pack_assist, simp add: g enc_u8_raw_1)+
qed

end
