(* ===== verification/Mapping_Fidelity.thy ===== *)
theory Mapping_Fidelity
  imports Frame_Mapping
begin

text \<open>
  The mapping of \<^verbatim>\<open>core/Mapping.cpp\<close> seen from the consumer: for every signal, when its value appears on
  the wire and how close the decoded value is to the one the plugin published.
\<close>

section \<open>Accuracy of the integer conversions\<close>

lemma to_u16_saturated_near:
  assumes "encodable x" "to_u16_saturated x = Some r"
  shows "quantised 1 0 65534 x (FNum (of_int (uint r)))"
proof -
  obtain q where q: "x = FNum q" "\<bar>q\<bar> \<le> 2 ^ 50" using assms(1) by (auto simp: encodable_FNum)
  consider "q < 0" | "65534 < q" | "0 \<le> q" "q \<le> 65534" by linarith
  then show ?thesis
  proof cases
    case 3
    have "q + 1 / 2 \<le> 65535" using 3 by simp
    also have "\<dots> \<le> (2::rat) ^ 1000" by simp
    finally have sum: "to_f64 (q + 1 / 2) = FNum (rd64 (q + 1 / 2))"
      using 3 by (intro to_f64_FNum) simp
    let ?t = "\<lfloor>rd64 (q + 1 / 2)\<rfloor>"
    have t: "0 \<le> ?t" "?t < 65535"
      using rd64_half_bound [OF 3] by (simp_all add: floor_less_iff)
    then have "r = word_of_int ?t"
      using 3 rd64_half_bound(1) [OF 3] assms(2)
      by (simp add: q to_u16_saturated_def f64_ops dlit_half dlit_u16_max sum rat_trunc_nonneg)
    then have r: "uint r = ?t"
      using t by (simp add: uint_word_of_int take_bit_int_eq_self)
    have "q \<le> 2 ^ 62" using 3 by simp
    note near = floor_half_near [OF rd64_half_near(1) [OF 3(1) this]]
    have "(q + 1) / 2 ^ 52 \<le> 1 / 100" using 3 by simp
    then have "\<bar>rat_of_int ?t - q\<bar> \<le> 51 / 100" using near by linarith
    then show ?thesis using 3 by (simp add: q r del: of_int_uint)
  qed (use assms(2) in \<open>auto simp: q to_u16_saturated_def f64_ops dlit_u16_max rclamp_def\<close>)
qed

lemma enc_i8_near:
  assumes "encodable x" "canproxy_enc_i8 x lsb_1 True = Some r"
  shows "quantised 1 (- 127) 127 x (FNum (of_int (sint r)))"
proof -
  obtain v where v: "x = FNum v" "\<bar>v\<bar> \<le> 2 ^ 50" using assms(1) by (auto simp: encodable_FNum)
  obtain i where i: "canproxy_round (FNum v / lsb_1) = Some i" and r: "r = word_of_int (clamp (- 127) 127 i)"
    using assms(2) by (auto simp: v enc_i8_valid)
  have "sint r = clamp (- 127) 127 i"
    unfolding r using sint_word_of_int_clamp [where 'a = 8, of 127 i] by simp
  moreover have "\<bar>rat_of_int (clamp (- 127) 127 i) - rclamp (of_int (- 127)) (of_int 127) (v / 1)\<bar> \<le> 1 / 2 + 1 / 2 ^ 12"
    by (rule s1.clamped_quotient_near [OF v(2) _ _ _ i]) simp_all
  ultimately show ?thesis by (simp add: v)
qed

lemma consumption_near:
  assumes "encodable x" "consumption_to_i16 x = Some r"
  shows "quantised 1 (- 32767) 32767 x (FNum (of_int (sint r)))"
proof -
  obtain q where q: "x = FNum q" "\<bar>q\<bar> \<le> 2 ^ 50" using assms(1) by (auto simp: encodable_FNum)
  let ?c = "rclamp (- 32767) 32767 q"
  have c: "\<bar>?c\<bar> \<le> 32767" by (auto simp: rclamp_def abs_le_iff)
  have "consumption_to_i16 x = map_option word_of_int (canproxy_round (FNum ?c))"
    by (auto simp: q consumption_to_i16_def f64_ops dlit_i16_lims Let_def bind_Some_map rclamp_def)
  then obtain i where i: "canproxy_round (FNum ?c) = Some i" and r: "r = word_of_int i"
    using assms(2) by (cases "canproxy_round (FNum ?c)") auto
  have "\<bar>?c\<bar> \<le> 2 ^ 62" using c by (rule order_trans) simp
  then have near: "\<bar>rat_of_int i - ?c\<bar> \<le> 1 / 2 + (\<bar>?c\<bar> + 1) / 2 ^ 52"
    using canproxy_round_near i by (metis option.inject)
  have "(\<bar>?c\<bar> + 1) / 2 ^ 52 \<le> 1 / 100" using c by simp
  then have b: "\<bar>rat_of_int i - ?c\<bar> \<le> 51 / 100" using near by linarith
  then have "\<bar>rat_of_int i\<bar> < 32768"
    using abs_triangle_ineq2 [of "rat_of_int i" ?c] c by linarith
  then have "rat_of_int \<bar>i\<bar> < rat_of_int 32768" by simp
  then have "\<bar>i\<bar> < 32768" by (simp only: of_int_less_iff)
  then have "sint r = i"
    unfolding r by (simp add: sint_sbintrunc' signed_take_bit_int_eq_self)
  then show ?thesis using b by (simp add: q)
qed

section \<open>Every signal, from the plugin to the consumer\<close>

text \<open>The published value of a signal, where it is a double.\<close>

fun signal_encodable :: "canproxy_vehicle_state \<Rightarrow> canproxy_signal \<Rightarrow> bool" where
  "signal_encodable s CANPROXY_SIG_SPEED = encodable (s_speed_kmh s)"
| "signal_encodable s CANPROXY_SIG_RPM = encodable (s_rpm s)"
| "signal_encodable s CANPROXY_SIG_MOTOR_POWER = encodable (s_motor_power_kw s)"
| "signal_encodable s CANPROXY_SIG_PACK_VOLTAGE = encodable (s_pack_voltage_v s)"
| "signal_encodable s CANPROXY_SIG_PACK_CURRENT = encodable (s_pack_current_a s)"
| "signal_encodable s CANPROXY_SIG_SOC = encodable (s_soc_pct s)"
| "signal_encodable s CANPROXY_SIG_SOH = encodable (s_soh_pct s)"
| "signal_encodable s CANPROXY_SIG_RANGE = encodable (s_range_km s)"
| "signal_encodable s CANPROXY_SIG_CONSUMPTION = encodable (s_consumption_wh_km s)"
| "signal_encodable s CANPROXY_SIG_ODOMETER = encodable (s_odometer_km s)"
| "signal_encodable s CANPROXY_SIG_AMBIENT_TEMP = encodable (s_ambient_c s)"
| "signal_encodable s CANPROXY_SIG_CABIN_TEMP = encodable (s_cabin_c s)"
| "signal_encodable s CANPROXY_SIG_COOLANT_TEMP = encodable (s_coolant_c s)"
| "signal_encodable s CANPROXY_SIG_FUEL_LEVEL = encodable (s_fuel_pct s)"
| "signal_encodable s CANPROXY_SIG_AUX_BATTERY = encodable (s_aux_battery_v s)"
| "signal_encodable s CANPROXY_SIG_LEAD_GAP = encodable (s_lead_gap_m s)"
| "signal_encodable s _ = True"

text \<open>
  What the consumer's structures must hold for a signal: scaled values within 0.51 of a bit of the
  published value clamped to the range of the field, integers within 0.51, enumerated values equal.
\<close>

fun carries :: "canproxy_vehicle_state \<Rightarrow> Frames \<Rightarrow> canproxy_signal \<Rightarrow> bool" where
  "carries s g CANPROXY_SIG_SPEED = quantised (1 / 100) 0 (65534 / 100) (s_speed_kmh s) (speed_kmh (f_motion g))"
| "carries s g CANPROXY_SIG_RPM = quantised 1 0 65534 (s_rpm s) (FNum (of_int (uint (rpm (f_motion g)))))"
| "carries s g CANPROXY_SIG_GEAR = (uint (gear (f_motion g)) = s_gear s)"
| "carries s g CANPROXY_SIG_POWER_STATE = (uint (power_state (f_motion g)) = s_power_state s)"
| "carries s g CANPROXY_SIG_MOTOR_POWER =
     quantised (1 / 10) (- 32767 / 10) (32767 / 10) (s_motor_power_kw s) (motor_power_kw (f_edrive g))"
| "carries s g CANPROXY_SIG_PACK_VOLTAGE =
     quantised (1 / 10) 0 (65534 / 10) (s_pack_voltage_v s) (pack_voltage_v (f_edrive g))"
| "carries s g CANPROXY_SIG_PACK_CURRENT =
     quantised (1 / 10) (- 32767 / 10) (32767 / 10) (s_pack_current_a s) (pack_current_a (f_edrive g))"
| "carries s g CANPROXY_SIG_SOC = quantised (1 / 2) 0 100 (s_soc_pct s) (soc_pct (f_energy g))"
| "carries s g CANPROXY_SIG_SOH = quantised (1 / 2) 0 100 (s_soh_pct s) (soh_pct (f_energy g))"
| "carries s g CANPROXY_SIG_RANGE = quantised 1 0 65534 (s_range_km s) (FNum (of_int (uint (range_km (f_energy g)))))"
| "carries s g CANPROXY_SIG_CONSUMPTION =
     quantised 1 (- 32767) 32767 (s_consumption_wh_km s) (FNum (of_int (sint (consumption_wh_km (f_energy g)))))"
| "carries s g CANPROXY_SIG_CHARGING_STATE = (uint (charging_state (f_energy g)) = s_charging_state s)"
| "carries s g CANPROXY_SIG_ODOMETER =
     quantised (1 / 10) 0 (4294967294 / 10) (s_odometer_km s) (odometer_km (f_trip g))"
| "carries s g CANPROXY_SIG_AMBIENT_TEMP =
     quantised 1 (- 127) 127 (s_ambient_c s) (FNum (of_int (sint (ambient_c (f_trip g)))))"
| "carries s g CANPROXY_SIG_CABIN_TEMP =
     quantised 1 (- 127) 127 (s_cabin_c s) (FNum (of_int (sint (cabin_c (f_trip g)))))"
| "carries s g CANPROXY_SIG_COOLANT_TEMP =
     quantised 1 (- 127) 127 (s_coolant_c s) (FNum (of_int (sint (coolant_c (f_thermal g)))))"
| "carries s g CANPROXY_SIG_FUEL_LEVEL = quantised (1 / 2) 0 100 (s_fuel_pct s) (fuel_pct (f_thermal g))"
| "carries s g CANPROXY_SIG_AUX_BATTERY =
     quantised (1 / 100) 0 (65534 / 100) (s_aux_battery_v s) (aux_battery_v (f_thermal g))"
| "carries s g CANPROXY_SIG_ECO_SCORE = (uint (eco_score (f_assist g)) = clamp 0 100 (s_eco_score s))"
| "carries s g CANPROXY_SIG_SPEED_LIMIT = (uint (speed_limit_kmh (f_assist g)) = clamp 0 254 (s_speed_limit_kmh s))"
| "carries s g CANPROXY_SIG_COLLISION_RISK = (collision_risk (f_assist g) = collisionRiskFrom (s_collision_risk s))"
| "carries s g CANPROXY_SIG_LANE_STATE = (ucast (lane_state (f_assist g)) = s_lane_state s AND 0xF)"
| "carries s g CANPROXY_SIG_LEAD_GAP = quantised (1 / 10) 0 (65534 / 10) (s_lead_gap_m s) (lead_gap_m (f_assist g))"
| "carries s g CANPROXY_SIG_COUNT = True"

text \<open>The values \<open>framesFrom\<close> copies.\<close>

lemma frames_copied:
  assumes "framesFrom s live proxyState cnt pluginMajor pluginMinor = Some f"
  shows "speed_kmh (f_motion f) = s_speed_kmh s" "motor_power_kw (f_edrive f) = s_motor_power_kw s"
    "pack_voltage_v (f_edrive f) = s_pack_voltage_v s" "pack_current_a (f_edrive f) = s_pack_current_a s"
    "soc_pct (f_energy f) = s_soc_pct s" "soh_pct (f_energy f) = s_soh_pct s"
    "odometer_km (f_trip f) = s_odometer_km s" "fuel_pct (f_thermal f) = s_fuel_pct s"
    "aux_battery_v (f_thermal f) = s_aux_battery_v s" "lead_gap_m (f_assist f) = s_lead_gap_m s"
  using assms by (rule framesFrom_cases, simp)+

lemma frames_converted:
  assumes "framesFrom s live proxyState cnt pluginMajor pluginMinor = Some f"
  shows "to_u16_saturated (s_rpm s) = Some (rpm (f_motion f))"
    "to_u16_saturated (s_range_km s) = Some (range_km (f_energy f))"
    "consumption_to_i16 (s_consumption_wh_km s) = Some (consumption_wh_km (f_energy f))"
    "canproxy_enc_i8 (s_ambient_c s) lsb_1 True = Some (ambient_c (f_trip f))"
    "canproxy_enc_i8 (s_cabin_c s) lsb_1 True = Some (cabin_c (f_trip f))"
    "canproxy_enc_i8 (s_coolant_c s) lsb_1 True = Some (coolant_c (f_thermal f))"
    "eco_score (f_assist f) = word_of_int (clamp 0 100 (s_eco_score s))"
    "speed_limit_kmh (f_assist f) = word_of_int (clamp 0 254 (s_speed_limit_kmh s))"
    "lane_state (f_assist f) = ucast (s_lane_state s AND ucast CANPROXY_LANE_VALID_MASK)"
  using assms by (rule framesFrom_cases, simp add: clamp_def)+

lemma conversions_not_SNA:
  assumes f: "framesFrom s live proxyState cnt pluginMajor pluginMinor = Some f"
  shows "min (rpm (f_motion f)) 0xFFFE = rpm (f_motion f)"
    "min (range_km (f_energy f)) 0xFFFE = range_km (f_energy f)"
    "consumption_wh_km (f_energy f) \<noteq> CANPROXY_SNA_I16" "ambient_c (f_trip f) \<noteq> CANPROXY_SNA_I8"
    "cabin_c (f_trip f) \<noteq> CANPROXY_SNA_I8" "coolant_c (f_thermal f) \<noteq> CANPROXY_SNA_I8"
proof -
  have u16: "min r 0xFFFE = r" if "to_u16_saturated x = Some r" for x r
  proof -
    have "x \<noteq> FNaN" using that to_u16_saturated_NaN by auto
    then have "r \<le> 0xFFFE" using to_u16_saturated_some [of x] that by (metis option.inject)
    then show ?thesis by (simp add: min_def)
  qed
  show "min (rpm (f_motion f)) 0xFFFE = rpm (f_motion f)"
    "min (range_km (f_energy f)) 0xFFFE = range_km (f_energy f)"
    using u16 frames_converted(1,2) [OF f] by blast+
  have "s_consumption_wh_km s \<noteq> FNaN"
    using frames_converted(3) [OF f] consumption_NaN by auto
  then show "consumption_wh_km (f_energy f) \<noteq> CANPROXY_SNA_I16"
    using consumption_some frames_converted(3) [OF f] by (metis option.inject)
  show "ambient_c (f_trip f) \<noteq> CANPROXY_SNA_I8"
    "cabin_c (f_trip f) \<noteq> CANPROXY_SNA_I8" "coolant_c (f_thermal f) \<noteq> CANPROXY_SNA_I8"
    using frames_converted(4-6) [OF f] enc_i8_not_SNA by blast+
qed

lemma clamped_bytes:
  "uint (word_of_int (clamp 0 100 x) :: u8) = clamp 0 100 x" "(word_of_int (clamp 0 100 x) :: u8) \<le> 100"
  "uint (word_of_int (clamp 0 254 x) :: u8) = clamp 0 254 x" "(word_of_int (clamp 0 254 x) :: u8) \<le> 254"
proof -
  show 1: "uint (word_of_int (clamp 0 100 x) :: u8) = clamp 0 100 x"
    by (rule uint_word_of_int_clamp) simp_all
  show 2: "uint (word_of_int (clamp 0 254 x) :: u8) = clamp 0 254 x"
    by (rule uint_word_of_int_clamp) simp_all
  show "(word_of_int (clamp 0 100 x) :: u8) \<le> 100" "(word_of_int (clamp 0 254 x) :: u8) \<le> 254"
    using clamp_bounds [of 0 100 x] clamp_bounds [of 0 254 x] by (simp_all add: word_le_def 1 2)
qed

lemma lane_bits:
  "ucast (ucast (w AND ucast CANPROXY_LANE_VALID_MASK :: u32) AND CANPROXY_LANE_VALID_MASK :: u8) = (w AND 0xF :: u32)"
proof -
  have eq: "(0xF :: u32) = mask 4" by (simp add: mask_eq_exp_minus_1)
  show ?thesis unfolding eq by (rule bit_eqI) (auto simp: bit_simps lane_valid_bit)
qed

lemma enum_bytes:
  "0 \<le> i \<Longrightarrow> i \<le> 4 \<Longrightarrow> uint (gearFrom i) = i"
  "0 \<le> i \<Longrightarrow> i \<le> 3 \<Longrightarrow> uint (powerStateFrom i) = i"
  "0 \<le> i \<Longrightarrow> i \<le> 3 \<Longrightarrow> uint (chargingStateFrom i) = i"
  by (simp_all add: gearFrom_value powerStateFrom_value chargingStateFrom_value uint_word_of_int
      take_bit_int_eq_self)

text \<open>If every signal that is sent is encodable, all nine frames pack.\<close>

lemma through_wire_defined:
  assumes f: "framesFrom s live proxyState cnt pluginMajor pluginMinor = Some f"
    and enc: "\<And>sig. has_signal s live sig \<Longrightarrow> signal_encodable s sig"
  obtains g where "through_wire f = Some g"
proof -
  note flags = frames_flags [OF f] frames_copied [OF f]
  have "\<exists>d. canproxy_pack_motion (f_motion f) = Some d"
    using enc [of CANPROXY_SIG_SPEED] by (intro pack_defined(1)) (simp add: flags)
  moreover have "\<exists>d. canproxy_pack_edrive (f_edrive f) = Some d"
    using enc [of CANPROXY_SIG_MOTOR_POWER] enc [of CANPROXY_SIG_PACK_VOLTAGE] enc [of CANPROXY_SIG_PACK_CURRENT]
    by (intro pack_defined(2)) (simp_all add: flags)
  moreover have "\<exists>d. canproxy_pack_energy (f_energy f) = Some d"
    using enc [of CANPROXY_SIG_SOC] enc [of CANPROXY_SIG_SOH] by (intro pack_defined(3)) (simp_all add: flags)
  moreover have "\<exists>d. canproxy_pack_trip (f_trip f) = Some d"
    using enc [of CANPROXY_SIG_ODOMETER] by (intro pack_defined(4)) (simp add: flags)
  moreover have "\<exists>d. canproxy_pack_thermal (f_thermal f) = Some d"
    using enc [of CANPROXY_SIG_FUEL_LEVEL] enc [of CANPROXY_SIG_AUX_BATTERY]
    by (intro pack_defined(5)) (simp_all add: flags)
  moreover have "\<exists>d. canproxy_pack_assist (f_assist f) = Some d"
    using enc [of CANPROXY_SIG_LEAD_GAP] by (intro pack_defined(6)) (simp add: flags)
  ultimately have "\<exists>g. through_wire f = Some g"
    using pack_defined_total(1) [of "f_status f"] pack_defined_total(2) [of "f_identity f"]
      pack_defined_total(3) [of "f_telltales f"]
    by (auto simp: through_wire_def)
  then show ?thesis using that by blast
qed

text \<open>A state every signal of which is encodable.\<close>

definition all_encodable :: "canproxy_vehicle_state \<Rightarrow> bool" where
  "all_encodable s \<longleftrightarrow> (\<forall>sig \<in> set canproxy_signals. signal_encodable s sig)"

lemma all_encodableD: "all_encodable s \<Longrightarrow> signal_encodable s sig"
  by (cases sig) (simp_all add: all_encodable_def canproxy_signals_def)

lemma encodable_not_NaN: "encodable x \<Longrightarrow> x \<noteq> FNaN"
  by (cases x) simp_all

lemma all_encodable_frames:
  assumes "all_encodable s"
  obtains f g where "framesFrom s live proxyState cnt pluginMajor pluginMinor = Some f"
    and "through_wire f = Some g"
proof -
  have "state_convertible s"
    using all_encodableD [OF assms, of CANPROXY_SIG_RPM] all_encodableD [OF assms, of CANPROXY_SIG_RANGE]
      all_encodableD [OF assms, of CANPROXY_SIG_CONSUMPTION] all_encodableD [OF assms, of CANPROXY_SIG_AMBIENT_TEMP]
      all_encodableD [OF assms, of CANPROXY_SIG_CABIN_TEMP] all_encodableD [OF assms, of CANPROXY_SIG_COOLANT_TEMP]
    by (simp add: state_convertible_def encodable_not_NaN)
  then obtain f where f: "framesFrom s live proxyState cnt pluginMajor pluginMinor = Some f"
    by (rule framesFrom_defined)
  then obtain g where "through_wire f = Some g"
    using all_encodableD [OF assms] by (rule through_wire_defined)
  with f show ?thesis by (rule that)
qed

text \<open>A car at 87.3 km/h that knows its speed, its gear (out of range) and its ambient temperature.\<close>

definition sample_state :: canproxy_vehicle_state where
  "sample_state = zero_vehicle_state\<lparr> s_capable := 0x2005, s_valid := 0x2007, s_speed_kmh := FNum (873 / 10),
     s_gear := 9, s_ambient_c := FNum (- 12), s_lamps := 0xFFF00401 \<rparr>"

lemma sample_encodable: "all_encodable sample_state"
  by (simp add: all_encodable_def canproxy_signals_def sample_state_def zero_vehicle_state_def)

lemma sample_signals:
  "has_signal sample_state live CANPROXY_SIG_SPEED = live" "has_signal sample_state live CANPROXY_SIG_GEAR = live"
  "has_signal sample_state live CANPROXY_SIG_AMBIENT_TEMP = live" "\<not> has_signal sample_state live CANPROXY_SIG_RPM"
  by (simp_all add: has_signal_def sample_state_def CANPROXY_SIG_BIT_def)

text \<open>
  When nothing is live, the frames hold SNA in every signal field and no lamp, whatever the
  plugin last published; the capabilities and the identity are still sent.
\<close>

lemma not_live_frames:
  assumes "framesFrom s False proxyState cnt pluginMajor pluginMinor = Some f"
  shows "canproxy_pack_motion (f_motion f) = Some [0xFF, 0xFF, 0xFF, 0xFF, 0xFF, 0xFF, 0, 0] \<and>
    canproxy_pack_edrive (f_edrive f) = Some [0, 0x80, 0xFF, 0xFF, 0, 0x80, 0, 0] \<and>
    canproxy_pack_telltales (f_telltales f) = Some [0, 0, 0, 0, 0, 0, 0, 0] \<and>
    canproxy_pack_energy (f_energy f) = Some [0xFF, 0xFF, 0xFF, 0xFF, 0, 0x80, 0xFF, 0] \<and>
    canproxy_pack_trip (f_trip f) = Some [0xFF, 0xFF, 0xFF, 0xFF, 0x80, 0x80, 0, 0] \<and>
    canproxy_pack_thermal (f_thermal f) = Some [0x80, 0xFF, 0xFF, 0xFF, 0, 0, 0, 0] \<and>
    canproxy_pack_assist (f_assist f) = Some [0xFF, 0xFF, 0xFF, 0xFF, 0xFF, 0xFF, 0, 0] \<and>
    capabilities (f_status f) = capabilitiesFrom (s_capable s) \<and>
    vehicle_id (f_identity f) = s_vehicle_id s"
proof -
  have "capabilities (f_status f) = capabilitiesFrom (s_capable s) \<and> vehicle_id (f_identity f) = s_vehicle_id s \<and>
      bits (f_telltales f) = 0"
    using assms by (rule framesFrom_cases) simp
  then show ?thesis
    by (simp add: canproxy_pack_motion_def canproxy_pack_edrive_def canproxy_pack_energy_def
        canproxy_pack_trip_def canproxy_pack_thermal_def canproxy_pack_assist_def frames_flags [OF assms]
        canproxy_pack_telltales_def has_signal_def wire_simps canproxy_put_u16le_def canproxy_put_u32le_def
        contract_consts)
qed

section \<open>Properties\<close>

lemma signal_carried:
  assumes f: "framesFrom s live proxyState cnt pluginMajor pluginMinor = Some f"
    and g: "through_wire f = Some g"
    and sig: "has_signal s live sig" "enum_in_range s sig" "signal_encodable s sig"
  shows "carries s g sig"
proof -
  note scaled = wire_scaled [OF g, unfolded frames_flags [OF f] frames_copied [OF f], simplified]
  note unscaled = wire_unscaled [OF g, unfolded frames_flags [OF f]]
  note conv = frames_converted [OF f]
  note facts = scaled unscaled conversions_not_SNA [OF f] conv(7-9) frames_flags [OF f] clamped_bytes
    to_u16_saturated_near [OF _ conv(1)] to_u16_saturated_near [OF _ conv(2)]
    consumption_near [OF _ conv(3)] enc_i8_near [OF _ conv(4)] enc_i8_near [OF _ conv(5)]
    enc_i8_near [OF _ conv(6)] lane_bits enum_bytes collisionRiskFrom_not_SNA enum_from_SNA min_absorb1
  show ?thesis
    using sig by (cases sig) (simp_all add: facts del: of_int_uint of_int_sint)
qed

text \<open>
  C1: A signal that is live, valid and advertised, and (for an enumeration) in range, arrives: the
  structures a consumer decodes from the nine frames hold its value, saturated to the field and
  within 0.51 of a bit of what the plugin published; integers and enumerations arrive exactly.
\<close>

theorem signal_arrives:
  assumes f: "framesFrom s live proxyState cnt pluginMajor pluginMinor = Some f"
    and g: "through_wire f = Some g"
    and sig: "has_signal s live sig" "enum_in_range s sig" "signal_encodable s sig"
  shows "carries s g sig"
  by (rule signal_carried [OF assms])

theorem signal_arrives_witness:
  "\<exists>f g. framesFrom sample_state True CANPROXY_STATE_OK 7 1 0 = Some f \<and> through_wire f = Some g \<and>
    carries sample_state g CANPROXY_SIG_SPEED \<and> carries sample_state g CANPROXY_SIG_AMBIENT_TEMP"
proof -
  obtain f g where f: "framesFrom sample_state True CANPROXY_STATE_OK 7 1 0 = Some f"
    and g: "through_wire f = Some g"
    using sample_encodable by (rule all_encodable_frames)
  show ?thesis
    using f g signal_arrives [OF f g, of CANPROXY_SIG_SPEED] signal_arrives [OF f g, of CANPROXY_SIG_AMBIENT_TEMP]
    by (simp add: sample_signals all_encodableD [OF sample_encodable] del: carries.simps signal_encodable.simps)
qed

lemma signal_flagged:
  assumes f: "framesFrom s live proxyState cnt pluginMajor pluginMinor = Some f"
    and g: "through_wire f = Some g" and sig: "sig \<noteq> CANPROXY_SIG_COUNT"
  shows "wire_valid g sig \<longleftrightarrow> has_signal s live sig \<and> enum_in_range s sig"
  using sig
  by (cases sig) (simp_all add: frames_flags [OF f] wire_flags [OF g] enum_from_SNA collisionRiskFrom_not_SNA)



text \<open>
  A NaN in the engine speed, range, consumption or one of the three temperatures makes the
  conversion undefined even when the signal is not valid and not capable: \<open>framesFrom\<close> converts
  these fields before it looks at their flags.
\<close>

lemma ignored_field_undefined:
  "framesFrom (s\<lparr> s_valid := 0, s_capable := 0, s_rpm := FNaN \<rparr>) live ps cnt ma mi = None \<and>
   framesFrom (s\<lparr> s_valid := 0, s_capable := 0, s_range_km := FNaN \<rparr>) live ps cnt ma mi = None \<and>
   framesFrom (s\<lparr> s_valid := 0, s_capable := 0, s_consumption_wh_km := FNaN \<rparr>) live ps cnt ma mi = None \<and>
   framesFrom (s\<lparr> s_valid := 0, s_capable := 0, s_ambient_c := FNaN \<rparr>) live ps cnt ma mi = None \<and>
   framesFrom (s\<lparr> s_valid := 0, s_capable := 0, s_cabin_c := FNaN \<rparr>) live ps cnt ma mi = None \<and>
   framesFrom (s\<lparr> s_valid := 0, s_capable := 0, s_coolant_c := FNaN \<rparr>) live ps cnt ma mi = None"
proof -
  have "canproxy_enc_i8 FNaN lsb_1 True = None"
    by (simp add: enc_i8_valid f64_ops lsb_values canproxy_round_def dlit_half)
  then show ?thesis
    by (auto simp: framesFrom_def Let_def to_u16_saturated_NaN consumption_NaN split del: if_split
        split: bind_splits)
qed

text \<open>
  The capability bits on the wire are exactly the capability bits of the signals the plugin can
  provide (reserved bits zero), so a signal a consumer sees as valid is always an advertised one.
\<close>

lemma capabilities_on_the_wire:
  assumes f: "framesFrom s live proxyState cnt pluginMajor pluginMinor = Some f"
    and g: "through_wire f = Some g"
  shows "(bit (capabilities (f_status g)) n \<longleftrightarrow>
      (\<exists>sig. sig \<noteq> CANPROXY_SIG_COUNT \<and> bit (s_capable s) (sig_index sig) \<and> capabilityBitFor sig = push_bit n 1 \<and> n < 18)) \<and>
    (wire_valid g sig \<longrightarrow> capabilities (f_status g) AND capabilityBitFor sig = capabilityBitFor sig)"
proof (intro conjI impI)
  have "capabilities (f_status f) = capabilitiesFrom (s_capable s)"
    using f by (rule framesFrom_cases) simp
  then have caps: "capabilities (f_status g) = capabilitiesFrom (s_capable s)"
    using through_wire_simple(1) [OF g] capabilitiesFrom_reserved by (simp add: and_not_mask_zero)
  show "bit (capabilities (f_status g)) n \<longleftrightarrow>
      (\<exists>sig. sig \<noteq> CANPROXY_SIG_COUNT \<and> bit (s_capable s) (sig_index sig) \<and> capabilityBitFor sig = push_bit n 1 \<and> n < 18)"
    unfolding caps bit_capabilitiesFrom using bit_capability by blast
  assume "wire_valid g sig"
  then have "has_signal s live sig" "sig \<noteq> CANPROXY_SIG_COUNT"
    by (cases sig; simp add: frames_flags [OF f] wire_flags [OF g])+
  then have "bit (s_capable s) (sig_index sig)" "sig \<noteq> CANPROXY_SIG_COUNT"
    by (simp_all add: has_signal_def and_sig_bit)
  then have "bit (capabilityBitFor sig) m \<Longrightarrow> bit (capabilitiesFrom (s_capable s)) m" for m
    unfolding bit_capabilitiesFrom by blast
  then show "capabilities (f_status g) AND capabilityBitFor sig = capabilityBitFor sig"
    unfolding caps by (intro bit_eqI) (auto simp: bit_simps)
qed

lemma capabilities_on_the_wire_witness:
  "\<exists>f g. framesFrom sample_state True CANPROXY_STATE_OK 7 1 0 = Some f \<and> through_wire f = Some g \<and>
    bit (capabilities (f_status g)) 9 \<and> capabilities (f_status g) AND CANPROXY_CAP_SPEED = CANPROXY_CAP_SPEED"
proof -
  obtain f g where f: "framesFrom sample_state True CANPROXY_STATE_OK 7 1 0 = Some f"
    and g: "through_wire f = Some g"
    using sample_encodable by (rule all_encodable_frames)
  have "bit (capabilities (f_status g)) 9"
    unfolding capabilities_on_the_wire [OF f g, THEN conjunct1]
    by (rule exI [of _ CANPROXY_SIG_AMBIENT_TEMP]) (simp add: sample_state_def CANPROXY_CAP_AMBIENT_TEMP_def)
  moreover have "wire_valid g CANPROXY_SIG_SPEED"
    by (simp add: frames_flags [OF f] wire_flags [OF g] sample_signals)
  ultimately show ?thesis
    using f g capabilities_on_the_wire [OF f g, of 0 CANPROXY_SIG_SPEED] by simp
qed

text \<open>
  C31: The telltale bits on the wire are the lamps of a live state, bit for bit, with the reserved
  bits cleared; no lamp is lit when nothing is live.
\<close>

theorem telltales_on_the_wire:
  assumes f: "framesFrom s live proxyState cnt pluginMajor pluginMinor = Some f"
    and g: "through_wire f = Some g"
  shows "bits (f_telltales g) = (if live then s_lamps s AND NOT CANPROXY_TT_RESERVED_MASK else 0)"
proof -
  have "bits (f_telltales f) = (if live then telltalesFrom (s_lamps s) else 0)"
    using f by (rule framesFrom_cases) simp
  then show ?thesis
    using through_wire_simple(3) [OF g] by (simp add: telltalesFrom_mask and.assoc)
qed

theorem telltales_on_the_wire_witness:
  "\<exists>f g. framesFrom sample_state True CANPROXY_STATE_OK 7 1 0 = Some f \<and> through_wire f = Some g \<and>
    bits (f_telltales g) = CANPROXY_TT_ENGINE OR CANPROXY_TT_TRACTION"
proof -
  obtain f g where f: "framesFrom sample_state True CANPROXY_STATE_OK 7 1 0 = Some f"
    and g: "through_wire f = Some g"
    using sample_encodable by (rule all_encodable_frames)
  show ?thesis
    using f g telltales_on_the_wire [OF f g] by (simp add: sample_state_def contract_consts)
qed

end
