(* ===== verification/Publisher.thy ===== *)
theory Publisher
  imports State_Store Mapping_Fidelity
begin

text \<open>
  The schedule of \<^verbatim>\<open>core/Publisher.cpp\<close>: nine slots with their own deadlines, a tick that sends what is
  due, and the thread that ticks at the earliest deadline. The sink is the list of frames a tick
  hands to it. A tick is \<open>None\<close> where a conversion in it is undefined.
\<close>

section \<open>State\<close>

record Slot =
  slot_id :: u32
  slot_cycle :: int
  slot_due :: int

record Publisher =
  m_timeout :: int
  m_pluginMajor :: u8
  m_pluginMinor :: u8
  m_counter :: u8
  m_lastState :: u8
  m_armed :: bool
  m_slots :: "Slot list"

definition kOrder :: "u32 list" where
  "kOrder = [CANPROXY_ID_STATUS, CANPROXY_ID_IDENTITY, CANPROXY_ID_MOTION, CANPROXY_ID_EDRIVE,
     CANPROXY_ID_TELLTALES, CANPROXY_ID_ENERGY, CANPROXY_ID_TRIP, CANPROXY_ID_THERMAL,
     CANPROXY_ID_ASSIST]"

definition Publisher_new :: "int \<Rightarrow> u8 \<Rightarrow> u8 \<Rightarrow> Publisher" where
  "Publisher_new pluginTimeout pluginMajor pluginMinor =
     \<lparr> m_timeout = pluginTimeout, m_pluginMajor = pluginMajor, m_pluginMinor = pluginMinor,
       m_counter = 0, m_lastState = 0, m_armed = False,
       m_slots = map (\<lambda>i. \<lparr> slot_id = i, slot_cycle = uint (canproxy_cycle_ms i) * 1000000, slot_due = 0 \<rparr>)
         kOrder \<rparr>"

definition arm :: "int \<Rightarrow> Publisher \<Rightarrow> Publisher" where
  "arm now p = p\<lparr> m_slots := map (\<lambda>s. s\<lparr> slot_due := now \<rparr>) (m_slots p), m_armed := True \<rparr>"

section \<open>A tick\<close>

definition sendFrame :: "Slot \<Rightarrow> Frames \<Rightarrow> (u32 \<times> bytes) list option" where
  "sendFrame s f = (
     let send = map_option (\<lambda>d. [(slot_id s, d)])
     in if slot_id s = CANPROXY_ID_STATUS then send (canproxy_pack_status (f_status f))
        else if slot_id s = CANPROXY_ID_IDENTITY then send (canproxy_pack_identity (f_identity f))
        else if slot_id s = CANPROXY_ID_MOTION then send (canproxy_pack_motion (f_motion f))
        else if slot_id s = CANPROXY_ID_EDRIVE then send (canproxy_pack_edrive (f_edrive f))
        else if slot_id s = CANPROXY_ID_TELLTALES then send (canproxy_pack_telltales (f_telltales f))
        else if slot_id s = CANPROXY_ID_ENERGY then send (canproxy_pack_energy (f_energy f))
        else if slot_id s = CANPROXY_ID_TRIP then send (canproxy_pack_trip (f_trip f))
        else if slot_id s = CANPROXY_ID_THERMAL then send (canproxy_pack_thermal (f_thermal f))
        else if slot_id s = CANPROXY_ID_ASSIST then
          if capabilities (f_status f) AND CANPROXY_CAP_ASSIST = 0 then Some []
          else send (canproxy_pack_assist (f_assist f))
        else Some [])"

definition next_due :: "int \<Rightarrow> Slot \<Rightarrow> Slot" where
  "next_due now s = (
     let s = s\<lparr> slot_due := slot_due s + slot_cycle s \<rparr>
     in if slot_due s < now then s\<lparr> slot_due := now + slot_cycle s \<rparr> else s)"

text \<open>The loop over the slots: the new slots, the new counter, and what was sent.\<close>

fun tick_slots :: "int \<Rightarrow> Frames \<Rightarrow> Slot list \<Rightarrow> u8 \<Rightarrow> (Slot list \<times> u8 \<times> (u32 \<times> bytes) list) option" where
  "tick_slots now f [] c = Some ([], c, [])"
| "tick_slots now f (s # ss) c =
     (if now < slot_due s then do {
        (ss', c', out) \<leftarrow> tick_slots now f ss c;
        Some (s # ss', c', out)
      } else do {
        let c = (if slot_id s = CANPROXY_ID_STATUS then c + 1 else c);
        sent \<leftarrow> sendFrame s f;
        let s = next_due now s;
        (ss', c', out) \<leftarrow> tick_slots now f ss c;
        Some (s # ss', c', sent @ out)
      })"

definition next_deadline :: "Slot list \<Rightarrow> int" where
  "next_deadline slots =
     fold (\<lambda>s next. if slot_due s < next then slot_due s else next) slots (slot_due (slots ! 0))"

definition state_names :: "string list" where
  "state_names = [''starting'', ''no-vehicle'', ''degraded'', ''ok'']"

text \<open>The result of a tick: the next deadline, the publisher, the frames sent, the log lines.\<close>

definition tick :: "Snapshot \<Rightarrow> int \<Rightarrow> Publisher \<Rightarrow> (int \<times> Publisher \<times> (u32 \<times> bytes) list \<times> string list) option" where
  "tick store now p = (
     let p = (if \<not> m_armed p then arm now p else p);
         anyDue = list_ex (\<lambda>s. now \<ge> slot_due s) (m_slots p)
     in if anyDue then do {
          let snap = store_snapshot store;
          let dv = derive snap now (m_timeout p);
          let logs = (if proxyState dv \<noteq> m_lastState p
                      then [''proxy state -> '' @ state_names ! unat (proxyState dv AND 3)] else []);
          let p = p\<lparr> m_lastState := proxyState dv \<rparr>;
          f \<leftarrow> framesFrom (state snap) (live dv) (proxyState dv) (m_counter p) (m_pluginMajor p) (m_pluginMinor p);
          (slots, c, sent) \<leftarrow> tick_slots now f (m_slots p) (m_counter p);
          let p = p\<lparr> m_slots := slots, m_counter := c \<rparr>;
          Some (next_deadline (m_slots p), p, sent, logs)
        } else Some (next_deadline (m_slots p), p, [], []))"

section \<open>The publishing thread\<close>

text \<open>
  \<open>start()\<close>: arm, then tick and sleep until the returned deadline. The sleep ends at or after the
  deadline (an interrupted sleep is resumed), at a time the environment chooses; the store changes
  freely between ticks. A state is the publisher and the deadline it sleeps for.
\<close>

definition thread_start :: "int \<Rightarrow> Publisher \<Rightarrow> Publisher \<times> int" where
  "thread_start now p = (arm now p, now)"

inductive thread_tick ::
  "Publisher \<times> int \<Rightarrow> int \<times> Snapshot \<times> (u32 \<times> bytes) list \<Rightarrow> Publisher \<times> int \<Rightarrow> bool" where
  ticks: "wake \<le> now \<Longrightarrow> tick store now p = Some (wake', p', sent, logs) \<Longrightarrow>
    thread_tick (p, wake) (now, store, sent) (p', wake')"

inductive_cases thread_tickE: "thread_tick st ev st'"
inductive_simps thread_tick_iff: "thread_tick (p, wake) (now, store, sent) (p', wake')"

text \<open>A run: its events, oldest first.\<close>

inductive thread_run :: "Publisher \<times> int \<Rightarrow> (int \<times> Snapshot \<times> (u32 \<times> bytes) list) list \<Rightarrow> Publisher \<times> int \<Rightarrow> bool" where
  run_nil: "thread_run st [] st"
| run_snoc: "thread_run st es st' \<Longrightarrow> thread_tick st' e st'' \<Longrightarrow> thread_run st (es @ [e]) st''"

section \<open>The slots of a tick\<close>

abbreviation cycle_ns :: "u32 \<Rightarrow> int" where "cycle_ns i \<equiv> uint (canproxy_cycle_ms i) * 1000000"
abbreviation stale_ns :: "u32 \<Rightarrow> int" where "stale_ns i \<equiv> uint (canproxy_stale_ms i) * 1000000"

definition wf_slots :: "Slot list \<Rightarrow> bool" where
  "wf_slots ss \<longleftrightarrow> map slot_id ss = kOrder \<and> (\<forall>s \<in> set ss. slot_cycle s = cycle_ns (slot_id s))"

definition after_tick :: "int \<Rightarrow> Slot \<Rightarrow> Slot" where
  "after_tick now s = (if now < slot_due s then s else next_due now s)"

lemma kOrder_ids: "kOrder = contract_ids"
  by (simp add: kOrder_def contract_ids_def)

lemma distinct_kOrder: "distinct kOrder"
  by (simp add: kOrder_ids distinct_contract_ids)

lemma next_due_id [simp]: "slot_id (next_due now s) = slot_id s" "slot_cycle (next_due now s) = slot_cycle s"
  by (simp_all add: next_due_def Let_def)

lemma after_tick_id [simp]: "slot_id (after_tick now s) = slot_id s" "slot_cycle (after_tick now s) = slot_cycle s"
  by (simp_all add: after_tick_def)

lemma wf_after_tick: "wf_slots ss \<Longrightarrow> wf_slots (map (after_tick now) ss)"
  by (auto simp: wf_slots_def comp_def)

lemma wf_new: "wf_slots (m_slots (Publisher_new timeout ma mi))"
  by (simp add: wf_slots_def Publisher_new_def kOrder_def)

lemma wf_arm: "wf_slots (m_slots p) \<Longrightarrow> wf_slots (m_slots (arm now p))"
  by (auto simp: wf_slots_def arm_def comp_def)

lemma wf_slot_cycle: "wf_slots ss \<Longrightarrow> s \<in> set ss \<Longrightarrow> 0 < slot_cycle s \<and> slot_cycle s = cycle_ns (slot_id s)"
proof -
  assume wf: "wf_slots ss" and s: "s \<in> set ss"
  then have "slot_id s \<in> set contract_ids"
    by (metis wf_slots_def kOrder_ids image_eqI list.set_map)
  then show ?thesis using cycle_of_id [of "slot_id s"] wf s by (simp add: wf_slots_def)
qed

text \<open>A served slot is due again within one cycle; served less than a cycle late, it keeps its phase.\<close>

lemma next_due_bounds:
  assumes "slot_due s \<le> now" "0 < slot_cycle s"
  shows "now \<le> slot_due (next_due now s)" "slot_due (next_due now s) \<le> now + slot_cycle s"
    "slot_due s + slot_cycle s \<le> slot_due (next_due now s)"
    "now \<le> slot_due s + slot_cycle s \<Longrightarrow> slot_due (next_due now s) = slot_due s + slot_cycle s"
  using assms by (auto simp: next_due_def Let_def)

lemma tick_slots_iff:
  "tick_slots now f ss c = Some (ss', c', out) \<longleftrightarrow>
    (\<forall>s \<in> set (filter (\<lambda>s. slot_due s \<le> now) ss). sendFrame s f \<noteq> None) \<and>
    ss' = map (after_tick now) ss \<and>
    c' = c + of_nat (length (filter (\<lambda>s. slot_due s \<le> now \<and> slot_id s = CANPROXY_ID_STATUS) ss)) \<and>
    out = concat (map (\<lambda>s. the (sendFrame s f)) (filter (\<lambda>s. slot_due s \<le> now) ss))"
proof (induction ss arbitrary: c ss' c' out)
  case (Cons s ss)
  show ?case
  proof (cases "now < slot_due s")
    case True
    then have "tick_slots now f (s # ss) c = Some (ss', c', out) \<longleftrightarrow>
      (\<exists>ts. ss' = s # ts \<and> tick_slots now f ss c = Some (ts, c', out))"
      by (auto split: bind_splits)
    then show ?thesis using True by (auto simp: Cons.IH after_tick_def)
  next
    case False
    let ?c = "if slot_id s = CANPROXY_ID_STATUS then c + 1 else c"
    have "tick_slots now f (s # ss) c = Some (ss', c', out) \<longleftrightarrow>
      (\<exists>o1 ts o2. sendFrame s f = Some o1 \<and> ss' = next_due now s # ts \<and>
        tick_slots now f ss ?c = Some (ts, c', o2) \<and> out = o1 @ o2)"
      using False by (auto simp: Let_def split: bind_splits)
    then show ?thesis using False by (auto simp: Cons.IH after_tick_def)
  qed
qed auto

text \<open>The earliest deadline.\<close>

lemma next_deadline_le: "s \<in> set ss \<Longrightarrow> next_deadline ss \<le> slot_due s"
proof -
  have "fold (\<lambda>s next. if slot_due s < next then slot_due s else next) ss a \<le> a \<and>
      (\<forall>s \<in> set ss. fold (\<lambda>s next. if slot_due s < next then slot_due s else next) ss a \<le> slot_due s)" for a
    by (induction ss arbitrary: a) (force, auto intro: order_trans simp: not_less, (smt (verit))+)
  then show "s \<in> set ss \<Longrightarrow> next_deadline ss \<le> slot_due s" by (simp add: next_deadline_def)
qed

lemma next_deadline_mem: "ss \<noteq> [] \<Longrightarrow> \<exists>s \<in> set ss. next_deadline ss = slot_due s"
proof -
  have "fold (\<lambda>s next. if slot_due s < next then slot_due s else next) ss a \<in> insert a (slot_due ` set ss)" for a
    by (induction ss arbitrary: a) (auto split: if_splits)
  then have "next_deadline ss \<in> insert (slot_due (ss ! 0)) (slot_due ` set ss)"
    unfolding next_deadline_def .
  moreover assume "ss \<noteq> []"
  then have "ss ! 0 \<in> set ss" by simp
  ultimately show "\<exists>s \<in> set ss. next_deadline ss = slot_due s" by blast
qed

section \<open>What a tick sends\<close>

text \<open>An armed publisher: one step of every slot, and the frames of the due slots in slot order.\<close>

lemma tick_cases:
  assumes "tick store now p = Some (wake, p', sent, logs)" "m_armed p"
  shows "m_slots p' = map (after_tick now) (m_slots p)" "wake = next_deadline (m_slots p')" "m_armed p'"
    "m_timeout p' = m_timeout p" "m_pluginMajor p' = m_pluginMajor p" "m_pluginMinor p' = m_pluginMinor p"
    "m_counter p' = m_counter p +
      of_nat (length (filter (\<lambda>s. slot_due s \<le> now \<and> slot_id s = CANPROXY_ID_STATUS) (m_slots p)))"
    "(\<exists>s \<in> set (m_slots p). slot_due s \<le> now) \<Longrightarrow>
      \<exists>f. framesFrom (state store) (live (derive store now (m_timeout p))) (proxyState (derive store now (m_timeout p)))
            (m_counter p) (m_pluginMajor p) (m_pluginMinor p) = Some f \<and>
          (\<forall>s \<in> set (filter (\<lambda>s. slot_due s \<le> now) (m_slots p)). sendFrame s f \<noteq> None) \<and>
          sent = concat (map (\<lambda>s. the (sendFrame s f)) (filter (\<lambda>s. slot_due s \<le> now) (m_slots p)))"
    "\<not> (\<exists>s \<in> set (m_slots p). slot_due s \<le> now) \<Longrightarrow> sent = [] \<and> p' = p"
proof -
  have none: "map (after_tick now) ss = ss" "filter (\<lambda>s. slot_due s \<le> now \<and> Q s) ss = []"
    if "\<not> (\<exists>s \<in> set ss. slot_due s \<le> now)" for ss Q
    using that by (auto simp: after_tick_def not_le intro!: map_idI)
  show "m_slots p' = map (after_tick now) (m_slots p)" "wake = next_deadline (m_slots p')" "m_armed p'"
    "m_timeout p' = m_timeout p" "m_pluginMajor p' = m_pluginMajor p" "m_pluginMinor p' = m_pluginMinor p"
    "m_counter p' = m_counter p +
      of_nat (length (filter (\<lambda>s. slot_due s \<le> now \<and> slot_id s = CANPROXY_ID_STATUS) (m_slots p)))"
    "(\<exists>s \<in> set (m_slots p). slot_due s \<le> now) \<Longrightarrow>
      \<exists>f. framesFrom (state store) (live (derive store now (m_timeout p))) (proxyState (derive store now (m_timeout p)))
            (m_counter p) (m_pluginMajor p) (m_pluginMinor p) = Some f \<and>
          (\<forall>s \<in> set (filter (\<lambda>s. slot_due s \<le> now) (m_slots p)). sendFrame s f \<noteq> None) \<and>
          sent = concat (map (\<lambda>s. the (sendFrame s f)) (filter (\<lambda>s. slot_due s \<le> now) (m_slots p)))"
    "\<not> (\<exists>s \<in> set (m_slots p). slot_due s \<le> now) \<Longrightarrow> sent = [] \<and> p' = p"
    using assms none [of "m_slots p"]
    by (auto simp: tick_def Let_def list_ex_iff store_snapshot_def tick_slots_iff
        split: if_splits bind_splits)
qed

lemma sendFrame_cases:
  assumes "sendFrame s f = Some o1"
  obtains "o1 = []" "slot_id s \<notin> set kOrder \<or> slot_id s = CANPROXY_ID_ASSIST \<and> capabilities (f_status f) AND CANPROXY_CAP_ASSIST = 0"
  | d where "o1 = [(slot_id s, d)]" "slot_id s \<in> set kOrder"
    "slot_id s = CANPROXY_ID_ASSIST \<Longrightarrow> capabilities (f_status f) AND CANPROXY_CAP_ASSIST \<noteq> 0"
  using assms by (auto simp: sendFrame_def kOrder_def Let_def contract_consts split: if_splits)

lemma sendFrame_ids: "sendFrame s f = Some o1 \<Longrightarrow> fst ` set o1 \<subseteq> {slot_id s} \<and> distinct (map fst o1)"
  by (erule sendFrame_cases) auto

lemma sendFrame_sends:
  assumes "sendFrame s f = Some o1" "slot_id s \<in> set kOrder" "slot_id s \<noteq> CANPROXY_ID_ASSIST"
  shows "slot_id s \<in> fst ` set o1"
  using assms(1) by (rule sendFrame_cases) (use assms(2,3) in auto)

lemma sent_ids:
  "\<forall>s \<in> set ss. sendFrame s f \<noteq> None \<Longrightarrow>
    fst ` set (concat (map (\<lambda>s. the (sendFrame s f)) ss)) \<subseteq> slot_id ` set ss"
proof (induction ss)
  case (Cons s ss)
  then obtain o1 where "sendFrame s f = Some o1" by auto
  then show ?case using Cons sendFrame_ids [of s f o1] by auto
qed simp

lemma disjoint_from_singleton: "C \<subseteq> {x} \<Longrightarrow> A \<subseteq> B \<Longrightarrow> x \<notin> B \<Longrightarrow> C \<inter> A = {}"
  by auto

lemma distinct_sent:
  "distinct (map slot_id ss) \<Longrightarrow> \<forall>s \<in> set ss. sendFrame s f \<noteq> None \<Longrightarrow>
    distinct (map fst (concat (map (\<lambda>s. the (sendFrame s f)) ss)))"
proof (induction ss)
  case (Cons s ss)
  obtain o1 where o1: "sendFrame s f = Some o1" using Cons.prems by auto
  have "fst ` set o1 \<inter> fst ` set (concat (map (\<lambda>s. the (sendFrame s f)) ss)) = {}"
  proof -
    have "fst ` set (concat (map (\<lambda>s. the (sendFrame s f)) ss)) \<subseteq> slot_id ` set ss"
      using Cons.prems by (intro sent_ids) simp
    moreover have "slot_id s \<notin> slot_id ` set ss" using Cons.prems by simp
    ultimately show ?thesis by (rule disjoint_from_singleton [OF conjunct1 [OF sendFrame_ids [OF o1]]])
  qed
  moreover have "distinct (map fst (concat (map (\<lambda>s. the (sendFrame s f)) ss)))"
    using Cons.prems by (intro Cons.IH) simp_all
  ultimately show ?case using sendFrame_ids [OF o1] by (simp add: o1)
qed simp

text \<open>The frames of a tick: each due slot but the optional one once, in slot order.\<close>

lemma tick_sent:
  assumes "tick store now p = Some (wake, p', sent, logs)" "m_armed p" "wf_slots (m_slots p)"
  shows "distinct (map fst sent)" "set (map fst sent) \<subseteq> set kOrder"
    "i \<in> fst ` set sent \<Longrightarrow> \<exists>s \<in> set (m_slots p). slot_id s = i \<and> slot_due s \<le> now"
    "s \<in> set (m_slots p) \<Longrightarrow> slot_due s \<le> now \<Longrightarrow> slot_id s \<noteq> CANPROXY_ID_ASSIST \<Longrightarrow> slot_id s \<in> fst ` set sent"
proof -
  let ?due = "filter (\<lambda>s. slot_due s \<le> now) (m_slots p)"
  obtain f where f: "\<forall>s \<in> set ?due. sendFrame s f \<noteq> None"
    and sent: "sent = concat (map (\<lambda>s. the (sendFrame s f)) ?due)"
  proof (cases "\<exists>s \<in> set (m_slots p). slot_due s \<le> now")
    case True
    show ?thesis using tick_cases(8) [OF assms(1,2) True] by (elim exE conjE) (rule that)
  next
    case False
    then have "?due = []" by (simp add: filter_empty_conv)
    then show ?thesis using tick_cases(9) [OF assms(1,2) False] by (intro that [of undefined]) simp_all
  qed
  have ids: "set (map slot_id (m_slots p)) = set kOrder" "distinct (map slot_id (m_slots p))"
    using assms(3) distinct_kOrder by (simp_all add: wf_slots_def)
  then have "distinct (map slot_id ?due)" by (simp add: distinct_map_filter)
  then show "distinct (map fst sent)" unfolding sent using f by (rule distinct_sent)
  have sub: "\<exists>s \<in> set ?due. slot_id s = i" if "i \<in> fst ` set sent" for i
  proof -
    have "i \<in> slot_id ` set ?due"
      using that unfolding sent by (rule subsetD [OF sent_ids [OF f]])
    then show ?thesis by (rule imageE) (erule bexI [rotated], simp)
  qed
  then show "i \<in> fst ` set sent \<Longrightarrow> \<exists>s \<in> set (m_slots p). slot_id s = i \<and> slot_due s \<le> now" by fastforce
  show "set (map fst sent) \<subseteq> set kOrder" using sub ids(1) by fastforce
  show "slot_id s \<in> fst ` set sent"
    if "s \<in> set (m_slots p)" "slot_due s \<le> now" "slot_id s \<noteq> CANPROXY_ID_ASSIST"
  proof -
    have "s \<in> set ?due" using that by simp
    moreover have "slot_id s \<in> set kOrder" using that ids(1) by auto
    moreover obtain o1 where "sendFrame s f = Some o1" using f \<open>s \<in> set ?due\<close> by blast
    ultimately have "slot_id s \<in> fst ` set (the (sendFrame s f))"
      using that(3) sendFrame_sends by simp
    then show ?thesis using \<open>s \<in> set ?due\<close> unfolding sent by (auto simp del: set_filter)
  qed
qed

section \<open>Histories\<close>

text \<open>When a frame was last sent in a run, and in how many ticks it was.\<close>

definition last_sent :: "u32 \<Rightarrow> (int \<times> Snapshot \<times> (u32 \<times> bytes) list) list \<Rightarrow> int option" where
  "last_sent i es = fold (\<lambda>(now, _, sent) l. if i \<in> fst ` set sent then Some now else l) es None"

definition sent_count :: "u32 \<Rightarrow> (int \<times> Snapshot \<times> (u32 \<times> bytes) list) list \<Rightarrow> nat" where
  "sent_count i es = length (filter (\<lambda>(now, _, sent). i \<in> fst ` set sent) es)"

lemma last_sent_simps [simp]:
  "last_sent i [] = None"
  "last_sent i (es @ [(now, store, sent)]) = (if i \<in> fst ` set sent then Some now else last_sent i es)"
  by (simp_all add: last_sent_def)

lemma sent_count_simps [simp]:
  "sent_count i [] = 0"
  "sent_count i (es @ [(now, store, sent)]) = sent_count i es + (if i \<in> fst ` set sent then 1 else 0)"
  by (simp_all add: sent_count_def)

text \<open>The invariant of the schedule, relative to the history of the thread.\<close>

definition slot_inv :: "int \<Rightarrow> (int \<times> Snapshot \<times> (u32 \<times> bytes) list) list \<Rightarrow> Slot \<Rightarrow> bool" where
  "slot_inv t0 es s \<longleftrightarrow>
     (case last_sent (slot_id s) es of
        None \<Rightarrow> slot_id s = CANPROXY_ID_ASSIST \<or> es = [] \<and> slot_due s = t0
      | Some t \<Rightarrow> t0 \<le> t \<and> int (sent_count (slot_id s) es) * slot_cycle s \<le> t - t0 + slot_cycle s \<and>
          (slot_id s \<noteq> CANPROXY_ID_ASSIST \<longrightarrow> slot_due s \<le> t + slot_cycle s)) \<and>
     t0 + int (sent_count (slot_id s) es) * slot_cycle s \<le> slot_due s"

definition pub_inv :: "int \<Rightarrow> (int \<times> Snapshot \<times> (u32 \<times> bytes) list) list \<Rightarrow> Publisher \<times> int \<Rightarrow> bool" where
  "pub_inv t0 es st \<longleftrightarrow> m_armed (fst st) \<and> wf_slots (m_slots (fst st)) \<and>
     snd st = next_deadline (m_slots (fst st)) \<and> t0 \<le> snd st \<and>
     m_counter (fst st) = of_nat (sent_count CANPROXY_ID_STATUS es) \<and>
     (\<forall>s \<in> set (m_slots (fst st)). slot_inv t0 es s)"

lemma pub_inv_start: "pub_inv t0 [] (thread_start t0 (Publisher_new timeout ma mi))"
  by (auto simp: pub_inv_def thread_start_def arm_def Publisher_new_def kOrder_def wf_slots_def
      next_deadline_def slot_inv_def)

lemma slot_unique: "wf_slots ss \<Longrightarrow> s \<in> set ss \<Longrightarrow> r \<in> set ss \<Longrightarrow> slot_id s = slot_id r \<Longrightarrow> s = r"
  using distinct_kOrder unfolding wf_slots_def by (metis distinct_map inj_on_def)

lemma slot_inv_served:
  assumes "slot_inv t0 es s" "slot_due s \<le> now" "0 < slot_cycle s" "t0 \<le> now"
    and "slot_id s \<noteq> CANPROXY_ID_ASSIST \<Longrightarrow> slot_id s \<in> fst ` set sent"
  shows "slot_inv t0 (es @ [(now, store, sent)]) (next_due now s)"
proof -
  note b = next_due_bounds [OF assms(2,3)]
  have "t0 + int (sent_count (slot_id s) es) * slot_cycle s + slot_cycle s \<le> slot_due (next_due now s)"
    using assms(1) b(3) by (simp add: slot_inv_def)
  then show ?thesis
    using assms b(2) by (auto simp: slot_inv_def algebra_simps split: option.splits)
qed

lemma slot_inv_skipped:
  assumes "slot_inv t0 es s" "slot_id s \<notin> fst ` set sent" "slot_id s \<noteq> CANPROXY_ID_ASSIST \<Longrightarrow> t0 < slot_due s"
  shows "slot_inv t0 (es @ [(now, store, sent)]) s"
  using assms by (auto simp: slot_inv_def split: option.splits)

lemma counted_status:
  assumes "tick store now p = Some (wake, p', sent, logs)" "m_armed p" "wf_slots (m_slots p)"
  shows "m_counter p' = m_counter p + (if CANPROXY_ID_STATUS \<in> fst ` set sent then 1 else 0)"
proof -
  let ?P = "\<lambda>s. slot_due s \<le> now \<and> slot_id s = CANPROXY_ID_STATUS"
  have "length (filter ?P ss) = (if \<exists>s \<in> set ss. ?P s then 1 else 0)" if "distinct (map slot_id ss)" for ss :: "Slot list"
    using that by (induction ss) (auto simp: filter_empty_conv rev_image_eqI)
  moreover have "distinct (map slot_id (m_slots p))"
    using assms(3) distinct_kOrder by (simp add: wf_slots_def)
  moreover have "(\<exists>s \<in> set (m_slots p). ?P s) \<longleftrightarrow> CANPROXY_ID_STATUS \<in> fst ` set sent"
  proof
    assume "\<exists>s \<in> set (m_slots p). ?P s"
    then obtain s where s: "s \<in> set (m_slots p)" "slot_due s \<le> now" "slot_id s = CANPROXY_ID_STATUS" by blast
    moreover have "CANPROXY_ID_STATUS \<noteq> CANPROXY_ID_ASSIST" by (simp add: contract_consts)
    ultimately show "CANPROXY_ID_STATUS \<in> fst ` set sent"
      using tick_sent(4) [OF assms s(1,2)] by simp
  qed (use tick_sent(3) [OF assms] in blast)
  ultimately show ?thesis using tick_cases(7) [OF assms(1,2)] by simp
qed

lemma pub_inv_tick:
  assumes inv: "pub_inv t0 es (p, wake)" and tick: "thread_tick (p, wake) (now, store, sent) (p', wake')"
  shows "pub_inv t0 (es @ [(now, store, sent)]) (p', wake')"
proof -
  obtain logs where t: "tick store now p = Some (wake', p', sent, logs)" and w: "wake \<le> now"
    using tick by (auto elim: thread_tickE)
  have armed: "m_armed p" and wf: "wf_slots (m_slots p)" and wake: "wake = next_deadline (m_slots p)"
    and t0: "t0 \<le> wake" and slots: "\<And>s. s \<in> set (m_slots p) \<Longrightarrow> slot_inv t0 es s"
    using inv by (auto simp: pub_inv_def)
  note c = tick_cases [OF t armed]
  have step: "slot_inv t0 (es @ [(now, store, sent)]) (after_tick now s)"
    if s: "s \<in> set (m_slots p)" for s
  proof (cases "slot_due s \<le> now")
    case True
    have "slot_id s \<noteq> CANPROXY_ID_ASSIST \<Longrightarrow> slot_id s \<in> fst ` set sent"
      using tick_sent(4) [OF t armed wf s True] by blast
    then have "slot_inv t0 (es @ [(now, store, sent)]) (next_due now s)"
      using slots [OF s] True wf_slot_cycle [OF wf s] t0 w by (intro slot_inv_served) auto
    then show ?thesis using True by (simp add: after_tick_def)
  next
    case False
    have "slot_id s \<notin> fst ` set sent"
    proof
      assume "slot_id s \<in> fst ` set sent"
      then obtain r where r: "r \<in> set (m_slots p)" "slot_id r = slot_id s" "slot_due r \<le> now"
        using tick_sent(3) [OF t armed wf] by blast
      then have "s = r" using slot_unique [OF wf s r(1)] by simp
      then show False using r(3) False by simp
    qed
    then have "slot_inv t0 (es @ [(now, store, sent)]) s"
      using slots [OF s] False t0 w by (intro slot_inv_skipped) auto
    then show ?thesis using False by (simp add: after_tick_def)
  qed
  have "m_slots p' \<noteq> []" using c(1) wf by (auto simp: wf_slots_def kOrder_def)
  then obtain s' where "s' \<in> set (m_slots p')" "wake' = slot_due s'"
    using next_deadline_mem c(2) by blast
  then obtain s where s: "s \<in> set (m_slots p)" "wake' = slot_due (after_tick now s)"
    using c(1) by auto
  then have "wake \<le> slot_due s" using wake next_deadline_le by simp
  then have "t0 \<le> wake'"
    using s(2) t0 w next_due_bounds(1) [OF _ conjunct1 [OF wf_slot_cycle [OF wf s(1)]], of now]
    by (auto simp: after_tick_def split: if_splits)
  moreover have "m_counter p' = of_nat (sent_count CANPROXY_ID_STATUS (es @ [(now, store, sent)]))"
    using counted_status [OF t armed wf] inv by (simp add: pub_inv_def)
  ultimately show ?thesis
    using c(1-3) wf_after_tick [OF wf] step by (auto simp: pub_inv_def)
qed

lemma pub_inv_run:
  assumes "thread_run (thread_start t0 (Publisher_new timeout ma mi)) es st"
  shows "pub_inv t0 es st"
  using assms
proof (induction "thread_start t0 (Publisher_new timeout ma mi)" es st rule: thread_run.induct)
  case run_nil
  show ?case by (rule pub_inv_start)
next
  case (run_snoc es st' e st'')
  then show ?case
    using pub_inv_tick by (cases st'; cases st''; cases e) auto
qed

text \<open>Every frame a tick sends is packed from the frames of the snapshot.\<close>

lemma sent_frame:
  assumes "tick store now p = Some (wake, p', sent, logs)" "m_armed p" "(i, d) \<in> set sent"
  obtains s f where "slot_id s = i" "sendFrame s f = Some [(i, d)]"
    "framesFrom (state store) (live (derive store now (m_timeout p))) (proxyState (derive store now (m_timeout p)))
      (m_counter p) (m_pluginMajor p) (m_pluginMinor p) = Some f"
proof (cases "\<exists>s \<in> set (m_slots p). slot_due s \<le> now")
  case True
  let ?due = "filter (\<lambda>s. slot_due s \<le> now) (m_slots p)"
  obtain f where f: "framesFrom (state store) (live (derive store now (m_timeout p)))
      (proxyState (derive store now (m_timeout p))) (m_counter p) (m_pluginMajor p) (m_pluginMinor p) = Some f"
    and ok: "\<forall>s \<in> set ?due. sendFrame s f \<noteq> None"
    and sent: "sent = concat (map (\<lambda>s. the (sendFrame s f)) ?due)"
    using tick_cases(8) [OF assms(1,2) True] by (elim exE conjE)
  obtain s where s: "s \<in> set ?due" "(i, d) \<in> set (the (sendFrame s f))"
    using assms(3) unfolding sent by auto
  then obtain o1 where o1: "sendFrame s f = Some o1" "(i, d) \<in> set o1" using ok by auto
  from o1(1) have "o1 = [(i, d)] \<and> slot_id s = i"
    by (rule sendFrame_cases) (use o1(2) in auto)
  then show ?thesis using that f o1(1) by blast
qed (use tick_cases(9) [OF assms(1,2)] assms(3) in simp)

section \<open>A tick is defined\<close>

lemma sendFrame_defined: "through_wire f = Some g \<Longrightarrow> \<exists>o1. sendFrame s f = Some o1"
  by (auto simp: through_wire_def sendFrame_def Let_def split: bind_splits)

lemma tick_defined:
  assumes "all_encodable (state store)"
  obtains wake p' sent logs where "tick store now p = Some (wake, p', sent, logs)"
proof -
  define q where "q = (if \<not> m_armed p then arm now p else p)"
  obtain f g where f: "framesFrom (state store) (live (derive store now (m_timeout q)))
      (proxyState (derive store now (m_timeout q))) (m_counter q) (m_pluginMajor q) (m_pluginMinor q) = Some f"
    and g: "through_wire f = Some g"
    using assms by (rule all_encodable_frames)
  have "\<exists>o1. sendFrame s f = Some o1" for s using g by (rule sendFrame_defined)
  then have "\<exists>r. tick_slots now f ss c = Some r" for ss c
    using tick_slots_iff [of now f ss c] by fastforce
  then obtain r where "tick_slots now f (m_slots q) (m_counter q) = Some r" by blast
  then have "\<exists>r. tick store now p = Some r"
    using f unfolding tick_def q_def [symmetric] by (cases r) (simp add: Let_def store_snapshot_def)
  then show ?thesis using that by auto
qed

lemma zero_encodable: "all_encodable zero_vehicle_state"
  by (simp add: all_encodable_def canproxy_signals_def zero_vehicle_state_def)

lemma thread_step_defined:
  assumes "all_encodable (state store)" "wake \<le> now"
  obtains sent st' where "thread_tick (p, wake) (now, store, sent) st'"
proof -
  obtain wake' p' sent logs where "tick store now p = Some (wake', p', sent, logs)"
    using assms(1) by (rule tick_defined)
  then show ?thesis using that assms(2) by (blast intro: ticks)
qed

text \<open>The slot of an identifier.\<close>

lemma slot_of_id:
  assumes "wf_slots ss" "i \<in> set kOrder"
  obtains s where "s \<in> set ss" "slot_id s = i"
proof -
  have "i \<in> slot_id ` set ss" using assms by (metis wf_slots_def list.set_map)
  then show ?thesis using that by blast
qed

lemma stale_slack: "i \<in> set kOrder \<Longrightarrow> cycle_ns i + 200000000 \<le> stale_ns i"
  by (auto simp: kOrder_ids contract_ids_def canproxy_cycle_ms_def canproxy_stale_ms_def contract_consts)

lemma pub_inv_last:
  assumes "pub_inv t0 es (p, wake)" "i \<in> set kOrder" "i \<noteq> CANPROXY_ID_ASSIST" "es \<noteq> []"
  obtains t where "last_sent i es = Some t" "t0 \<le> t" "wake \<le> t + cycle_ns i"
proof -
  have wf: "wf_slots (m_slots p)" and wake: "wake = next_deadline (m_slots p)"
    and slots: "\<forall>s \<in> set (m_slots p). slot_inv t0 es s"
    using assms(1) by (simp_all add: pub_inv_def)
  obtain s where s: "s \<in> set (m_slots p)" "slot_id s = i" using wf assms(2) by (rule slot_of_id)
  then have "slot_inv t0 es s" using slots by blast
  then obtain t where "last_sent i es = Some t" "t0 \<le> t" "slot_due s \<le> t + slot_cycle s"
    using s(2) assms(3,4) by (auto simp: slot_inv_def split: option.splits)
  moreover have "wake \<le> slot_due s" using wake next_deadline_le s(1) by simp
  moreover have "slot_cycle s = cycle_ns i" using wf_slot_cycle [OF wf s(1)] s(2) by simp
  ultimately show ?thesis by (intro that [of t]) simp_all
qed

text \<open>The rolling counters of the status frames of a run.\<close>

definition status_counters :: "(int \<times> Snapshot \<times> (u32 \<times> bytes) list) list \<Rightarrow> u8 list" where
  "status_counters es =
     concat (map (\<lambda>(now, _, sent). map (\<lambda>(i, d). d ! 2) (filter (\<lambda>(i, d). i = CANPROXY_ID_STATUS) sent)) es)"

lemma status_counters_simps [simp]:
  "status_counters [] = []"
  "status_counters (es @ [(now, store, sent)]) =
    status_counters es @ map (\<lambda>(i, d). d ! 2) (filter (\<lambda>(i, d). i = CANPROXY_ID_STATUS) sent)"
  by (simp_all add: status_counters_def)

lemma filter_key_distinct:
  "distinct (map fst xs) \<Longrightarrow> (i, d) \<in> set xs \<Longrightarrow> filter (\<lambda>(j, e). j = i) xs = [(i, d)]"
proof (induction xs)
  case (Cons x xs)
  have "filter (\<lambda>(j, e). j = i) ys = []" if "i \<notin> fst ` set ys" for ys :: "('a \<times> 'b) list"
    using that by (induction ys) auto
  then show ?case using Cons by (cases x) (auto simp: rev_image_eqI)
qed simp

lemma status_frame_counter:
  assumes "sendFrame s f = Some [(i, d)]" "slot_id s = i" "i = CANPROXY_ID_STATUS"
  shows "canproxy_pack_status (f_status f) = Some d"
  using assms by (auto simp: sendFrame_def Let_def)

lemma pack_status_counter: "canproxy_pack_status s = Some d \<Longrightarrow> d ! 2 = counter s \<and> d ! 3 = proxy_state s"
  by (auto simp: canproxy_pack_status_def read_back)

lemma sent_counters:
  assumes "tick store now p = Some (wake, p', sent, logs)" "m_armed p" "wf_slots (m_slots p)"
  shows "map (\<lambda>(i, d). d ! 2) (filter (\<lambda>(i, d). i = CANPROXY_ID_STATUS) sent) =
    (if CANPROXY_ID_STATUS \<in> fst ` set sent then [m_counter p] else [])"
proof (cases "CANPROXY_ID_STATUS \<in> fst ` set sent")
  case True
  then obtain d where d: "(CANPROXY_ID_STATUS, d) \<in> set sent" by auto
  obtain s f where "slot_id s = CANPROXY_ID_STATUS" "sendFrame s f = Some [(CANPROXY_ID_STATUS, d)]"
    and f: "framesFrom (state store) (live (derive store now (m_timeout p)))
      (proxyState (derive store now (m_timeout p))) (m_counter p) (m_pluginMajor p) (m_pluginMinor p) = Some f"
    using assms(1,2) d by (rule sent_frame)
  then have "canproxy_pack_status (f_status f) = Some d" by (intro status_frame_counter) simp_all
  moreover have "counter (f_status f) = m_counter p" using f by (rule framesFrom_cases) simp
  ultimately have "d ! 2 = m_counter p" using pack_status_counter by simp
  then show ?thesis
    using filter_key_distinct [OF tick_sent(1) [OF assms] d] True by simp
next
  case False
  then have "filter (\<lambda>(i, d). i = CANPROXY_ID_STATUS) sent = []" by (force simp: filter_empty_conv)
  then show ?thesis using False by simp
qed

lemma status_counters_run:
  assumes "thread_run (thread_start t0 (Publisher_new timeout ma mi)) es st"
  shows "status_counters es = map of_nat [0..<sent_count CANPROXY_ID_STATUS es]"
  using assms
proof (induction "thread_start t0 (Publisher_new timeout ma mi)" es st rule: thread_run.induct)
  case (run_snoc es st e st')
  obtain p wake now store sent p' wake' where eq: "st = (p, wake)" "e = (now, store, sent)" "st' = (p', wake')"
    by (metis prod.exhaust)
  have inv: "pub_inv t0 es (p, wake)" using pub_inv_run run_snoc.hyps(1) eq by blast
  obtain logs where t: "tick store now p = Some (wake', p', sent, logs)"
    using run_snoc.hyps(3) eq by (auto elim: thread_tickE)
  show ?case
    using sent_counters [OF t] inv run_snoc.hyps(2) by (simp add: eq pub_inv_def)
qed simp

section \<open>Properties\<close>

text \<open>
  C3: In every run of the publishing thread, whatever the plugin does to the store and however late
  the ticks are, each wake-up less than 200 ms late finds every mandatory frame sent within its
  staleness window: a consumer never sees a mandatory frame go stale.
\<close>

theorem frames_never_stale:
  assumes run: "thread_run (thread_start t0 (Publisher_new timeout ma mi)) es (p, wake)"
    and tick: "thread_tick (p, wake) (now, store, sent) st'" and late: "now < wake + 200000000"
    and i: "i \<in> set kOrder" "i \<noteq> CANPROXY_ID_ASSIST" and es: "es \<noteq> []"
  shows "\<exists>t. last_sent i es = Some t \<and> t0 \<le> t \<and> now - t < stale_ns i"
proof -
  obtain t where "last_sent i es = Some t" "t0 \<le> t" "wake \<le> t + cycle_ns i"
    using pub_inv_last [OF pub_inv_run [OF run] i es] .
  then show ?thesis using late stale_slack [OF i(1)] by auto
qed

text \<open>A run of one tick at 0, and the tick at the deadline it returned.\<close>

lemma sample_run:
  obtains sent p wake sent' st' where
    "thread_run (thread_start 0 (Publisher_new 2000000000 1 0)) [(0, StateStore_init, sent)] (p, wake)"
    "thread_tick (p, wake) (wake, StateStore_init, sent') st'"
proof -
  have enc: "all_encodable (state StateStore_init)" by (simp add: StateStore_init_def zero_encodable)
  let ?st = "thread_start 0 (Publisher_new 2000000000 1 0)"
  obtain sent st where st: "thread_tick ?st (0, StateStore_init, sent) st"
    using thread_step_defined [OF enc, of 0 0 "fst ?st"] by (auto simp: thread_start_def)
  obtain p wake where pw: "st = (p, wake)" by fastforce
  obtain sent' st' where "thread_tick (p, wake) (wake, StateStore_init, sent') st'"
    using thread_step_defined [OF enc order_refl] .
  moreover have "thread_run ?st ([] @ [(0, StateStore_init, sent)]) (p, wake)"
    using st unfolding pw by (rule run_snoc [OF run_nil])
  ultimately show ?thesis using that by simp
qed

theorem frames_never_stale_witness:
  "\<exists>es p wake sent st' t.
    thread_run (thread_start 0 (Publisher_new 2000000000 1 0)) es (p, wake) \<and> es \<noteq> [] \<and>
    thread_tick (p, wake) (wake, StateStore_init, sent) st' \<and>
    last_sent CANPROXY_ID_MOTION es = Some t \<and> wake - t < 250000000"
proof -
  obtain sent p wake sent' st' where
    r: "thread_run (thread_start 0 (Publisher_new 2000000000 1 0)) [(0, StateStore_init, sent)] (p, wake)"
      "thread_tick (p, wake) (wake, StateStore_init, sent') st'"
    by (rule sample_run)
  have "CANPROXY_ID_MOTION \<in> set kOrder" "CANPROXY_ID_MOTION \<noteq> CANPROXY_ID_ASSIST"
    "stale_ns CANPROXY_ID_MOTION = 250000000"
    by (simp_all add: kOrder_def canproxy_stale_ms_def contract_consts)
  then show ?thesis
    using r frames_never_stale [OF r] by fastforce
qed


text \<open>
  C18: The status frames of a run carry a rolling counter: the \<open>k\<close>-th one holds \<open>k\<close> modulo 256, from 0,
  with no gap and no repetition.
\<close>

theorem status_counter_rolls:
  assumes "thread_run (thread_start t0 (Publisher_new timeout ma mi)) es st"
  shows "status_counters es = map of_nat [0..<sent_count CANPROXY_ID_STATUS es]"
  using assms by (rule status_counters_run)


theorem status_counter_rolls_witness:
  "\<exists>es st. thread_run (thread_start 0 (Publisher_new 2000000000 1 0)) es st \<and> es \<noteq> [] \<and>
    status_counters es = [0]"
proof -
  obtain sent p wake sent' st' where
    r: "thread_run (thread_start 0 (Publisher_new 2000000000 1 0)) [(0, StateStore_init, sent)] (p, wake)"
      "thread_tick (p, wake) (wake, StateStore_init, sent') st'"
    by (rule sample_run)
  have i: "CANPROXY_ID_STATUS \<in> set kOrder" "CANPROXY_ID_STATUS \<noteq> CANPROXY_ID_ASSIST"
    by (simp_all add: kOrder_def contract_consts)
  obtain t where t: "last_sent CANPROXY_ID_STATUS [(0, StateStore_init, sent)] = Some t"
    using pub_inv_last [OF pub_inv_run [OF r(1)] i] by blast
  then have "sent_count CANPROXY_ID_STATUS [(0, StateStore_init, sent)] = 1"
    by (auto simp: last_sent_def sent_count_def split: if_splits)
  then show ?thesis
    using r(1) status_counter_rolls [OF r(1)] by fastforce
qed

text \<open>The frames of a vehicle of which nothing is known.\<close>

definition silent_frames :: "(u32 \<times> bytes) list" where
  "silent_frames =
     [(CANPROXY_ID_MOTION, [0xFF, 0xFF, 0xFF, 0xFF, 0xFF, 0xFF, 0, 0]),
      (CANPROXY_ID_EDRIVE, [0, 0x80, 0xFF, 0xFF, 0, 0x80, 0, 0]),
      (CANPROXY_ID_TELLTALES, [0, 0, 0, 0, 0, 0, 0, 0]),
      (CANPROXY_ID_ENERGY, [0xFF, 0xFF, 0xFF, 0xFF, 0, 0x80, 0xFF, 0]),
      (CANPROXY_ID_TRIP, [0xFF, 0xFF, 0xFF, 0xFF, 0x80, 0x80, 0, 0]),
      (CANPROXY_ID_THERMAL, [0x80, 0xFF, 0xFF, 0xFF, 0, 0, 0, 0]),
      (CANPROXY_ID_ASSIST, [0xFF, 0xFF, 0xFF, 0xFF, 0xFF, 0xFF, 0, 0])]"

lemma silent_tick:
  assumes tick: "tick store now p = Some (wake, p', sent, logs)" "m_armed p" "(i, d) \<in> set sent"
    and silent: "snap_link store \<noteq> Some True \<or> (\<forall>s t. snap_said store = Some (s, t) \<longrightarrow> m_timeout p < now - t)"
  shows "i = CANPROXY_ID_STATUS \<and> d ! 3 \<noteq> CANPROXY_STATE_OK \<or> i = CANPROXY_ID_IDENTITY \<or>
    (i, d) \<in> set silent_frames"
proof -
  let ?dv = "derive store now (m_timeout p)"
  obtain s f where s: "slot_id s = i" "sendFrame s f = Some [(i, d)]"
    and f: "framesFrom (state store) (live ?dv) (proxyState ?dv) (m_counter p) (m_pluginMajor p) (m_pluginMinor p) = Some f"
    using tick by (rule sent_frame)
  have dead: "live ?dv = False"
    using silent by (auto simp: derive_live)
  have "proxyState ?dv \<noteq> CANPROXY_STATE_OK"
    using silent by (auto simp: derive_state contract_consts split: option.splits bool.splits)
  moreover have "proxy_state (f_status f) = proxyState ?dv"
    using f by (rule framesFrom_cases) simp
  ultimately have "canproxy_pack_status (f_status f) = Some d \<Longrightarrow> d ! 3 \<noteq> CANPROXY_STATE_OK"
    using pack_status_counter by metis
  then show ?thesis
    using s not_live_frames [OF f [unfolded dead]]
    by (auto simp: sendFrame_def Let_def silent_frames_def split: if_splits)
qed

text \<open>
  C14: Once the plugin has been silent for longer than its timeout, or the link is down or unknown,
  every signal frame of a tick is the SNA frame of its kind, and the status frame does not say OK.
\<close>

theorem silent_vehicle_sends_SNA:
  assumes tick: "tick store now p = Some (wake, p', sent, logs)" "m_armed p" "(i, d) \<in> set sent"
    and silent: "snap_link store \<noteq> Some True \<or> (\<forall>s t. snap_said store = Some (s, t) \<longrightarrow> m_timeout p < now - t)"
  shows "i = CANPROXY_ID_STATUS \<and> d ! 3 \<noteq> CANPROXY_STATE_OK \<or> i = CANPROXY_ID_IDENTITY \<or>
    (i, d) \<in> set silent_frames"
  using assms by (rule silent_tick)

theorem silent_vehicle_sends_SNA_witness:
  "\<exists>wake p' sent logs. tick StateStore_init 5 (arm 0 (Publisher_new 1000 1 0)) = Some (wake, p', sent, logs) \<and>
    (CANPROXY_ID_MOTION, [0xFF, 0xFF, 0xFF, 0xFF, 0xFF, 0xFF, 0, 0]) \<in> set sent"
proof -
  let ?p = "arm 0 (Publisher_new 1000 1 0)"
  have armed: "m_armed ?p" and wf: "wf_slots (m_slots ?p)" by (simp add: arm_def) (rule wf_arm [OF wf_new])
  have "all_encodable (state StateStore_init)" by (simp add: StateStore_init_def zero_encodable)
  then obtain wake p' sent logs where t: "tick StateStore_init 5 ?p = Some (wake, p', sent, logs)"
    by (rule tick_defined)
  have "CANPROXY_ID_MOTION \<in> set kOrder" by (simp add: kOrder_def)
  with wf obtain s where s: "s \<in> set (m_slots ?p)" "slot_id s = CANPROXY_ID_MOTION" by (rule slot_of_id)
  then have "slot_due s \<le> 5" by (auto simp: arm_def)
  then obtain d where d: "(CANPROXY_ID_MOTION, d) \<in> set sent"
    using tick_sent(4) [OF t armed wf s(1)] s(2) by (auto simp: contract_consts)
  have "snap_link StateStore_init \<noteq> Some True" by (simp add: store_defs)
  then show ?thesis
    using t d silent_vehicle_sends_SNA [OF t armed d] by (auto simp: silent_frames_def contract_consts)
qed

text \<open>What a consumer decodes from a frame, as part of a decoded set.\<close>

definition decodes_to :: "u32 \<Rightarrow> bytes \<Rightarrow> Frames \<Rightarrow> bool" where
  "decodes_to i d g \<longleftrightarrow>
     (if i = CANPROXY_ID_STATUS then canproxy_unpack_status d = f_status g
      else if i = CANPROXY_ID_IDENTITY then canproxy_unpack_identity d = f_identity g
      else if i = CANPROXY_ID_MOTION then canproxy_unpack_motion d = f_motion g
      else if i = CANPROXY_ID_EDRIVE then canproxy_unpack_edrive d = f_edrive g
      else if i = CANPROXY_ID_TELLTALES then canproxy_unpack_telltales d = f_telltales g
      else if i = CANPROXY_ID_ENERGY then canproxy_unpack_energy d = f_energy g
      else if i = CANPROXY_ID_TRIP then canproxy_unpack_trip d = f_trip g
      else if i = CANPROXY_ID_THERMAL then canproxy_unpack_thermal d = f_thermal g
      else i = CANPROXY_ID_ASSIST \<and> canproxy_unpack_assist d = f_assist g)"

lemma sent_decodes:
  assumes "slot_id s = i" "sendFrame s f = Some [(i, d)]" "through_wire f = Some g"
  shows "decodes_to i d g"
proof -
  have "canproxy_pack_status (f_status f) = Some d \<Longrightarrow> canproxy_unpack_status d = f_status g"
    "canproxy_pack_identity (f_identity f) = Some d \<Longrightarrow> canproxy_unpack_identity d = f_identity g"
    "canproxy_pack_motion (f_motion f) = Some d \<Longrightarrow> canproxy_unpack_motion d = f_motion g"
    "canproxy_pack_edrive (f_edrive f) = Some d \<Longrightarrow> canproxy_unpack_edrive d = f_edrive g"
    "canproxy_pack_telltales (f_telltales f) = Some d \<Longrightarrow> canproxy_unpack_telltales d = f_telltales g"
    "canproxy_pack_energy (f_energy f) = Some d \<Longrightarrow> canproxy_unpack_energy d = f_energy g"
    "canproxy_pack_trip (f_trip f) = Some d \<Longrightarrow> canproxy_unpack_trip d = f_trip g"
    "canproxy_pack_thermal (f_thermal f) = Some d \<Longrightarrow> canproxy_unpack_thermal d = f_thermal g"
    "canproxy_pack_assist (f_assist f) = Some d \<Longrightarrow> canproxy_unpack_assist d = f_assist g"
    using assms(3) by (auto simp: through_wire_def split: bind_splits)
  then show ?thesis
    using assms(1,2) by (auto simp: sendFrame_def decodes_to_def Let_def split: if_splits)
qed

text \<open>Frames were sent at the time of their tick, which is before any later deadline.\<close>

lemma tick_deadline_later:
  assumes inv: "pub_inv t0 es (p, wake)" and tick: "tick store now p = Some (wake', p', sent, logs)"
  shows "now \<le> wake'"
proof -
  have wf: "wf_slots (m_slots p)" and armed: "m_armed p" using inv by (simp_all add: pub_inv_def)
  note slots = tick_cases(1,2) [OF tick armed]
  have "now \<le> slot_due (after_tick now s)" if "s \<in> set (m_slots p)" for s
    using next_due_bounds(1) [of s now] wf_slot_cycle [OF wf that] by (auto simp: after_tick_def)
  moreover have "m_slots p' \<noteq> []" using slots(1) wf by (auto simp: wf_slots_def kOrder_def)
  ultimately show ?thesis using next_deadline_mem [of "m_slots p'"] slots by auto
qed

lemma run_times:
  assumes "thread_run (thread_start t0 (Publisher_new timeout ma mi)) es st"
  shows "\<forall>(now, _, _) \<in> set es. now \<le> snd st"
  using assms
proof (induction "thread_start t0 (Publisher_new timeout ma mi)" es st rule: thread_run.induct)
  case (run_snoc es st e st')
  obtain p wake now store sent p' wake' where eq: "st = (p, wake)" "e = (now, store, sent)" "st' = (p', wake')"
    by (metis prod.exhaust)
  have inv: "pub_inv t0 es (p, wake)" using pub_inv_run run_snoc.hyps(1) eq by blast
  obtain logs where t: "tick store now p = Some (wake', p', sent, logs)" "wake \<le> now"
    using run_snoc.hyps(3) eq by (auto elim: thread_tickE)
  show ?case
    using tick_deadline_later [OF inv t(1)] t(2) run_snoc.hyps(2) by (auto simp: eq)
qed simp

lemma last_sent_times:
  assumes "thread_run st0 es st" "last_sent i es = Some t"
  shows "t \<in> (\<lambda>(now, _, _). now) ` set es"
  using assms by (induction rule: thread_run.induct) (auto split: if_splits)

lemma sendFrame_same_id: "slot_id r = slot_id s \<Longrightarrow> sendFrame r f = sendFrame s f"
  by (simp only: sendFrame_def)

definition advertises_assist :: "canproxy_vehicle_state \<Rightarrow> bool" where
  "advertises_assist s \<longleftrightarrow> (\<exists>sig \<in> {CANPROXY_SIG_ECO_SCORE, CANPROXY_SIG_SPEED_LIMIT, CANPROXY_SIG_COLLISION_RISK,
     CANPROXY_SIG_LANE_STATE, CANPROXY_SIG_LEAD_GAP}. bit (s_capable s) (sig_index sig))"

lemma assist_capability: "capabilitiesFrom (s_capable s) AND CANPROXY_CAP_ASSIST \<noteq> 0 \<longleftrightarrow> advertises_assist s"
proof -
  have "bit (capabilityBitFor sig) 17 \<longleftrightarrow> sig \<in> {CANPROXY_SIG_ECO_SCORE, CANPROXY_SIG_SPEED_LIMIT,
      CANPROXY_SIG_COLLISION_RISK, CANPROXY_SIG_LANE_STATE, CANPROXY_SIG_LEAD_GAP}" for sig
    by (cases sig) (simp_all add: contract_consts)
  moreover have "\<not> bit (capabilityBitFor CANPROXY_SIG_COUNT) 17" by simp
  ultimately have "bit (capabilitiesFrom (s_capable s)) 17 \<longleftrightarrow> advertises_assist s"
    unfolding bit_capabilitiesFrom advertises_assist_def by blast
  then show ?thesis
    unfolding CANPROXY_CAP_ASSIST_def using and_push_bit_1 [of 17 "capabilitiesFrom (s_capable s)"] by simp
qed

text \<open>
  The optional assist frame is sent only while the plugin advertises at least one assist signal,
  and it is sent whenever it is due and one is advertised.
\<close>

lemma assist_only_if_advertised:
  assumes tick: "tick store now p = Some (wake, p', sent, logs)" "m_armed p" "wf_slots (m_slots p)"
    and s: "s \<in> set (m_slots p)" "slot_id s = CANPROXY_ID_ASSIST"
  shows "CANPROXY_ID_ASSIST \<in> fst ` set sent \<longleftrightarrow> slot_due s \<le> now \<and> advertises_assist (state store)"
proof (cases "slot_due s \<le> now")
  case False
  have "CANPROXY_ID_ASSIST \<notin> fst ` set sent"
    using tick_sent(3) [OF tick, of CANPROXY_ID_ASSIST] slot_unique [OF tick(3) s(1)] s(2) False by fastforce
  then show ?thesis using False by simp
next
  case True
  then have "\<exists>s \<in> set (m_slots p). slot_due s \<le> now" using s(1) by blast
  from tick_cases(8) [OF tick(1,2) this]
  obtain f where f: "framesFrom (state store) (live (derive store now (m_timeout p)))
      (proxyState (derive store now (m_timeout p))) (m_counter p) (m_pluginMajor p) (m_pluginMinor p) = Some f"
    and ok: "\<forall>s \<in> set (filter (\<lambda>s. slot_due s \<le> now) (m_slots p)). sendFrame s f \<noteq> None"
    and sent: "sent = concat (map (\<lambda>s. the (sendFrame s f)) (filter (\<lambda>s. slot_due s \<le> now) (m_slots p)))"
    by (elim exE conjE)
  have caps: "capabilities (f_status f) = capabilitiesFrom (s_capable (state store))"
    using f by (rule framesFrom_cases) simp
  obtain o1 where o1: "sendFrame s f = Some o1" using ok s(1) True by auto
  have "CANPROXY_ID_ASSIST \<in> fst ` set sent \<longleftrightarrow> o1 \<noteq> []"
  proof
    assume "CANPROXY_ID_ASSIST \<in> fst ` set sent"
    then obtain d where d: "(CANPROXY_ID_ASSIST, d) \<in> set sent" by auto
    obtain r f' where r: "slot_id r = CANPROXY_ID_ASSIST" "sendFrame r f' = Some [(CANPROXY_ID_ASSIST, d)]"
      and "framesFrom (state store) (live (derive store now (m_timeout p)))
      (proxyState (derive store now (m_timeout p))) (m_counter p) (m_pluginMajor p) (m_pluginMinor p) = Some f'"
      using tick(1,2) d by (rule sent_frame)
    then have "f' = f" using f by simp
    then have "sendFrame s f = Some [(CANPROXY_ID_ASSIST, d)]"
      using r(2) sendFrame_same_id [of r s f] r(1) s(2) by simp
    then show "o1 \<noteq> []" using o1 by simp
  next
    assume "o1 \<noteq> []"
    from o1 have "slot_id s \<in> fst ` set o1" by (rule sendFrame_cases) (use \<open>o1 \<noteq> []\<close> in auto)
    then show "CANPROXY_ID_ASSIST \<in> fst ` set sent"
      using s True o1 unfolding sent by force
  qed
  also have "o1 \<noteq> [] \<longleftrightarrow> capabilitiesFrom (s_capable (state store)) AND CANPROXY_CAP_ASSIST \<noteq> 0"
    using o1 s(2) by (auto simp: sendFrame_def Let_def caps contract_consts split: if_splits)
  finally show ?thesis using True assist_capability by simp
qed

lemma assist_only_if_advertised_witness:
  "\<exists>wake p' sent logs. tick StateStore_init 5 (arm 0 (Publisher_new 1000 1 0)) = Some (wake, p', sent, logs) \<and>
    CANPROXY_ID_ASSIST \<notin> fst ` set sent"
proof -
  let ?p = "arm 0 (Publisher_new 1000 1 0)"
  have armed: "m_armed ?p" and wf: "wf_slots (m_slots ?p)" by (simp add: arm_def) (rule wf_arm [OF wf_new])
  have "all_encodable (state StateStore_init)" by (simp add: StateStore_init_def zero_encodable)
  then obtain wake p' sent logs where t: "tick StateStore_init 5 ?p = Some (wake, p', sent, logs)"
    by (rule tick_defined)
  have "CANPROXY_ID_ASSIST \<in> set kOrder" by (simp add: kOrder_def)
  with wf obtain s where s: "s \<in> set (m_slots ?p)" "slot_id s = CANPROXY_ID_ASSIST" by (rule slot_of_id)
  have "\<not> advertises_assist (state StateStore_init)"
    by (simp add: advertises_assist_def StateStore_init_def zero_vehicle_state_def)
  then show ?thesis
    using t assist_only_if_advertised [OF t armed wf s] by auto
qed

lemma snapshot_sent:
  assumes tick: "tick store now p = Some (wake, p', sent, logs)" "m_armed p"
    and enc: "all_encodable (state store)"
  shows "\<exists>f g. framesFrom (state store) (live (derive store now (m_timeout p)))
      (proxyState (derive store now (m_timeout p))) (m_counter p) (m_pluginMajor p) (m_pluginMinor p) = Some f \<and>
    through_wire f = Some g \<and> (\<forall>(i, d) \<in> set sent. decodes_to i d g)"
proof -
  obtain f g where f: "framesFrom (state store) (live (derive store now (m_timeout p)))
      (proxyState (derive store now (m_timeout p))) (m_counter p) (m_pluginMajor p) (m_pluginMinor p) = Some f"
    and g: "through_wire f = Some g"
    using enc by (rule all_encodable_frames)
  have "decodes_to i d g" if sent: "(i, d) \<in> set sent" for i d
  proof -
    obtain s f' where "slot_id s = i" "sendFrame s f' = Some [(i, d)]"
      and "framesFrom (state store) (live (derive store now (m_timeout p)))
      (proxyState (derive store now (m_timeout p))) (m_counter p) (m_pluginMajor p) (m_pluginMinor p) = Some f'"
      using tick(1,2) sent by (rule sent_frame)
    then show ?thesis using f g sent_decodes by simp
  qed
  then show ?thesis using f g by blast
qed

text \<open>
  C13: What the consumer gets is what the snapshot says: each frame of a tick decodes to the same part
  of one set of frames, the one built from the store's state with the live flag, the proxy state
  and the counter of that tick.
\<close>

theorem tick_sends_the_snapshot:
  assumes tick: "tick store now p = Some (wake, p', sent, logs)" "m_armed p" "sent \<noteq> []"
    and enc: "all_encodable (state store)"
  shows "\<exists>f g. framesFrom (state store) (live (derive store now (m_timeout p)))
      (proxyState (derive store now (m_timeout p))) (m_counter p) (m_pluginMajor p) (m_pluginMinor p) = Some f \<and>
    through_wire f = Some g \<and> (\<forall>(i, d) \<in> set sent. decodes_to i d g)"
  by (rule snapshot_sent [OF tick(1,2) enc])

theorem tick_sends_the_snapshot_witness:
  "\<exists>wake p' sent logs (g :: Frames). tick (StateStore_init\<lparr> state := sample_state \<rparr>) 5 (arm 0 (Publisher_new 1000 1 0)) =
      Some (wake, p', sent, logs) \<and> (\<exists>d. (CANPROXY_ID_MOTION, d) \<in> set sent \<and> canproxy_unpack_motion d = f_motion g)"
proof -
  let ?p = "arm 0 (Publisher_new 1000 1 0)" and ?st = "StateStore_init\<lparr> state := sample_state \<rparr>"
  have armed: "m_armed ?p" and wf: "wf_slots (m_slots ?p)" by (simp add: arm_def) (rule wf_arm [OF wf_new])
  have enc: "all_encodable (state ?st)" by (simp add: sample_encodable)
  then obtain wake p' sent logs where t: "tick ?st 5 ?p = Some (wake, p', sent, logs)"
    by (rule tick_defined)
  have "CANPROXY_ID_MOTION \<in> set kOrder" by (simp add: kOrder_def)
  with wf obtain s where s: "s \<in> set (m_slots ?p)" "slot_id s = CANPROXY_ID_MOTION" by (rule slot_of_id)
  then have "slot_due s \<le> 5" by (auto simp: arm_def)
  then obtain d where d: "(CANPROXY_ID_MOTION, d) \<in> set sent"
    using tick_sent(4) [OF t armed wf s(1)] s(2) by (auto simp: contract_consts)
  then have "sent \<noteq> []" by auto
  then obtain f g where "through_wire f = Some g" "\<forall>(i, d) \<in> set sent. decodes_to i d g"
    using tick_sends_the_snapshot [OF t armed _ enc] by blast
  then have "decodes_to CANPROXY_ID_MOTION d g" using d by blast
  then have "canproxy_unpack_motion d = f_motion g" by (simp add: decodes_to_def contract_consts)
  with t d show ?thesis by (intro exI conjI)
qed

text \<open>The thread never gets stuck, whatever the store holds, as long as its numbers can be packed.\<close>

lemma thread_steps_on:
  assumes run: "thread_run (thread_start t0 (Publisher_new timeout ma mi)) es (p, wake)"
    and enc: "all_encodable (state store)" and now: "wake \<le> now"
  shows "\<exists>sent p' wake'. thread_tick (p, wake) (now, store, sent) (p', wake') \<and>
    now \<le> wake' \<and> wake' \<le> now + 50000000"
proof -
  have inv: "pub_inv t0 es (p, wake)" using run by (rule pub_inv_run)
  obtain wake' p' sent logs where t: "tick store now p = Some (wake', p', sent, logs)"
    using enc by (rule tick_defined)
  then have step: "thread_tick (p, wake) (now, store, sent) (p', wake')" using now by (rule ticks [rotated])
  have inv': "pub_inv t0 (es @ [(now, store, sent)]) (p', wake')" using inv step by (rule pub_inv_tick)
  have "now \<le> wake'" using inv t by (rule tick_deadline_later)
  moreover have "wake' \<le> now + 50000000"
  proof -
    have i: "CANPROXY_ID_MOTION \<in> set kOrder" "cycle_ns CANPROXY_ID_MOTION = 50000000"
      by (simp_all add: kOrder_def canproxy_cycle_ms_def contract_consts)
    have "CANPROXY_ID_MOTION \<noteq> CANPROXY_ID_ASSIST" by (simp add: contract_consts)
    then obtain t where l: "last_sent CANPROXY_ID_MOTION (es @ [(now, store, sent)]) = Some t"
      and t: "wake' \<le> t + cycle_ns CANPROXY_ID_MOTION"
      by (rule pub_inv_last [OF inv' i(1)]) simp_all
    have "thread_run (thread_start t0 (Publisher_new timeout ma mi)) (es @ [(now, store, sent)]) (p', wake')"
      using run step by (rule run_snoc)
    from last_sent_times [OF this l] have "t \<le> now"
      using run_times [OF run] now by auto
    then show ?thesis using t i(2) by simp
  qed
  ultimately show ?thesis using step by blast
qed

end
