(* ===== verification/Daemon.thy ===== *)
theory Daemon
  imports Plugin_Host Can_Socket Publisher
begin

text \<open>
  The daemon, \<^verbatim>\<open>core/main.cpp\<close>: one run of \<open>main\<close>, from the command line to the exit code. What the
  system answers (the bus, the loader, the plugin) is a record; the run is the list of what \<open>main\<close>
  does to the bus, the plugin and the publishing thread, destructors at its end included. The wait
  for a signal has no effect on it: a run here is one that is eventually told to stop.
\<close>

section \<open>A run of main\<close>

datatype action = BusOpen bool | BusClose | PubStart | PubStop | Plugin call

record answers =
  a_bus :: open_step
  a_library :: library
  a_create :: bool
  a_start :: int

record run =
  r_host :: PluginHost
  r_bus :: CanSocket
  r_acts :: "action list"

definition run_start :: run where
  "run_start = \<lparr> r_host = PluginHost_new, r_bus = \<lparr> sock_open = False, sock_closed = 0 \<rparr>, r_acts = [] \<rparr>"

text \<open>An operation on the plugin host adds the calls it made.\<close>

definition on_host :: "(PluginHost \<Rightarrow> PluginHost) \<Rightarrow> run \<Rightarrow> run" where
  "on_host f r = (
     let h = f (r_host r)
     in r\<lparr> r_host := h, r_acts := r_acts r @ map Plugin (drop (length (m_calls (r_host r))) (m_calls h)) \<rparr>)"

definition act :: "action \<Rightarrow> run \<Rightarrow> run" where
  "act a r = r\<lparr> r_acts := r_acts r @ [a] \<rparr>"

text \<open>Leaving the scope of \<open>main\<close>: \<open>~PluginHost\<close> unloads, \<open>~CanSocket\<close> closes the bus.\<close>

definition leave_bus :: "run \<Rightarrow> run" where
  "leave_bus r = (if sock_open (r_bus r) then act BusClose (r\<lparr> r_bus := CanSocket_close (r_bus r) \<rparr>) else r)"

definition leave :: "run \<Rightarrow> run" where
  "leave r = leave_bus (on_host host_unload r)"

definition daemon_main :: "string \<Rightarrow> string option \<Rightarrow> string list \<Rightarrow> answers \<Rightarrow> int \<times> run" where
  "daemon_main default_dir env argv w = (
     let (err, cfg) = Config_parse default_dir env argv; r = run_start
     in if help_wanted cfg then (0, r)
        else if err \<noteq> [] then (2, r)
        else (
          let (e, bus) = CanSocket_open (contractIf cfg) (a_bus w) (r_bus r);
              r = act (BusOpen (e = [])) (r\<lparr> r_bus := bus \<rparr>)
          in if e \<noteq> [] then (1, leave_bus r)
             else (
               let path = resolvePluginPath cfg;
                   e = fst (host_load path (a_library w) (r_host r));
                   r = on_host (\<lambda>h. snd (host_load path (a_library w) h)) r
               in if e \<noteq> [] then (1, leave r)
                  else (
                    let e = fst (host_create (vehicleIf cfg) (pluginArgs cfg) (a_create w) (r_host r));
                        r = on_host (\<lambda>h. snd (host_create (vehicleIf cfg) (pluginArgs cfg) (a_create w) h)) r
                    in if e \<noteq> [] then (1, leave r)
                       else (
                         let r = act PubStart r;
                             e = fst (host_start (a_start w) (r_host r));
                             r = on_host (\<lambda>h. snd (host_start (a_start w) h)) r
                         in if e \<noteq> [] then (1, leave (act PubStop r))
                            else (0, leave (on_host host_unload (act PubStop (on_host host_stop r)))))))))"

text \<open>The publisher the daemon runs, and what its sink puts on the bus.\<close>

definition daemon_publisher :: "Config \<Rightarrow> canproxy_plugin \<Rightarrow> Publisher" where
  "daemon_publisher cfg p =
     Publisher_new (uint (pluginTimeoutMs cfg) * 1000000) (version_major p) (version_minor p)"

definition daemon_sink :: "CanSocket \<Rightarrow> (u32 \<times> bytes) list \<Rightarrow> can_frame option list" where
  "daemon_sink bus sent = map (\<lambda>(i, d). CanSocket_frame bus i d) sent"

section \<open>The order of a run\<close>

text \<open>
  What a run must respect: the heartbeat is on before the plugin starts and off only once the plugin
  is not running; the plugin is destroyed and its library closed after the heartbeat is off; the bus
  is open throughout and closed last.
\<close>

record daemon_state =
  d_bus :: bool
  d_pub :: bool
  d_phase :: phase

fun daemon_step :: "daemon_state \<Rightarrow> action \<Rightarrow> daemon_state option" where
  "daemon_step st (BusOpen ok) = (if d_bus st then None else Some (st\<lparr> d_bus := ok \<rparr>))"
| "daemon_step st BusClose = (if d_bus st \<and> \<not> d_pub st \<and> d_phase st = Closed then Some (st\<lparr> d_bus := False \<rparr>) else None)"
| "daemon_step st PubStart = (if d_bus st \<and> \<not> d_pub st then Some (st\<lparr> d_pub := True \<rparr>) else None)"
| "daemon_step st PubStop = (if d_pub st \<and> d_phase st \<noteq> Running then Some (st\<lparr> d_pub := False \<rparr>) else None)"
| "daemon_step st (Plugin c) =
     (if d_bus st \<and> (case c of Start _ \<Rightarrow> d_pub st | Destroy \<Rightarrow> \<not> d_pub st | Dlclose \<Rightarrow> \<not> d_pub st | _ \<Rightarrow> True)
      then map_option (\<lambda>ph. st\<lparr> d_phase := ph \<rparr>) (life_step (d_phase st) c) else None)"

fun daemon_trace :: "daemon_state \<Rightarrow> action list \<Rightarrow> daemon_state option" where
  "daemon_trace st [] = Some st"
| "daemon_trace st (a # as) = (case daemon_step st a of None \<Rightarrow> None | Some st' \<Rightarrow> daemon_trace st' as)"

definition daemon_idle :: daemon_state where
  "daemon_idle = \<lparr> d_bus = False, d_pub = False, d_phase = Closed \<rparr>"

lemma daemon_trace_append:
  "daemon_trace st (as @ bs) = (case daemon_trace st as of None \<Rightarrow> None | Some st' \<Rightarrow> daemon_trace st' bs)"
  by (induction as arbitrary: st) (auto split: option.splits)

text \<open>The calls on the plugin among the actions of a run.\<close>

fun plugin_calls :: "action list \<Rightarrow> call list" where
  "plugin_calls [] = []"
| "plugin_calls (Plugin c # as) = c # plugin_calls as"
| "plugin_calls (_ # as) = plugin_calls as"

lemma trace_of_plugin:
  "daemon_trace st as = Some st' \<Longrightarrow> life_run (d_phase st) (plugin_calls as) = Some (d_phase st')"
proof (induction as arbitrary: st)
  case (Cons a as)
  from Cons.prems show ?case by (cases a) (auto split: option.splits if_splits dest!: Cons.IH)
qed simp

text \<open>The calls each host operation may add.\<close>

definition adds :: "(call \<Rightarrow> bool) \<Rightarrow> PluginHost \<Rightarrow> PluginHost \<Rightarrow> bool" where
  "adds P h h' \<longleftrightarrow> (\<exists>cs. m_calls h' = m_calls h @ cs \<and> (\<forall>c \<in> set cs. P c))"

lemma adds_refl: "m_calls h' = m_calls h \<Longrightarrow> adds P h h'"
  by (simp add: adds_def)

lemma adds_call: "m_calls h' = m_calls h @ [c] \<Longrightarrow> P c \<Longrightarrow> adds P h h'"
  by (simp add: adds_def)

lemma adds_trans: "adds P a b \<Longrightarrow> adds P b c \<Longrightarrow> adds P a c"
  unfolding adds_def by force

lemma adds_weaken: "adds P a b \<Longrightarrow> (\<And>c. P c \<Longrightarrow> Q c) \<Longrightarrow> adds Q a b"
  unfolding adds_def by blast

definition starts :: "call \<Rightarrow> bool" where
  "starts c \<longleftrightarrow> (\<exists>rc. c = Start rc)"

definition ends :: "call \<Rightarrow> bool" where
  "ends c \<longleftrightarrow> c = Destroy \<or> c = Dlclose"

lemma adds_stop: "adds (\<lambda>c. \<not> starts c \<and> \<not> ends c) h (host_stop h)"
  by (auto simp: host_stop_def starts_def ends_def intro: adds_refl adds_call)

lemma adds_unload: "adds (\<lambda>c. \<not> starts c) h (host_unload h)"
proof -
  have "adds (\<lambda>c. \<not> starts c) h (host_stop h)"
    by (rule adds_weaken [OF adds_stop]) simp
  moreover have "adds (\<lambda>c. \<not> starts c) (host_stop h) (host_unload h)"
    by (auto simp: host_unload_def Let_def adds_def starts_def)
  ultimately show ?thesis by (rule adds_trans)
qed

lemma adds_load: "adds (\<lambda>c. \<not> starts c) h (snd (host_load path lib h))"
proof -
  let ?u = "host_unload h"
  let ?o = "(called (Dlopen path True) ?u)\<lparr> m_handle := True \<rparr>"
  have o: "adds (\<lambda>c. \<not> starts c) h ?o" "adds (\<lambda>c. \<not> starts c) h (called Entry ?o)"
    "adds (\<lambda>c. \<not> starts c) h (called (Dlopen path False) ?u)"
    by (rule adds_trans [OF adds_unload], force simp: adds_def starts_def)+
  show ?thesis
    using o adds_trans [OF o(1) adds_unload] adds_trans [OF o(2) adds_unload]
    by (auto simp: host_load_def Let_def adds_def split: library.splits)
qed

lemma adds_create: "adds (\<lambda>c. \<not> starts c) h (snd (host_create vif args ok h))"
  by (auto simp: host_create_def Let_def adds_def starts_def split: option.splits)

lemma adds_start: "adds (\<lambda>c. \<not> ends c) h (snd (host_start rc h))"
  by (auto simp: host_start_def Let_def adds_def ends_def)

text \<open>A run so far: its trace is accepted, and the state it leads to is the state of the objects.\<close>

definition run_ok :: "bool \<Rightarrow> run \<Rightarrow> bool" where
  "run_ok pub r \<longleftrightarrow> host_ok (r_host r) \<and>
     daemon_trace daemon_idle (r_acts r) =
       Some \<lparr> d_bus = sock_open (r_bus r), d_pub = pub, d_phase = host_phase (r_host r) \<rparr>"

lemma plugin_trace:
  assumes "life_run (d_phase st) cs = Some ph" "d_bus st"
    and "\<forall>c \<in> set cs. if d_pub st then \<not> ends c else \<not> starts c"
  shows "daemon_trace st (map Plugin cs) = Some (st\<lparr> d_phase := ph \<rparr>)"
  using assms
proof (induction cs arbitrary: st)
  case (Cons c cs)
  then obtain ph' where "life_step (d_phase st) c = Some ph'" "life_run ph' cs = Some ph"
    by (auto split: option.splits)
  then show ?case
    using Cons by (cases c) (auto simp: starts_def ends_def split: if_splits)
qed simp

lemma run_ok_on_host:
  assumes "run_ok pub r" "sock_open (r_bus r)" "host_ok (f (r_host r))"
    and "adds (\<lambda>c. if pub then \<not> ends c else \<not> starts c) (r_host r) (f (r_host r))"
  shows "run_ok pub (on_host f r)"
proof -
  obtain cs where cs: "m_calls (f (r_host r)) = m_calls (r_host r) @ cs"
    "\<forall>c \<in> set cs. if pub then \<not> ends c else \<not> starts c"
    using assms(4) by (auto simp: adds_def)
  have "life_run (host_phase (r_host r)) cs = Some (host_phase (f (r_host r)))"
    using assms(1,3) cs(1) by (auto simp: run_ok_def host_ok_def life_run_append)
  then show ?thesis
    using assms cs by (simp add: run_ok_def on_host_def Let_def daemon_trace_append plugin_trace)
qed

lemma run_ok_bus [simp]: "r_bus (on_host f r) = r_bus r" "r_host (on_host f r) = f (r_host r)"
  "r_bus (act a r) = r_bus r" "r_host (act a r) = r_host r"
  by (simp_all add: on_host_def act_def Let_def)

lemma run_ok_pub_start: "run_ok False r \<Longrightarrow> sock_open (r_bus r) \<Longrightarrow> run_ok True (act PubStart r)"
  by (simp add: run_ok_def act_def daemon_trace_append)

lemma run_ok_pub_stop: "run_ok True r \<Longrightarrow> \<not> m_started (r_host r) \<Longrightarrow> run_ok False (act PubStop r)"
  by (auto simp: run_ok_def act_def daemon_trace_append host_phase_def)

lemma run_ok_leave: "run_ok False r \<Longrightarrow> sock_open (r_bus r) \<Longrightarrow> daemon_trace daemon_idle (r_acts (leave r)) = Some daemon_idle"
proof -
  assume r: "run_ok False r" "sock_open (r_bus r)"
  then have ok: "host_ok (r_host r)" by (simp add: run_ok_def)
  then have "run_ok False (on_host host_unload r)"
    using r host_ok_unload adds_unload by (intro run_ok_on_host) auto
  then show ?thesis
    using host_ok_unload [OF ok] r(2)
    by (simp add: leave_def leave_bus_def run_ok_def act_def daemon_trace_append daemon_idle_def)
qed

section \<open>Properties\<close>

lemma daemon_runs_in_order:
  "daemon_trace daemon_idle (r_acts (snd (daemon_main default_dir env argv w))) = Some daemon_idle"
proof -
  obtain err cfg where p: "Config_parse default_dir env argv = (err, cfg)" by fastforce
  define r1 where "r1 = act (BusOpen True) (run_start\<lparr> r_bus := \<lparr> sock_open = True, sock_closed = 0 \<rparr> \<rparr>)"
  define r2 where "r2 = on_host (\<lambda>h. snd (host_load (resolvePluginPath cfg) (a_library w) h)) r1"
  define r3 where "r3 = on_host (\<lambda>h. snd (host_create (vehicleIf cfg) (pluginArgs cfg) (a_create w) h)) r2"
  define r4 where "r4 = on_host (\<lambda>h. snd (host_start (a_start w) h)) (act PubStart r3)"
  have open_all: "sock_open (r_bus r1)" "sock_open (r_bus r2)" "sock_open (r_bus r3)" "sock_open (r_bus r4)"
    by (simp_all add: r1_def r2_def r3_def r4_def)
  have r1: "run_ok False r1"
    by (simp add: r1_def run_ok_def run_start_def act_def daemon_idle_def host_ok_new)
      (simp add: host_phase_def PluginHost_new_def)
  have r2: "run_ok False r2" unfolding r2_def
    using r1 open_all host_ok_load adds_load by (intro run_ok_on_host) (auto simp: run_ok_def)
  have r3: "run_ok False r3" unfolding r3_def
    using r2 open_all host_ok_create adds_create by (intro run_ok_on_host) (auto simp: run_ok_def)
  have "run_ok True (act PubStart r3)" using r3 open_all by (intro run_ok_pub_start)
  then have r4: "run_ok True r4" unfolding r4_def
    using open_all host_ok_start adds_start by (intro run_ok_on_host) (auto simp: run_ok_def)
  have failed: "fst (host_start (a_start w) (r_host r3)) \<noteq> [] \<Longrightarrow> \<not> m_started (r_host r4)"
    using r3 by (auto simp: r4_def host_start_def Let_def run_ok_def host_ok_def split: if_splits)
  have r5: "run_ok True (on_host host_stop r4)"
    using r4 open_all host_ok_stop adds_weaken [OF adds_stop]
    by (intro run_ok_on_host) (auto simp: run_ok_def)
  have "host_ok (r_host r4)" using r4 by (simp add: run_ok_def)
  then have r6: "run_ok False (act PubStop (on_host host_stop r4))"
    using r5 host_ok_stop by (intro run_ok_pub_stop) auto
  then have r7: "run_ok False (on_host host_unload (act PubStop (on_host host_stop r4)))"
    using open_all host_ok_unload adds_unload by (intro run_ok_on_host) (auto simp: run_ok_def)
  show ?thesis
  proof (cases "help_wanted cfg \<or> err \<noteq> []")
    case True
    then show ?thesis by (cases "help_wanted cfg") (simp_all add: daemon_main_def p run_start_def)
  next
    case False
    show ?thesis
    proof (cases "a_bus w = Opens")
      case True
      then have "snd (daemon_main default_dir env argv w) =
          (if fst (host_load (resolvePluginPath cfg) (a_library w) (r_host r1)) \<noteq> [] then leave r2
           else if fst (host_create (vehicleIf cfg) (pluginArgs cfg) (a_create w) (r_host r2)) \<noteq> [] then leave r3
           else if fst (host_start (a_start w) (r_host r3)) \<noteq> [] then leave (act PubStop r4)
           else leave (on_host host_unload (act PubStop (on_host host_stop r4))))"
        using False
        by (simp add: daemon_main_def p Let_def CanSocket_open_def CanSocket_close_def run_start_def
            r4_def r3_def r2_def r1_def if_distrib [of snd] split del: if_split cong: if_cong)
      then show ?thesis
        using run_ok_leave [OF r2] run_ok_leave [OF r3] run_ok_leave [OF run_ok_pub_stop [OF r4 failed]]
          run_ok_leave [OF r7] open_all by simp
    next
      case no: False
      then show ?thesis
        using False by (cases "a_bus w") (simp_all add: daemon_main_def p Let_def CanSocket_open_def
          CanSocket_close_def run_start_def act_def leave_bus_def daemon_idle_def)
    qed
  qed
qed

text \<open>
  C22: Every run of the daemon, whatever the command line and whatever the bus, the loader and the
  plugin answer, respects that order, and leaves the plugin closed, the heartbeat off and the bus
  closed.
\<close>

theorem daemon_order:
  "daemon_trace daemon_idle (r_acts (snd (daemon_main default_dir env argv w))) = Some daemon_idle"
  by (rule daemon_runs_in_order)

text \<open>
  C33: The daemon exits with 0 exactly when help was asked for, or when the command line was accepted,
  the bus opened, a complete plugin of the right ABI version was found, and it was created and
  started; it exits with 2 exactly for a rejected command line.
\<close>

theorem daemon_exit_code:
  "fst (daemon_main default_dir env argv w) =
    (let (err, cfg) = Config_parse default_dir env argv
     in if help_wanted cfg then 0 else if err \<noteq> [] then 2
        else if a_bus w = Opens \<and>
          (\<exists>p. a_library w = Descriptor p \<and> abi_version p = CANPROXY_PLUGIN_ABI_VERSION \<and> complete_descriptor p) \<and>
          a_create w \<and> a_start w = 0 then 0 else 1)"
proof -
  obtain err cfg where p: "Config_parse default_dir env argv = (err, cfg)" by fastforce
  have idle: "host_unload PluginHost_new = PluginHost_new"
    by (simp add: host_unload_def host_stop_def PluginHost_new_def)
  have new: "m_handle PluginHost_new = False" "m_plugin PluginHost_new = None" "m_instance PluginHost_new = False"
    "m_started PluginHost_new = False" "m_calls PluginHost_new = []"
    by (simp_all add: PluginHost_new_def)
  show ?thesis
  proof (cases "help_wanted cfg \<or> err \<noteq> [] \<or> a_bus w \<noteq> Opens")
    case True
    then show ?thesis
      by (cases "help_wanted cfg"; cases "err = []"; cases "a_bus w")
        (simp_all add: p daemon_main_def CanSocket_open_def CanSocket_close_def run_start_def)
  next
    case False
    then show ?thesis
    proof (cases "a_library w")
      case (Descriptor d)
      then show ?thesis
        using False
        by (cases "abi_version d = CANPROXY_PLUGIN_ABI_VERSION"; cases "complete_descriptor d"; cases "a_create w"; cases "a_start w = 0")
          (simp_all add: p daemon_main_def CanSocket_open_def CanSocket_close_def run_start_def Let_def
            idle new host_load_def host_create_def host_start_def)
    qed (use False in \<open>simp_all add: p daemon_main_def CanSocket_open_def CanSocket_close_def run_start_def Let_def
            idle new host_load_def\<close>)
  qed
qed

end
