(* ===== verification/Obd_J1979.thy ===== *)
theory Obd_J1979
  imports Contract_Codec
begin

text \<open>
  The J1979 (OBD-II) codec, \<^verbatim>\<open>libobd/include/obd/J1979.h\<close> and \<^verbatim>\<open>libobd/src/J1979.cpp\<close>: requests, single-frame
  responses, supported-PID bitmaps and the decode table. A frame is the list of the bytes of its
  array; its \<open>dlc\<close> is a separate argument, as in the code.
\<close>

section \<open>Identifiers\<close>

definition kRequestId :: u32 where [contract_consts]: "kRequestId = 0x7DF"
definition kResponseIdFirst :: u32 where [contract_consts]: "kResponseIdFirst = 0x7E8"
definition kResponseIdLast :: u32 where [contract_consts]: "kResponseIdLast = 0x7EF"
definition kModeCurrentData :: u8 where [contract_consts]: "kModeCurrentData = 0x01"
definition kResponseOffset :: u8 where [contract_consts]: "kResponseOffset = 0x40"

definition PID_SUPPORTED_00 :: u8 where [contract_consts]: "PID_SUPPORTED_00 = 0x00"
definition PID_ENGINE_LOAD :: u8 where [contract_consts]: "PID_ENGINE_LOAD = 0x04"
definition PID_COOLANT_TEMP :: u8 where [contract_consts]: "PID_COOLANT_TEMP = 0x05"
definition PID_INTAKE_TEMP :: u8 where [contract_consts]: "PID_INTAKE_TEMP = 0x0B"
definition PID_RPM :: u8 where [contract_consts]: "PID_RPM = 0x0C"
definition PID_SPEED :: u8 where [contract_consts]: "PID_SPEED = 0x0D"
definition PID_MAF :: u8 where [contract_consts]: "PID_MAF = 0x10"
definition PID_SUPPORTED_20 :: u8 where [contract_consts]: "PID_SUPPORTED_20 = 0x20"
definition PID_FUEL_LEVEL :: u8 where [contract_consts]: "PID_FUEL_LEVEL = 0x2F"
definition PID_SUPPORTED_40 :: u8 where [contract_consts]: "PID_SUPPORTED_40 = 0x40"
definition PID_MODULE_VOLTAGE :: u8 where [contract_consts]: "PID_MODULE_VOLTAGE = 0x42"
definition PID_AMBIENT_TEMP :: u8 where [contract_consts]: "PID_AMBIENT_TEMP = 0x46"
definition PID_HYBRID_BATTERY :: u8 where [contract_consts]: "PID_HYBRID_BATTERY = 0x5B"
definition PID_SUPPORTED_60 :: u8 where [contract_consts]: "PID_SUPPORTED_60 = 0x60"
definition PID_SUPPORTED_80 :: u8 where [contract_consts]: "PID_SUPPORTED_80 = 0x80"
definition PID_SUPPORTED_A0 :: u8 where [contract_consts]: "PID_SUPPORTED_A0 = 0xA0"
definition PID_ODOMETER :: u8 where [contract_consts]: "PID_ODOMETER = 0xA6"
definition PID_SUPPORTED_C0 :: u8 where [contract_consts]: "PID_SUPPORTED_C0 = 0xC0"

lemmas pid_defs = PID_SUPPORTED_00_def PID_ENGINE_LOAD_def PID_COOLANT_TEMP_def PID_INTAKE_TEMP_def
  PID_RPM_def PID_SPEED_def PID_MAF_def PID_SUPPORTED_20_def PID_FUEL_LEVEL_def PID_SUPPORTED_40_def
  PID_MODULE_VOLTAGE_def PID_AMBIENT_TEMP_def PID_HYBRID_BATTERY_def PID_SUPPORTED_60_def
  PID_SUPPORTED_80_def PID_SUPPORTED_A0_def PID_ODOMETER_def PID_SUPPORTED_C0_def

definition isResponseId :: "u32 \<Rightarrow> bool" where
  "isResponseId i \<longleftrightarrow> kResponseIdFirst \<le> i \<and> i \<le> kResponseIdLast"

definition isSupportedPid :: "u8 \<Rightarrow> bool" where
  "isSupportedPid pid \<longleftrightarrow> pid AND 0x1F = 0"

section \<open>Requests and responses\<close>

definition buildRequest :: "u8 \<Rightarrow> u8 \<Rightarrow> bytes" where
  "buildRequest mode pid = (replicate 8 0)[0 := 0x02, 1 := mode, 2 := pid]"

record Response =
  r_mode :: u8
  r_pid :: u8
  r_data :: bytes
  r_len :: int

text \<open>\<open>parseSingleFrame\<close> of a frame that is present; the null pointer is the caller's \<open>None\<close>.\<close>

definition parseSingleFrame :: "bytes option \<Rightarrow> nat \<Rightarrow> Response option" where
  "parseSingleFrame frame dlc =
     (case frame of
        None \<Rightarrow> None
      | Some f \<Rightarrow>
          if dlc < 3 then None
          else (
            let pci = f ! 0
            in if pci AND 0xF0 \<noteq> 0 then None
               else (
                 let len = unat (pci AND 0x0F)
                 in if len < 2 \<or> len + 1 > dlc \<or> len > 7 then None
                    else if f ! 1 = 0x7F then None
                    else Some \<lparr> r_mode = f ! 1, r_pid = f ! 2,
                      r_data = take (len - 2) (drop 3 f) @ replicate (6 - (len - 2)) 0,
                      r_len = int len - 2 \<rparr>)))"

definition payloadLength :: "u8 \<Rightarrow> int" where
  "payloadLength pid =
     (if pid \<in> {PID_ENGINE_LOAD, PID_COOLANT_TEMP, PID_INTAKE_TEMP, PID_SPEED, PID_FUEL_LEVEL,
        PID_AMBIENT_TEMP, PID_HYBRID_BATTERY} then 1
      else if pid \<in> {PID_RPM, PID_MAF, PID_MODULE_VOLTAGE} then 2
      else if pid \<in> {PID_ODOMETER, PID_SUPPORTED_00, PID_SUPPORTED_20, PID_SUPPORTED_40,
        PID_SUPPORTED_60, PID_SUPPORTED_80, PID_SUPPORTED_A0, PID_SUPPORTED_C0} then 4
      else 0)"

text \<open>Four bytes as a 32-bit word, most significant first.\<close>

definition word_be :: "bytes \<Rightarrow> u32" where
  "word_be d = push_bit 24 (ucast (d ! 0)) OR push_bit 16 (ucast (d ! 1)) OR
     push_bit 8 (ucast (d ! 2)) OR ucast (d ! 3)"

definition supportedPidsFrom :: "u8 \<Rightarrow> bytes \<Rightarrow> u8 list" where
  "supportedPidsFrom basePid abcd = (
     let w = word_be abcd
     in map (\<lambda>n. basePid + of_nat n) (filter (\<lambda>n. w AND push_bit (32 - n) 1 \<noteq> 0) [1..<33]))"

definition nextBlockAdvertised :: "bytes \<Rightarrow> bool" where
  "nextBlockAdvertised abcd \<longleftrightarrow> abcd ! 3 AND 0x01 \<noteq> 0"

section \<open>Decoding\<close>

abbreviation double8 :: "u8 \<Rightarrow> f64" where
  "double8 b \<equiv> of_long (uint b)"

definition obd_decode :: "u8 \<Rightarrow> bytes option \<Rightarrow> int \<Rightarrow> f64 option" where
  "obd_decode pid payload len =
     (case payload of
        None \<Rightarrow> None
      | Some p \<Rightarrow>
          if len < payloadLength pid \<or> payloadLength pid = 0 then None
          else if pid = PID_ENGINE_LOAD then Some (double8 (p ! 0) * dlit 100 / dlit 255)
          else if pid = PID_COOLANT_TEMP then Some (double8 (p ! 0) - dlit 40)
          else if pid = PID_INTAKE_TEMP then Some (double8 (p ! 0) - dlit 40)
          else if pid = PID_RPM then Some ((double8 (p ! 0) * dlit 256 + double8 (p ! 1)) / dlit 4)
          else if pid = PID_SPEED then Some (double8 (p ! 0))
          else if pid = PID_MAF then Some ((double8 (p ! 0) * dlit 256 + double8 (p ! 1)) / dlit 100)
          else if pid = PID_FUEL_LEVEL then Some (double8 (p ! 0) * dlit 100 / dlit 255)
          else if pid = PID_MODULE_VOLTAGE then Some ((double8 (p ! 0) * dlit 256 + double8 (p ! 1)) / dlit 1000)
          else if pid = PID_AMBIENT_TEMP then Some (double8 (p ! 0) - dlit 40)
          else if pid = PID_HYBRID_BATTERY then Some (double8 (p ! 0) * dlit 100 / dlit 255)
          else if pid = PID_ODOMETER then Some (of_long (uint (word_be p)) / dlit 10)
          else None)"

definition pidName :: "u8 \<Rightarrow> string" where
  "pidName pid =
     (if pid = PID_ENGINE_LOAD then ''engine-load''
      else if pid = PID_COOLANT_TEMP then ''coolant-temp''
      else if pid = PID_INTAKE_TEMP then ''intake-temp''
      else if pid = PID_RPM then ''rpm''
      else if pid = PID_SPEED then ''speed''
      else if pid = PID_MAF then ''maf''
      else if pid = PID_FUEL_LEVEL then ''fuel-level''
      else if pid = PID_MODULE_VOLTAGE then ''module-voltage''
      else if pid = PID_AMBIENT_TEMP then ''ambient-temp''
      else if pid = PID_HYBRID_BATTERY then ''hybrid-battery''
      else if pid = PID_ODOMETER then ''odometer''
      else if isSupportedPid pid then ''supported-pids'' else ''pid'')"

section \<open>Facts\<close>

lemma pci_length: "n < 16 \<Longrightarrow> (of_nat n :: u8) AND 0xF0 = 0 \<and> unat ((of_nat n :: u8) AND 0x0F) = n"
proof -
  assume "n < 16"
  then have "n \<in> set [0..<16]" by simp
  then show ?thesis by (auto simp: upt_rec)
qed

lemma obd_len4: "length d = 4 \<Longrightarrow> d = [d ! 0, d ! 1, d ! 2, d ! 3]"
  by (rule nth_equalityI) (auto simp: less_Suc_eq numeral_eq_Suc)

lemma bit_word_be:
  assumes "n < 32"
  shows "bit (word_be d) n \<longleftrightarrow> bit (d ! (3 - n div 8)) (n mod 8)"
proof -
  from assms consider "n < 8" | "8 \<le> n" "n < 16" | "16 \<le> n" "n < 24" | "24 \<le> n" "n < 32" by linarith
  then show ?thesis
  proof cases
    case 2
    then have "n div 8 = 1" "n mod 8 = n - 8" by (simp_all add: div_nat_eqI le_mod_geq)
    then show ?thesis using 2 by (auto simp: word_be_def bit_simps dest: bit_imp_le_length)
  next
    case 3
    then have "n div 8 = 2" "n mod 8 = n - 16" by (simp_all add: div_nat_eqI le_mod_geq)
    then show ?thesis using 3 by (auto simp: word_be_def bit_simps dest: bit_imp_le_length)
  next
    case 4
    then have "n div 8 = 3" "n mod 8 = n - 24" by (simp_all add: div_nat_eqI le_mod_geq)
    then show ?thesis using 4 by (auto simp: word_be_def bit_simps dest: bit_imp_le_length)
  qed (auto simp: word_be_def bit_simps dest: bit_imp_le_length)
qed

lemma and_single_bit:
  assumes "k < 32"
  shows "(w :: u32) AND push_bit k 1 \<noteq> 0 \<longleftrightarrow> bit w k"
proof -
  have "w AND push_bit k 1 = (if bit w k then push_bit k 1 else 0)"
    by (rule bit_eqI) (auto simp: bit_simps)
  moreover have "push_bit k (1 :: u32) \<noteq> 0"
  proof
    assume e: "push_bit k (1 :: u32) = 0"
    have "bit (push_bit k (1 :: u32)) k" using assms by (simp add: bit_simps)
    then show False unfolding e by simp
  qed
  ultimately show ?thesis by auto
qed

text \<open>The PIDs of a block, bit by bit: bit 7 of the first byte is the first PID.\<close>

definition advertised :: "bytes \<Rightarrow> nat \<Rightarrow> bool" where
  "advertised abcd n \<longleftrightarrow> bit (abcd ! ((n - 1) div 8)) (7 - (n - 1) mod 8)"

lemma advertised_word:
  assumes "1 \<le> n" "n \<le> 32"
  shows "word_be abcd AND push_bit (32 - n) 1 \<noteq> 0 \<longleftrightarrow> advertised abcd n"
proof -
  have e: "3 - (32 - n) div 8 = (n - 1) div 8" "(32 - n) mod 8 = 7 - (n - 1) mod 8"
  proof -
    have "n \<in> set [1..<33]" using assms by simp
    then show "3 - (32 - n) div 8 = (n - 1) div 8" "(32 - n) mod 8 = 7 - (n - 1) mod 8"
      by (auto simp: upt_rec)
  qed
  show ?thesis
    using assms by (simp add: and_single_bit bit_word_be advertised_def e del: push_bit_of_1)
qed

lemma supportedPids_map: "supportedPidsFrom b abcd = map (\<lambda>n. b + of_nat n) (filter (advertised abcd) [1..<33])"
  unfolding supportedPidsFrom_def Let_def
  by (rule arg_cong [where f = "map _"], rule filter_cong) (auto simp: advertised_word [simplified])


section \<open>Decoded values\<close>

text \<open>The value the standard gives a payload, as an exact number.\<close>

definition physical :: "u8 \<Rightarrow> bytes \<Rightarrow> rat" where
  "physical pid p = (
     let a = rat_of_int (uint (p ! 0)); b = rat_of_int (uint (p ! 1)) in
     if pid \<in> {PID_ENGINE_LOAD, PID_FUEL_LEVEL, PID_HYBRID_BATTERY} then a * 100 / 255
     else if pid \<in> {PID_COOLANT_TEMP, PID_INTAKE_TEMP, PID_AMBIENT_TEMP} then a - 40
     else if pid = PID_RPM then (a * 256 + b) / 4
     else if pid = PID_MAF then (a * 256 + b) / 100
     else if pid = PID_MODULE_VOLTAGE then (a * 256 + b) / 1000
     else if pid = PID_ODOMETER then of_int (uint (word_be p)) / 10
     else a)"

definition polled_pids :: "u8 list" where
  "polled_pids = [PID_ENGINE_LOAD, PID_COOLANT_TEMP, PID_INTAKE_TEMP, PID_RPM, PID_SPEED, PID_MAF,
     PID_FUEL_LEVEL, PID_MODULE_VOLTAGE, PID_AMBIENT_TEMP, PID_HYBRID_BATTERY, PID_ODOMETER]"

lemma small_to_f64: "\<bar>q\<bar> \<le> 2 ^ 60 \<Longrightarrow> to_f64 q = FNum (rd64 q)"
  by (rule to_f64_FNum) (erule order_trans, simp)

lemma int_to_f64: "\<bar>i\<bar> \<le> 2 ^ 53 \<Longrightarrow> to_f64 (of_int i) = FNum (of_int i)"
  using of_long_FNum [of i] by (simp add: of_long_def)

lemma lit_to_f64:
  "dlit 100 = FNum 100" "dlit 255 = FNum 255" "dlit 40 = FNum 40" "dlit 256 = FNum 256"
  "dlit 4 = FNum 4" "dlit 1000 = FNum 1000" "dlit 10 = FNum 10"
  using int_to_f64 [of 100] int_to_f64 [of 255] int_to_f64 [of 40] int_to_f64 [of 256]
    int_to_f64 [of 4] int_to_f64 [of 1000] int_to_f64 [of 10] by simp_all

lemma u8_range: "0 \<le> uint (b :: u8)" "uint b \<le> 255"
  using uint_lt2p [of b] by simp_all

lemma u8_f64: "double8 b = FNum (of_int (uint b))"
  using uint_lt2p [of b] by (intro of_long_FNum) simp

lemma u16_f64: "double8 a * dlit 256 + double8 b = FNum (of_int (uint a) * 256 + of_int (uint b))"
proof -
  have "to_f64 (of_int (uint a * 256)) = FNum (of_int (uint a * 256))"
    "to_f64 (of_int (uint a * 256 + uint b)) = FNum (of_int (uint a * 256 + uint b))"
    using u8_range [of a] u8_range [of b] by - (rule int_to_f64, simp)+
  then show ?thesis by (simp add: u8_f64 f64_ops lit_to_f64)
qed

lemma u8_mul_f64: "double8 a * dlit 100 = FNum (of_int (uint a) * 100)"
proof -
  have "to_f64 (of_int (uint a * 100)) = FNum (of_int (uint a * 100))"
    using u8_range [of a] by - (rule int_to_f64, simp)
  then show ?thesis by (simp add: u8_f64 f64_ops lit_to_f64)
qed

lemma u8_sub_f64: "double8 a - dlit 40 = FNum (rd64 (of_int (uint a) - 40))"
proof -
  have "\<bar>uint a - 40\<bar> \<le> 255" using u8_range [of a] by linarith
  also have "\<dots> \<le> (2 :: int) ^ 53" by simp
  finally have i: "\<bar>uint a - 40\<bar> \<le> 2 ^ 53" .
  show ?thesis using int_to_f64 [OF i] rd64_int [OF i] by (simp add: u8_f64 f64_ops lit_to_f64)
qed

lemma div_f64: "0 \<le> q \<Longrightarrow> q \<le> 2 ^ 60 \<Longrightarrow> 1 \<le> d \<Longrightarrow> FNum q / FNum d = FNum (rd64 (q / d))"
  by (simp add: f64_ops small_to_f64 divide_le_eq order_trans [OF _ mult_mono [of 1 d q q]] abs_of_nonneg)

lemma rd64_u8: "rd64 (of_int (uint (b :: u8))) = of_int (uint b)"
  using uint_lt2p [of b] by (intro rd64_int) simp


lemma word_be_f64: "of_long (uint (w :: u32)) = FNum (of_int (uint w))"
  using uint_lt2p [of w] by (intro of_long_FNum) simp

lemma polled_cases:
  assumes "pid \<in> set polled_pids"
  obtains "pid = PID_ENGINE_LOAD" | "pid = PID_COOLANT_TEMP" | "pid = PID_INTAKE_TEMP" | "pid = PID_RPM"
    | "pid = PID_SPEED" | "pid = PID_MAF" | "pid = PID_FUEL_LEVEL" | "pid = PID_MODULE_VOLTAGE"
    | "pid = PID_AMBIENT_TEMP" | "pid = PID_HYBRID_BATTERY" | "pid = PID_ODOMETER"
  using assms by (auto simp: polled_pids_def)

lemma decode_physical:
  assumes "payloadLength pid \<le> len" "pid \<in> set polled_pids"
  shows "obd_decode pid (Some p) len = Some (FNum (rd64 (physical pid p)))"
proof -
  have r: "0 \<le> rat_of_int (uint (p ! 0))" "rat_of_int (uint (p ! 0)) \<le> 255"
    "0 \<le> rat_of_int (uint (p ! 1))" "rat_of_int (uint (p ! 1)) \<le> 255"
    using u8_range [of "p ! 0"] u8_range [of "p ! 1"] by (simp_all flip: of_int_le_iff [where ?'a = rat])
  have o: "0 \<le> rat_of_int (uint (word_be p))" "rat_of_int (uint (word_be p)) \<le> 4294967295"
  proof -
    have "uint (word_be p) \<le> 4294967295" using uint_lt2p [of "word_be p"] by simp
    then show "rat_of_int (uint (word_be p)) \<le> 4294967295" by (simp flip: of_int_le_iff [where ?'a = rat])
  qed (simp only: of_int_0_le_iff uint_nonnegative)
  have h: "double8 (p ! 0) * dlit 100 / dlit 255 = FNum (rd64 (rat_of_int (uint (p ! 0)) * 100 / 255))"
    unfolding u8_mul_f64 lit_to_f64(2) using r by (intro div_f64) simp_all
  have q: "(double8 (p ! 0) * dlit 256 + double8 (p ! 1)) / FNum d =
      FNum (rd64 ((rat_of_int (uint (p ! 0)) * 256 + rat_of_int (uint (p ! 1))) / d))" if "1 \<le> d" for d
    unfolding u16_f64 using r that by (intro div_f64) simp_all
  note q = q [of 4, folded lit_to_f64(5), OF one_le_numeral] q [of 100, folded lit_to_f64(1), OF one_le_numeral]
    q [of 1000, folded lit_to_f64(6), OF one_le_numeral]
  have w: "of_long (uint (word_be p)) / dlit 10 = FNum (rd64 (rat_of_int (uint (word_be p)) / 10))"
    unfolding word_be_f64 lit_to_f64(7) using o by (intro div_f64) simp_all
  have nz: "payloadLength pid \<noteq> 0" using assms(2) by (auto simp: polled_pids_def payloadLength_def)
  show ?thesis
    unfolding obd_decode_def option.case h u8_sub_f64 q w unfolding physical_def Let_def u8_f64
    using assms nz by (elim polled_cases) (simp_all add: pid_defs rd64_u8 [simplified])
qed

lemma decode_unknown: "pid \<notin> set polled_pids \<Longrightarrow> obd_decode pid (Some p) len = None"
  by (auto simp: obd_decode_def polled_pids_def)

text \<open>The range of the values a PID can report.\<close>

definition pid_range :: "u8 \<Rightarrow> int \<times> int" where
  "pid_range pid =
     (if pid \<in> {PID_ENGINE_LOAD, PID_FUEL_LEVEL, PID_HYBRID_BATTERY} then (0, 100)
      else if pid \<in> {PID_COOLANT_TEMP, PID_INTAKE_TEMP, PID_AMBIENT_TEMP} then (- 40, 215)
      else if pid = PID_RPM then (0, 16384)
      else if pid = PID_MAF then (0, 656)
      else if pid = PID_MODULE_VOLTAGE then (0, 66)
      else if pid = PID_ODOMETER then (0, 429496730)
      else (0, 255))"

lemma rd64_between:
  assumes "of_int a \<le> q" "q \<le> of_int b" "\<bar>a\<bar> \<le> 2 ^ 53" "\<bar>b\<bar> \<le> 2 ^ 53"
  shows "of_int a \<le> rd64 q \<and> rd64 q \<le> of_int b"
  using rnd_mono [of 53 "of_int a" q "- 1074"] rnd_mono [of 53 q "of_int b" "- 1074"] assms
  by (simp add: rd64_int)

lemma physical_range:
  assumes "pid \<in> set polled_pids"
  shows "of_int (fst (pid_range pid)) \<le> physical pid p \<and> physical pid p \<le> of_int (snd (pid_range pid))"
proof -
  have r: "0 \<le> rat_of_int (uint (p ! 0))" "rat_of_int (uint (p ! 0)) \<le> 255"
    "0 \<le> rat_of_int (uint (p ! 1))" "rat_of_int (uint (p ! 1)) \<le> 255"
    using u8_range [of "p ! 0"] u8_range [of "p ! 1"] by (simp_all flip: of_int_le_iff [where ?'a = rat])
  have "uint (word_be p) \<le> 4294967295" using uint_lt2p [of "word_be p"] by simp
  then have "rat_of_int (uint (word_be p)) \<le> of_int 4294967295" by (simp only: of_int_le_iff)
  then have o: "0 \<le> rat_of_int (uint (word_be p))" "rat_of_int (uint (word_be p)) \<le> 4294967295"
    by (simp_all only: of_int_0_le_iff uint_nonnegative of_int_numeral)
  show ?thesis
    using assms r o by (elim polled_cases) (simp_all add: physical_def pid_range_def Let_def pid_defs)
qed

lemma decode_range:
  assumes "obd_decode pid (Some p) len = Some v"
  shows "\<exists>x. v = FNum x \<and> of_int (fst (pid_range pid)) \<le> x \<and> x \<le> of_int (snd (pid_range pid))"
proof -
  have "pid \<in> set polled_pids" using assms decode_unknown by fastforce
  moreover from this have "payloadLength pid \<le> len"
    using assms by (auto simp: obd_decode_def not_less split: if_splits)
  moreover have "\<bar>fst (pid_range pid)\<bar> \<le> 2 ^ 53" "\<bar>snd (pid_range pid)\<bar> \<le> 2 ^ 53"
    by (simp_all add: pid_range_def)
  ultimately show ?thesis
    using assms decode_physical [of pid len p]
      rd64_between [of "fst (pid_range pid)" "physical pid p" "snd (pid_range pid)"] physical_range [of pid p]
    by auto
qed

section \<open>Properties\<close>

text \<open>
  C36: Decoding a payload yields the value the standard gives it, correctly rounded to a double, for
  every known PID with enough bytes, and nothing for any other.
\<close>

theorem decode_correctly_rounded:
  "obd_decode pid (Some p) len =
    (if pid \<in> set polled_pids \<and> payloadLength pid \<le> len then Some (FNum (rd64 (physical pid p))) else None)"
proof (cases "pid \<in> set polled_pids \<and> payloadLength pid \<le> len")
  case False
  then show ?thesis by (auto simp: decode_unknown) (simp add: obd_decode_def)
qed (simp add: decode_physical)

text \<open>
  C37: The parser accepts exactly the positive single frames that fit the received length: a length
  nibble, a mode that is not the negative response, a PID and up to five payload bytes, nothing beyond
  the received bytes being read.
\<close>

theorem parse_single_frame_iff:
  assumes "dlc \<le> length f"
  shows "parseSingleFrame (Some f) dlc = Some r \<longleftrightarrow> r_mode r \<noteq> 0x7F \<and>
    (\<exists>d. length d \<le> 5 \<and> length d + 3 \<le> dlc \<and>
      take (length d + 3) f = of_nat (length d + 2) # r_mode r # r_pid r # d \<and>
      r_data r = d @ replicate (6 - length d) 0 \<and> r_len r = int (length d))"
proof (cases "dlc < 3")
  case True
  then show ?thesis by (auto simp: parseSingleFrame_def)
next
  case False
  then obtain a b c g where f: "f = a # b # c # g"
    using assms by (cases f; cases "tl f"; cases "tl (tl f)") auto
  let ?n = "unat (a AND 0x0F)"
  have fits: "a AND 0xF0 = 0 \<Longrightarrow> a = of_nat ?n"
  proof -
    assume "a AND 0xF0 = 0"
    then have "a AND 0xF0 OR a AND 0x0F = a AND 0x0F" by simp
    moreover have "(a AND 0xF0) OR (a AND 0x0F) = a AND (0xF0 OR 0x0F)" by (rule bit.conj_disj_distrib [symmetric])
    moreover have "(0xF0 :: u8) OR 0x0F = - 1" by simp
    ultimately have "a AND 0x0F = a" by (simp only: and.right_neutral)
    then show ?thesis by simp
  qed
  show ?thesis
  proof
    assume "parseSingleFrame (Some f) dlc = Some r"
    then have s: "a AND 0xF0 = 0" "2 \<le> ?n" "?n + 1 \<le> dlc" "?n \<le> 7" "b \<noteq> 0x7F"
      "r = \<lparr> r_mode = b, r_pid = c, r_data = take (?n - 2) g @ replicate (6 - (?n - 2)) 0, r_len = int ?n - 2 \<rparr>"
      using False by (auto simp: parseSingleFrame_def f Let_def split: if_splits)
    obtain m where m: "?n = Suc (Suc m)" using s(2) by (auto simp: le_iff_add)
    then have n: "take ?n (b # c # g) = b # c # take (?n - 2) g" by simp
    have l: "length (take (?n - 2) g) = ?n - 2" using s assms f by simp
    show "r_mode r \<noteq> 0x7F \<and> (\<exists>d. length d \<le> 5 \<and> length d + 3 \<le> dlc \<and>
      take (length d + 3) f = of_nat (length d + 2) # r_mode r # r_pid r # d \<and>
      r_data r = d @ replicate (6 - length d) 0 \<and> r_len r = int (length d))"
      using s l fits [OF s(1)] n by (intro conjI exI [of _ "take (?n - 2) g"]) (simp_all add: f)
  next
    assume "r_mode r \<noteq> 0x7F \<and> (\<exists>d. length d \<le> 5 \<and> length d + 3 \<le> dlc \<and>
      take (length d + 3) f = of_nat (length d + 2) # r_mode r # r_pid r # d \<and>
      r_data r = d @ replicate (6 - length d) 0 \<and> r_len r = int (length d))"
    then obtain d where d: "r_mode r \<noteq> 0x7F" "length d \<le> 5" "length d + 3 \<le> dlc"
      "a = of_nat (length d + 2)" "b = r_mode r" "c = r_pid r" "take (length d) g = d"
      "r_data r = d @ replicate (6 - length d) 0" "r_len r = int (length d)"
      by (auto simp: f numeral_3_eq_3)
    have "a AND 0xF0 = 0" "?n = length d + 2"
      using pci_length [of "length d + 2"] d(2) unfolding d(4) by simp_all
    then show "parseSingleFrame (Some f) dlc = Some r"
      using d False by (simp add: parseSingleFrame_def f Let_def)
  qed
qed

theorem parse_single_frame_iff_witness:
  "parseSingleFrame (Some [0x04, 0x41, 0x0C, 0x1A, 0xF8, 0, 0, 0]) 8 =
     Some \<lparr> r_mode = 0x41, r_pid = 0x0C, r_data = [0x1A, 0xF8, 0, 0, 0, 0], r_len = 2 \<rparr>"
proof -
  have r: "replicate 4 (0 :: u8) = [0, 0, 0, 0]" by (simp add: numeral_eq_Suc)
  show ?thesis
    by (subst parse_single_frame_iff) (simp, intro conjI exI [of _ "[0x1A, 0xF8]"], simp_all add: r)
qed

text \<open>
  A supported-PID bitmap lists exactly the PIDs whose bit is set, most significant bit of the first
  byte first, each once; the next block is advertised by the last bit.
\<close>

lemma supported_pids_iff:
  "set (supportedPidsFrom b abcd) = {b + of_nat n | n. 1 \<le> n \<and> n \<le> 32 \<and> advertised abcd n} \<and>
   distinct (supportedPidsFrom b abcd) \<and> nextBlockAdvertised abcd = advertised abcd 32"
proof (intro conjI)
  show "set (supportedPidsFrom b abcd) = {b + of_nat n | n. 1 \<le> n \<and> n \<le> 32 \<and> advertised abcd n}"
    by (auto simp: supportedPids_map)
  have "inj_on (\<lambda>n. b + of_nat n) {1..32}"
    by (rule inj_onI) (simp only: add_left_cancel, simp add: word_unat_eq_iff unat_of_nat)
  then show "distinct (supportedPidsFrom b abcd)"
    by (auto simp: supportedPids_map distinct_map inj_on_def)
  show "nextBlockAdvertised abcd = advertised abcd 32"
    by (simp add: nextBlockAdvertised_def advertised_def and_one_eq odd_iff_mod_2_eq_one bit_0)
qed

end
