(* ===== verification/Float_Bounds.thy ===== *)
theory Float_Bounds
  imports Obd_J1979
begin

text \<open>
  Bounds on \<open>double\<close> results: a value between two whole numbers, and what arithmetic does to the
  bounds. Rounding never crosses a whole number that a \<open>double\<close> can hold, so the bounds are exact
  interval arithmetic on integers.
\<close>

definition lies :: "int \<Rightarrow> int \<Rightarrow> f64 \<Rightarrow> bool" where
  "lies a b v \<longleftrightarrow> (\<exists>q. v = FNum q \<and> of_int a \<le> q \<and> q \<le> of_int b)"

named_theorems bounds

lemma lies_FNum [simp]: "lies a b (FNum q) \<longleftrightarrow> of_int a \<le> q \<and> q \<le> of_int b"
  by (simp add: lies_def)

lemma liesE: "lies a b v \<Longrightarrow> (\<And>q. v = FNum q \<Longrightarrow> of_int a \<le> q \<Longrightarrow> q \<le> of_int b \<Longrightarrow> thesis) \<Longrightarrow> thesis"
  unfolding lies_def by blast

lemma lies_weaken: "lies a b v \<Longrightarrow> a' \<le> a \<Longrightarrow> b \<le> b' \<Longrightarrow> lies a' b' v"
proof (erule liesE)
  fix q
  assume v: "v = FNum q" "of_int a \<le> q" "q \<le> of_int b" and "a' \<le> a" "b \<le> b'"
  then have "rat_of_int a' \<le> of_int a" "rat_of_int b \<le> of_int b'" by (simp_all only: of_int_le_iff)
  then show "lies a' b' v" using v by simp
qed

lemma lies_small: "\<bar>of_int i\<bar> \<le> (2 :: rat) ^ 53 \<longleftrightarrow> \<bar>i\<bar> \<le> 2 ^ 53"
proof -
  have "\<bar>of_int i\<bar> \<le> rat_of_int (2 ^ 53) \<longleftrightarrow> \<bar>i\<bar> \<le> 2 ^ 53" by (simp only: of_int_le_iff flip: of_int_abs)
  then show ?thesis by simp
qed

lemma rounded_lies:
  assumes "of_int a \<le> q" "q \<le> of_int b" "\<bar>a\<bar> \<le> 2 ^ 53" "\<bar>b\<bar> \<le> 2 ^ 53"
  shows "lies a b (to_f64 q)"
proof -
  have "\<bar>q\<bar> \<le> max \<bar>of_int a\<bar> \<bar>of_int b\<bar>" using assms(1,2) by linarith
  also have "\<dots> \<le> 2 ^ 53" using assms(3,4) by (simp only: lies_small max.bounded_iff simp_thms)
  finally have "\<bar>q\<bar> \<le> 2 ^ 60" by simp
  then show ?thesis using rd64_between [OF assms] by (simp add: small_to_f64)
qed

lemma literal_lies [bounds]: "of_int a \<le> q \<Longrightarrow> q \<le> of_int b \<Longrightarrow> \<bar>a\<bar> \<le> 2 ^ 53 \<Longrightarrow> \<bar>b\<bar> \<le> 2 ^ 53 \<Longrightarrow> lies a b (dlit q)"
  by (rule rounded_lies)

lemma add_lies:
  "lies a b x \<Longrightarrow> lies c d y \<Longrightarrow> \<bar>a + c\<bar> \<le> 2 ^ 53 \<Longrightarrow> \<bar>b + d\<bar> \<le> 2 ^ 53 \<Longrightarrow> lies (a + c) (b + d) (x + y)"
  by (elim liesE) (simp add: f64_ops, rule rounded_lies, simp_all)

lemma neg_lies: "lies a b x \<Longrightarrow> lies (- b) (- a) (f64_neg x)"
  by (elim liesE) simp

lemma sub_lies:
  "lies a b x \<Longrightarrow> lies c d y \<Longrightarrow> \<bar>a - d\<bar> \<le> 2 ^ 53 \<Longrightarrow> \<bar>b - c\<bar> \<le> 2 ^ 53 \<Longrightarrow> lies (a - d) (b - c) (x - y)"
  using add_lies [of a b x "- d" "- c" "f64_neg y"] neg_lies [of c d y] by (simp add: f64_ops)

lemma mul_lies:
  assumes "lies (- a) a x" "lies (- c) c y" "a * c \<le> 2 ^ 53" "0 \<le> a"
  shows "lies (- (a * c)) (a * c) (x * y)"
proof -
  obtain p q where v: "x = FNum p" "\<bar>p\<bar> \<le> of_int a" "y = FNum q" "\<bar>q\<bar> \<le> of_int c"
    using assms(1,2) by (auto elim!: liesE)
  have c: "0 \<le> c" using v(4) by linarith
  have "\<bar>p * q\<bar> \<le> of_int a * of_int c"
    using v c assms(4) by (simp only: abs_mult) (intro mult_mono, simp_all)
  then have "of_int (- (a * c)) \<le> p * q" "p * q \<le> of_int (a * c)" by (simp_all add: abs_le_iff)
  moreover have "0 \<le> a * c" using assms(4) c by simp
  ultimately show ?thesis using assms(3) by (simp only: v f64_ops f64_mul.simps) (rule rounded_lies, simp_all)
qed

lemma mul_lies_pos:
  assumes "lies 0 a x" "lies 0 c y" "a * c \<le> 2 ^ 53"
  shows "lies 0 (a * c) (x * y)"
proof -
  obtain p q where v: "x = FNum p" "0 \<le> p" "p \<le> of_int a" "y = FNum q" "0 \<le> q" "q \<le> of_int c"
    using assms(1,2) by (auto elim!: liesE)
  have ac: "0 \<le> a" "0 \<le> c" using v by linarith+
  have "p * q \<le> of_int a * of_int c" using v ac by (intro mult_mono) simp_all
  then have "of_int 0 \<le> p * q" "p * q \<le> of_int (a * c)" using v by simp_all
  moreover have "0 \<le> a * c" using ac by simp
  ultimately show ?thesis using assms(3) by (simp only: v f64_ops f64_mul.simps) (rule rounded_lies, simp_all)
qed

lemma quotient_shrinks:
  assumes "1 \<le> (q :: rat)"
  shows "\<bar>p / q\<bar> \<le> \<bar>p\<bar>"
proof -
  have "\<bar>p\<bar> * 1 \<le> \<bar>p\<bar> * q" using assms by (intro mult_left_mono) simp_all
  then show ?thesis using assms by (simp add: abs_divide divide_le_eq)
qed

lemma div_lies:
  assumes "lies (- a) a x" "lies 1 d y" "a \<le> 2 ^ 53" "0 \<le> a"
  shows "lies (- a) a (x / y)"
proof -
  obtain p q where v: "x = FNum p" "\<bar>p\<bar> \<le> of_int a" "y = FNum q" "1 \<le> q"
    using assms(1,2) by (auto elim!: liesE)
  then have "\<bar>p / q\<bar> \<le> of_int a" using quotient_shrinks [of q p] by linarith
  then have "of_int (- a) \<le> p / q" "p / q \<le> of_int a" by (simp_all only: abs_le_iff of_int_minus minus_le_iff)
  moreover have "q \<noteq> 0" using v(4) by simp
  ultimately show ?thesis using assms(3,4) by (simp only: v f64_ops f64_div.simps if_True not_False_eq_True) (rule rounded_lies, simp_all)
qed

lemma div_lies_pos:
  assumes "lies 0 a x" "lies 1 d y" "a \<le> 2 ^ 53"
  shows "lies 0 a (x / y)"
proof -
  obtain p q where v: "x = FNum p" "0 \<le> p" "p \<le> of_int a" "y = FNum q" "1 \<le> q"
    using assms(1,2) by (auto elim!: liesE)
  then have "p / q \<le> of_int a" using quotient_shrinks [OF v(5), of p] abs_ge_self [of "p / q"] by (simp add: abs_of_nonneg)
  moreover have "of_int 0 \<le> p / q" using v by simp
  ultimately have "of_int 0 \<le> p / q" "p / q \<le> of_int a" by simp_all
  moreover have "q \<noteq> 0" "0 \<le> a" using v by (simp, linarith)
  ultimately show ?thesis using assms(3) by (simp only: v f64_ops f64_div.simps if_True not_False_eq_True) (rule rounded_lies, simp_all)
qed

lemma compare_lies:
  "lies a b x \<Longrightarrow> lies c d y \<Longrightarrow> (x < y) \<noteq> (y \<le> x)"
  by (elim liesE) (simp add: f64_ops not_le [symmetric])

lemma of_long_lies: "\<bar>i\<bar> \<le> 2 ^ 53 \<Longrightarrow> lies i i (of_long i)"
  by (simp add: of_long_FNum)

text \<open>The same with the bounds of the result given.\<close>

lemma add_to:
  "lies a b x \<Longrightarrow> lies c d y \<Longrightarrow> a' \<le> a + c \<Longrightarrow> b + d \<le> b' \<Longrightarrow> \<bar>a + c\<bar> \<le> 2 ^ 53 \<Longrightarrow> \<bar>b + d\<bar> \<le> 2 ^ 53 \<Longrightarrow>
    lies a' b' (x + y)"
  using add_lies lies_weaken by blast

lemma sub_to:
  "lies a b x \<Longrightarrow> lies c d y \<Longrightarrow> a' \<le> a - d \<Longrightarrow> b - c \<le> b' \<Longrightarrow> \<bar>a - d\<bar> \<le> 2 ^ 53 \<Longrightarrow> \<bar>b - c\<bar> \<le> 2 ^ 53 \<Longrightarrow>
    lies a' b' (x - y)"
  using sub_lies lies_weaken by blast

lemma mul_to:
  "lies a b x \<Longrightarrow> lies c d y \<Longrightarrow> - m \<le> a \<Longrightarrow> b \<le> m \<Longrightarrow> - k \<le> c \<Longrightarrow> d \<le> k \<Longrightarrow> 0 \<le> m \<Longrightarrow> m * k \<le> 2 ^ 53 \<Longrightarrow>
    a' \<le> - (m * k) \<Longrightarrow> m * k \<le> b' \<Longrightarrow> lies a' b' (x * y)"
  by (rule lies_weaken [OF mul_lies [of m x k y]]) (auto elim: lies_weaken)

lemma mul_to_pos:
  "lies 0 b x \<Longrightarrow> lies 0 d y \<Longrightarrow> b * d \<le> 2 ^ 53 \<Longrightarrow> a' \<le> 0 \<Longrightarrow> b * d \<le> b' \<Longrightarrow> lies a' b' (x * y)"
  by (rule lies_weaken [OF mul_lies_pos])

lemma div_to:
  "lies a b x \<Longrightarrow> lies 1 d y \<Longrightarrow> - m \<le> a \<Longrightarrow> b \<le> m \<Longrightarrow> 0 \<le> m \<Longrightarrow> m \<le> 2 ^ 53 \<Longrightarrow> a' \<le> - m \<Longrightarrow> m \<le> b' \<Longrightarrow>
    lies a' b' (x / y)"
  by (rule lies_weaken [OF div_lies [of m x d y]]) (auto elim: lies_weaken)

lemma if_lies: "lies a b x \<Longrightarrow> lies a b y \<Longrightarrow> lies a b (if c then x else y)"
  by simp

text \<open>A product or quotient whose exact value is small stays small.\<close>

lemma rounded_double: "\<bar>q\<bar> \<le> b \<Longrightarrow> 1 / 2 ^ 100 \<le> b \<Longrightarrow> \<bar>rd64 q\<bar> \<le> 2 * b"
proof -
  assume q: "\<bar>q\<bar> \<le> b" "1 / 2 ^ 100 \<le> b"
  have "\<bar>q\<bar> / 2 ^ 53 \<le> b / 2" using q(1) by simp
  moreover have "1 / 2 ^ 200 \<le> b / 2" using q(2) by simp
  ultimately have "\<bar>rd64 q - q\<bar> \<le> b" using rd64_error [of q] by linarith
  then show ?thesis using q(1) by linarith
qed

lemma small_product:
  assumes "\<bar>x\<bar> \<le> a" "\<bar>y\<bar> \<le> b" "1 / 2 ^ 100 \<le> a * b" "a * b \<le> 2 ^ 60"
  obtains q where "FNum x * FNum y = FNum q" "\<bar>q\<bar> \<le> 2 * (a * b)" "0 \<le> x * y \<Longrightarrow> 0 \<le> q"
proof -
  have xy: "\<bar>x * y\<bar> \<le> a * b" using assms(1,2) by (simp only: abs_mult) (intro mult_mono, simp_all)
  then have "FNum x * FNum y = FNum (rd64 (x * y))" using assms(4) by (simp add: f64_ops small_to_f64)
  then show thesis using rounded_double [OF xy assms(3)] b64.rd_nonneg [of "x * y"] by (intro that [of "rd64 (x * y)"]) simp_all
qed

lemma small_quotient:
  assumes "\<bar>x\<bar> \<le> a" "0 < d" "1 / 2 ^ 100 \<le> a / d" "a / d \<le> 2 ^ 60"
  obtains q where "FNum x / FNum d = FNum q" "\<bar>q\<bar> \<le> 2 * (a / d)" "0 \<le> x \<Longrightarrow> 0 \<le> q"
proof -
  have xd: "\<bar>x / d\<bar> \<le> a / d" using assms(1,2) by (simp add: abs_divide divide_right_mono)
  then have "FNum x / FNum d = FNum (rd64 (x / d))" using assms(2,4) by (simp add: f64_ops small_to_f64)
  then show thesis using rounded_double [OF xd assms(3)] b64.rd_nonneg [of "x / d"] assms(2) by (intro that [of "rd64 (x / d)"]) simp_all
qed

end
