(* ===== verification/Text_Numbers.thy ===== *)
theory Text_Numbers
  imports Cli_Config Contract_Codec
begin

text \<open>
  Numbers as text, as the C library reads and prints them: \<open>%d\<close>, \<open>%0nX\<close>, \<open>strtol\<close> in any base, the
  number directives of \<open>sscanf\<close>, \<open>atof\<close> and \<open>%f\<close>. The plugins and the tools use them on arguments and log lines.
\<close>

section \<open>Digits\<close>

definition digit_val :: "char \<Rightarrow> nat option" where
  "digit_val c = (
     let n = of_char c :: nat
     in if 48 \<le> n \<and> n \<le> 57 then Some (n - 48)
        else if 65 \<le> n \<and> n \<le> 70 then Some (n - 55)
        else if 97 \<le> n \<and> n \<le> 102 then Some (n - 87)
        else None)"

definition base_digit :: "nat \<Rightarrow> char \<Rightarrow> bool" where
  "base_digit b c \<longleftrightarrow> (case digit_val c of Some d \<Rightarrow> d < b | None \<Rightarrow> False)"

definition num_value :: "nat \<Rightarrow> string \<Rightarrow> nat" where
  "num_value b ds = fold (\<lambda>c n. b * n + the (digit_val c)) ds 0"

definition digit_text :: "nat \<Rightarrow> char" where
  "digit_text d = char_of (if d < 10 then 48 + d else 55 + d)"

fun num_text :: "nat \<Rightarrow> nat \<Rightarrow> string" where
  "num_text b n = (if n < b \<or> b < 2 then [digit_text n] else num_text b (n div b) @ [digit_text (n mod b)])"

declare num_text.simps [simp del]

text \<open>Padding with zeros to a width, as \<open>%06ld\<close> and \<open>%03X\<close> do.\<close>

definition zero_pad :: "nat \<Rightarrow> string \<Rightarrow> string" where
  "zero_pad w s = replicate (w - length s) CHR ''0'' @ s"

section \<open>Scanning\<close>

definition is_sign :: "char \<Rightarrow> bool" where
  "is_sign c \<longleftrightarrow> c = CHR ''-'' \<or> c = CHR ''+''"

definition hex_prefix :: "string \<Rightarrow> bool" where
  "hex_prefix s \<longleftrightarrow> take 2 s = ''0x'' \<or> take 2 s = ''0X''"

text \<open>
  White space, a sign, with base 16 an optional prefix, at least one digit; the sign, the magnitude
  and the rest of the input.
\<close>

definition scan_number :: "nat \<Rightarrow> string \<Rightarrow> (bool \<times> nat \<times> string) option" where
  "scan_number b s = (
     let t = dropWhile is_space s;
         u = (if t \<noteq> [] \<and> is_sign (hd t) then tl t else t);
         v = (if b = 16 \<and> hex_prefix u then drop 2 u else u);
         ds = takeWhile (base_digit b) v
     in if ds = [] then None
        else Some (t \<noteq> [] \<and> hd t = CHR ''-'', num_value b ds, dropWhile (base_digit b) v))"

text \<open>An unsigned conversion to \<open>n\<close> bits by way of a 64-bit \<open>unsigned long\<close>: too large saturates, a minus
  sign negates modulo 2^64, the result is cut to the width.\<close>

definition to_unsigned :: "nat \<Rightarrow> bool \<Rightarrow> nat \<Rightarrow> nat" where
  "to_unsigned n neg v = (
     let m = (if v \<ge> 2 ^ 64 then 2 ^ 64 - 1 else if neg then (2 ^ 64 - v) mod 2 ^ 64 else v)
     in m mod 2 ^ n)"

text \<open>\<open>strtol(s, nullptr, 0)\<close>: the base is read off the text; no digits is 0; saturates at the range of \<open>long\<close>.\<close>

definition strtol0 :: "string \<Rightarrow> int" where
  "strtol0 s = (
     let t = dropWhile is_space s;
         u = (if t \<noteq> [] \<and> is_sign (hd t) then tl t else t);
         b = (if hex_prefix u \<and> drop 2 u \<noteq> [] \<and> base_digit 16 (hd (drop 2 u)) then 16
              else if u \<noteq> [] \<and> hd u = CHR ''0'' then 8 else 10)
     in case scan_number b s of
          None \<Rightarrow> 0
        | Some (neg, v, _) \<Rightarrow> max (- (2 ^ 63)) (min (2 ^ 63 - 1) (if neg then - int v else int v)))"

text \<open>\<open>atol\<close> and \<open>atoi\<close>: undefined when the value does not fit the result.\<close>

definition ato :: "nat \<Rightarrow> string \<Rightarrow> int option" where
  "ato w s =
     (case scan_number 10 s of
        None \<Rightarrow> Some 0
      | Some (neg, v, _) \<Rightarrow> (
          let i = (if neg then - int v else int v)
          in if - (2 ^ (w - 1)) \<le> i \<and> i < 2 ^ (w - 1) then Some i else None))"

abbreviation c_atol :: "string \<Rightarrow> int option" where "c_atol \<equiv> ato 64"
abbreviation c_atoi :: "string \<Rightarrow> int option" where "c_atoi \<equiv> ato 32"

definition starts_with :: "string \<Rightarrow> string \<Rightarrow> bool" where
  "starts_with p s \<longleftrightarrow> take (length p) s = p"

text \<open>\<open>strtoul(s, nullptr, 0)\<close> on a 64-bit \<open>unsigned long\<close>.\<close>

definition strtoul0 :: "string \<Rightarrow> nat" where
  "strtoul0 s = (
     let t = dropWhile is_space s;
         u = (if t \<noteq> [] \<and> is_sign (hd t) then tl t else t);
         b = (if hex_prefix u \<and> drop 2 u \<noteq> [] \<and> base_digit 16 (hd (drop 2 u)) then 16
              else if u \<noteq> [] \<and> hd u = CHR ''0'' then 8 else 10)
     in case scan_number b s of None \<Rightarrow> 0 | Some (neg, v, _) \<Rightarrow> to_unsigned 64 neg v)"

text \<open>
  \<open>atof\<close>: a decimal or hexadecimal fraction with an optional exponent, an infinity or a NaN, correctly
  rounded; no number is 0.
\<close>

definition lower :: "string \<Rightarrow> string" where
  "lower s = map (\<lambda>c. let n = of_char c :: nat in if 65 \<le> n \<and> n \<le> 90 then char_of (n + 32) else c) s"

definition scan_exponent :: "char \<Rightarrow> string \<Rightarrow> int" where
  "scan_exponent mark s =
     (if s \<noteq> [] \<and> lower [hd s] = [mark] then (
        let t = tl s; u = (if t \<noteq> [] \<and> is_sign (hd t) then tl t else t);
            n = int (num_value 10 (takeWhile (base_digit 10) u))
        in if t \<noteq> [] \<and> hd t = CHR ''-'' then - n else n)
      else 0)"

definition scan_fraction :: "nat \<Rightarrow> char \<Rightarrow> nat \<Rightarrow> string \<Rightarrow> rat option" where
  "scan_fraction b mark base s = (
     let ip = takeWhile (base_digit b) s; r = dropWhile (base_digit b) s;
         dot = (r \<noteq> [] \<and> hd r = CHR ''.'');
         fp = (if dot then takeWhile (base_digit b) (tl r) else []);
         r = (if dot then dropWhile (base_digit b) (tl r) else r)
     in if ip @ fp = [] then None
        else Some (of_nat (num_value b (ip @ fp)) / of_nat b ^ length fp * of_nat base powi scan_exponent mark r))"

definition c_atof :: "string \<Rightarrow> f64" where
  "c_atof s = (
     let t = dropWhile is_space s; neg = (t \<noteq> [] \<and> hd t = CHR ''-'');
         u = (if t \<noteq> [] \<and> is_sign (hd t) then tl t else t);
         signed = (\<lambda>q. to_f64 (if neg then - q else q))
     in if starts_with ''inf'' (lower u) then FInf neg
        else if starts_with ''nan'' (lower u) then FNaN
        else (case (if hex_prefix u then scan_fraction 16 CHR ''p'' 2 (drop 2 u) else None) of
                Some q \<Rightarrow> signed q
              | None \<Rightarrow> (case scan_fraction 10 CHR ''e'' 10 u of Some q \<Rightarrow> signed q | None \<Rightarrow> FNum 0)))"

section \<open>Printing\<close>

text \<open>\<open>%.nf\<close>: the exact value rounded to \<open>n\<close> decimals, ties to even; \<open>to_string\<close> of a \<open>double\<close> is \<open>%f\<close>.\<close>

definition fixed_digits :: "nat \<Rightarrow> nat \<Rightarrow> string" where
  "fixed_digits n m = num_text 10 (m div 10 ^ n) @ (if n = 0 then [] else ''.'' @ zero_pad n (num_text 10 (m mod 10 ^ n)))"

fun fixed_text :: "nat \<Rightarrow> f64 \<Rightarrow> string" where
  "fixed_text n FNaN = ''nan''"
| "fixed_text n (FInf neg) = (if neg then ''-inf'' else ''inf'')"
| "fixed_text n (FNum q) = (
     let (a, b) = quotient_of \<bar>q\<bar>
     in (if q < 0 then ''-'' else []) @ fixed_digits n (nat (round_div (a * 10 ^ n) b)))"

definition double_text :: "f64 \<Rightarrow> string" where
  "double_text = fixed_text 6"

definition int_text :: "int \<Rightarrow> string" where
  "int_text i = (if i < 0 then ''-'' else []) @ num_text 10 (nat \<bar>i\<bar>)"

text \<open>Fields padded to a width, on the left (\<open>%6d\<close>) and on the right (\<open>%-6s\<close>).\<close>

definition right_aligned :: "nat \<Rightarrow> string \<Rightarrow> string" where
  "right_aligned w s = replicate (w - length s) CHR '' '' @ s"

definition left_aligned :: "nat \<Rightarrow> string \<Rightarrow> string" where
  "left_aligned w s = s @ replicate (w - length s) CHR '' ''"

definition hex_text :: "nat \<Rightarrow> nat \<Rightarrow> string" where
  "hex_text w n = zero_pad w (num_text 16 n)"

section \<open>Reading back what was printed\<close>

lemma digit_text_val: "d < 16 \<Longrightarrow> digit_val (digit_text d) = Some d"
  by (simp add: digit_val_def digit_text_def)

lemma digit_text_base: "d < b \<Longrightarrow> b \<le> 16 \<Longrightarrow> base_digit b (digit_text d)"
  by (simp add: base_digit_def digit_text_val)

lemma base_digit_plain: "base_digit b c \<Longrightarrow> \<not> is_space c \<and> \<not> is_sign c"
  by (auto simp: base_digit_def digit_val_def is_space_def is_sign_def Let_def split: if_splits)

lemma num_value_append: "num_value b (ds @ [c]) = b * num_value b ds + the (digit_val c)"
  by (simp add: num_value_def)

lemma num_text_digits:
  assumes "2 \<le> b" "b \<le> 16"
  shows "\<forall>c \<in> set (num_text b n). base_digit b c"
proof (induction n rule: less_induct)
  case (less n)
  show ?case
  proof (cases "n < b")
    case False
    then have "n div b < n" using assms by simp
    then show ?thesis using less.IH [of "n div b"] assms False digit_text_base [of "n mod b" b]
      by (subst num_text.simps) auto
  qed (use assms in \<open>subst num_text.simps, simp add: digit_text_base\<close>)
qed

lemma num_text_value:
  assumes "2 \<le> b" "b \<le> 16"
  shows "num_value b (num_text b n) = n"
proof (induction n rule: less_induct)
  case (less n)
  show ?case
  proof (cases "n < b")
    case True
    then show ?thesis using assms by (subst num_text.simps) (simp add: num_value_def digit_text_val)
  next
    case False
    then have "n div b < n" "n mod b < 16" using assms mod_less_divisor [of b n] by (simp_all del: mod_less_divisor)
    then show ?thesis using less.IH [of "n div b"] assms False
      by (subst num_text.simps) (simp add: num_value_append digit_text_val)
  qed
qed

lemma num_text_ne: "num_text b n \<noteq> []"
  by (subst num_text.simps) simp

lemma num_text_length:
  assumes "2 \<le> b" "1 \<le> w" "n < b ^ w"
  shows "length (num_text b n) \<le> w"
  using assms
proof (induction w arbitrary: n)
  case (Suc w)
  show ?case
  proof (cases "n < b")
    case False
    then have "1 \<le> w" using Suc.prems by (cases w) auto
    moreover have "n div b < b ^ w" using Suc.prems by (simp add: less_mult_imp_div_less mult.commute)
    ultimately show ?thesis using Suc.IH [of "n div b"] Suc.prems False by (subst num_text.simps) simp
  qed (subst num_text.simps, simp)
qed simp

lemma zero_pad_value: "num_value b (zero_pad w s) = num_value b s"
proof -
  have "fold (\<lambda>c n. b * n + the (digit_val c)) (replicate k CHR ''0'') 0 = 0" for k
    by (induction k) (simp_all add: digit_val_def)
  then show ?thesis by (simp add: num_value_def zero_pad_def)
qed

lemma zero_pad_digits: "2 \<le> b \<Longrightarrow> \<forall>c \<in> set s. base_digit b c \<Longrightarrow> \<forall>c \<in> set (zero_pad w s). base_digit b c"
  by (auto simp: zero_pad_def base_digit_def digit_val_def)

lemma zero_pad_ne: "s \<noteq> [] \<Longrightarrow> zero_pad w s \<noteq> []"
  by (simp add: zero_pad_def)

lemma zero_pad_length: "length s \<le> w \<Longrightarrow> length (zero_pad w s) = w"
  by (simp add: zero_pad_def)

lemmas printed_number = num_text_digits num_text_value num_text_ne zero_pad_value zero_pad_digits zero_pad_ne

text \<open>Digits followed by something that is not one are read as their number.\<close>

lemma scan_digits:
  assumes "\<forall>c \<in> set ds. base_digit b c" "ds \<noteq> []" "rest = [] \<or> \<not> base_digit b (hd rest)"
    and "b = 16 \<longrightarrow> \<not> hex_prefix (ds @ rest)"
  shows "scan_number b (ds @ rest) = Some (False, num_value b ds, rest)"
proof -
  obtain d ds' where d: "ds = d # ds'" using assms(2) by (cases ds) auto
  have p: "\<not> is_space d" "\<not> is_sign d" using base_digit_plain [of b d] assms(1) d by simp_all
  have "takeWhile (base_digit b) (ds @ rest) = ds" "dropWhile (base_digit b) (ds @ rest) = rest"
    using assms(1,3) by (cases rest; simp add: takeWhile_append dropWhile_append)+
  then show ?thesis
    using assms(2,4) p unfolding d by (auto simp: scan_number_def is_sign_def Let_def)
qed

end
