(* ===== verification/Plugin_Contract.thy ===== *)
theory Plugin_Contract
  imports Mapping_Fidelity Plugin_Host State_Store Float_Bounds Text_Numbers
begin

text \<open>
  What every vehicle plugin promises the host, as an interface, and what its signals become for a
  consumer of the contract; and the calls a plugin makes on its host. Each plugin's theory
  interprets the interface on its own model.
\<close>

section \<open>Calls on the host\<close>

datatype host_call = Publish canproxy_vehicle_state | SetLink int | Log canproxy_log_level string

text \<open>\<open>logf\<close> of every plugin: the formatted message, cut to its buffer of 256 bytes with the terminating NUL.\<close>

definition logf :: "canproxy_log_level \<Rightarrow> string \<Rightarrow> host_call" where
  "logf level message = Log level (take 255 message)"

lemma logf_is_no_news [simp]:
  "logf l m \<noteq> Publish s" "Publish s \<noteq> logf l m" "logf l m \<noteq> SetLink p" "SetLink p \<noteq> logf l m"
  by (simp_all add: logf_def)

text \<open>
  What \<open>create\<close> comes to: the calls it made and the instance, which is null when it refused;
  \<open>None\<close> is undefined behaviour (\<open>atoi\<close> or \<open>atol\<close> out of range).
\<close>

type_synonym 'p creation = "(host_call list \<times> 'p option) option"

abbreviation refused :: "string \<Rightarrow> 'p creation" where
  "refused why \<equiv> Some ([logf CANPROXY_LOG_ERROR why], None)"

text \<open>The vehicle states among a plugin's calls.\<close>

fun published_states :: "host_call list \<Rightarrow> canproxy_vehicle_state list" where
  "published_states [] = []"
| "published_states (Publish s # cs) = s # published_states cs"
| "published_states (_ # cs) = published_states cs"

lemma published_states_logf [simp]: "published_states (logf l m # cs) = published_states cs"
  by (simp add: logf_def)

lemma published_states_append [simp]: "published_states (xs @ ys) = published_states xs @ published_states ys"
  by (induction xs rule: published_states.induct) simp_all

text \<open>What the store holds after a plugin's calls, each at its time.\<close>

fun host_calls_do :: "(host_call \<times> int) list \<Rightarrow> Snapshot \<Rightarrow> Snapshot" where
  "host_calls_do [] store = store"
| "host_calls_do ((Publish s, t) # cs) store = host_calls_do cs (hostPublish True (Some s) t store)"
| "host_calls_do ((SetLink p, t) # cs) store = host_calls_do cs (hostSetLink True p t store)"
| "host_calls_do ((Log _ _, t) # cs) store = host_calls_do cs store"

section \<open>The promise\<close>

definition valid_sig :: "canproxy_vehicle_state \<Rightarrow> canproxy_signal \<Rightarrow> bool" where
  "valid_sig s sig \<longleftrightarrow> bit (s_valid s) (sig_index sig)"

definition capable_sig :: "canproxy_vehicle_state \<Rightarrow> canproxy_signal \<Rightarrow> bool" where
  "capable_sig s sig \<longleftrightarrow> bit (s_capable s) (sig_index sig)"

lemma has_signal_bits: "has_signal s on sig \<longleftrightarrow> on \<and> valid_sig s sig \<and> capable_sig s sig"
  by (simp add: has_signal_def valid_sig_def capable_sig_def and_sig_bit)

text \<open>
  The least a plugin promises: a valid signal is advertised, and every number of the state is one the
  encoders can take. Then a signal reaches the consumer unless it is enumerated and out of range.
\<close>

locale sound_plugin =
  fixes published :: "'p \<Rightarrow> canproxy_vehicle_state" and fit :: "'p \<Rightarrow> bool"
  assumes valid_capable: "fit p \<Longrightarrow> valid_sig (published p) sig \<Longrightarrow> capable_sig (published p) sig"
    and numbers: "fit p \<Longrightarrow> all_encodable (published p)"
begin

lemma has_signal_iff: "fit p \<Longrightarrow> has_signal (published p) on sig \<longleftrightarrow> on \<and> valid_sig (published p) sig"
  using valid_capable by (auto simp: has_signal_bits)

lemma reaches_or_unknown:
  assumes "fit p"
  shows "\<exists>f g. framesFrom (published p) on ps cnt ma mi = Some f \<and> through_wire f = Some g \<and>
    (\<forall>sig. sig \<noteq> CANPROXY_SIG_COUNT \<longrightarrow>
       (wire_valid g sig \<longleftrightarrow> on \<and> valid_sig (published p) sig \<and> enum_in_range (published p) sig) \<and>
       (wire_valid g sig \<longrightarrow> carries (published p) g sig))"
proof -
  obtain f g where f: "framesFrom (published p) on ps cnt ma mi = Some f"
    and g: "through_wire f = Some g"
    using numbers [OF assms] by (rule all_encodable_frames)
  have v: "wire_valid g sig \<longleftrightarrow> on \<and> valid_sig (published p) sig \<and> enum_in_range (published p) sig"
    if "sig \<noteq> CANPROXY_SIG_COUNT" for sig
    using signal_flagged [OF f g that] has_signal_iff [OF assms] by blast
  have c: "carries (published p) g sig" if "on" "valid_sig (published p) sig" "enum_in_range (published p) sig" for sig
    using signal_carried [OF f g] has_signal_iff [OF assms] that all_encodableD [OF numbers [OF assms]] by blast
  show ?thesis using f g v c by blast
qed

end

text \<open>A plugin whose enumerated signals are always in range: whatever it says is valid arrives.\<close>

locale source_plugin = sound_plugin +
  assumes valid_in_range: "fit p \<Longrightarrow> valid_sig (published p) sig \<Longrightarrow> enum_in_range (published p) sig"
begin

lemma reaches_consumer:
  assumes "fit p"
  shows "\<exists>f g. framesFrom (published p) on ps cnt ma mi = Some f \<and> through_wire f = Some g \<and>
    (\<forall>sig. sig \<noteq> CANPROXY_SIG_COUNT \<longrightarrow>
       (wire_valid g sig \<longleftrightarrow> on \<and> valid_sig (published p) sig) \<and>
       (wire_valid g sig \<longrightarrow> carries (published p) g sig))"
  using reaches_or_unknown [OF assms, of on ps cnt ma mi] valid_in_range [OF assms] by blast

end

section \<open>Facts for the plugins' states\<close>

lemma bit_sig: "bit (CANPROXY_SIG_BIT a) (sig_index b) \<longleftrightarrow> a = b"
  using nth_sig_index(2) [of a] nth_sig_index(2) [of b] by (auto simp: CANPROXY_SIG_BIT_def bit_simps)

lemma valid_sig_or: "bit (v OR w) n \<longleftrightarrow> bit v n \<or> bit (w :: u32) n"
  by (simp add: bit_simps)

lemma encodable_between:
  "of_int a \<le> x \<Longrightarrow> x \<le> of_int b \<Longrightarrow> - (2 ^ 50) \<le> a \<Longrightarrow> b \<le> 2 ^ 50 \<Longrightarrow> encodable (FNum x)"
proof -
  assume a: "of_int a \<le> x" "x \<le> of_int b" "- (2 ^ 50) \<le> a" "b \<le> 2 ^ 50"
  have "rat_of_int (- (2 ^ 50)) \<le> of_int a" using a(3) by (simp only: of_int_le_iff)
  moreover have "rat_of_int b \<le> of_int (2 ^ 50)" using a(4) by (simp only: of_int_le_iff)
  ultimately show ?thesis using a(1,2) by (simp add: abs_le_iff)
qed

lemma lies_encodable: "lies a b v \<Longrightarrow> - (2 ^ 50) \<le> a \<Longrightarrow> b \<le> 2 ^ 50 \<Longrightarrow> encodable v"
  by (elim liesE) (simp add: encodable_between del: encodable.simps)

lemma encodable_zero [simp]: "encodable (FNum 0)"
  by simp

text \<open>The promise for one state, and the steps that keep it.\<close>

definition honest :: "canproxy_vehicle_state \<Rightarrow> bool" where
  "honest s \<longleftrightarrow> (\<forall>sig. valid_sig s sig \<longrightarrow> capable_sig s sig \<and> enum_in_range s sig) \<and> all_encodable s"

lemma source_pluginI: "(\<And>p. fit p \<Longrightarrow> honest (published p)) \<Longrightarrow> source_plugin published fit"
  by standard (auto simp: honest_def)

definition sound_state :: "canproxy_vehicle_state \<Rightarrow> bool" where
  "sound_state s \<longleftrightarrow> (\<forall>sig. valid_sig s sig \<longrightarrow> capable_sig s sig) \<and> all_encodable s"

lemma honest_sound: "honest s \<longleftrightarrow> sound_state s \<and> (\<forall>sig. valid_sig s sig \<longrightarrow> enum_in_range s sig)"
  by (auto simp: honest_def sound_state_def)

lemma sound_pluginI: "(\<And>p. fit p \<Longrightarrow> sound_state (published p)) \<Longrightarrow> sound_plugin published fit"
  by standard (auto simp: sound_state_def)

lemma honest_zero: "honest (zero_vehicle_state\<lparr> s_drivetrain := d, s_source := src, s_vehicle_id := v \<rparr>)"
  by (simp add: honest_def valid_sig_def zero_vehicle_state_def all_encodable_def canproxy_signals_def)

lemma honest_capable: "honest s \<Longrightarrow> honest (s\<lparr> s_capable := s_capable s OR w \<rparr>)"
proof -
  have "enum_in_range (s\<lparr> s_capable := c \<rparr>) sig = enum_in_range s sig"
    "signal_encodable (s\<lparr> s_capable := c \<rparr>) sig = signal_encodable s sig" for c sig
    by (cases sig; simp)+
  then show "honest s \<Longrightarrow> honest (s\<lparr> s_capable := s_capable s OR w \<rparr>)"
    by (auto simp: honest_def valid_sig_def capable_sig_def all_encodable_def bit_simps)
qed

lemma honest_valid:
  assumes "honest s" "capable_sig s sig" "enum_in_range s sig"
  shows "honest (s\<lparr> s_valid := s_valid s OR CANPROXY_SIG_BIT sig \<rparr>)"
proof -
  have "enum_in_range (s\<lparr> s_valid := c \<rparr>) a = enum_in_range s a"
    "signal_encodable (s\<lparr> s_valid := c \<rparr>) a = signal_encodable s a" for c a
    by (cases a; simp)+
  then show ?thesis
    using assms by (auto simp: honest_def valid_sig_def capable_sig_def all_encodable_def valid_sig_or bit_sig)
qed

lemma honest_lamps: "honest s \<Longrightarrow> honest (s\<lparr> s_lamps := l \<rparr>)"
proof -
  have "enum_in_range (s\<lparr> s_lamps := l \<rparr>) a = enum_in_range s a"
    "signal_encodable (s\<lparr> s_lamps := l \<rparr>) a = signal_encodable s a" for a
    by (cases a; simp)+
  then show "honest s \<Longrightarrow> honest (s\<lparr> s_lamps := l \<rparr>)"
    by (simp add: honest_def valid_sig_def capable_sig_def all_encodable_def)
qed

text \<open>A field of the state that holds a number, and one number written to it.\<close>

definition number_field :: "(f64 \<Rightarrow> canproxy_vehicle_state \<Rightarrow> canproxy_vehicle_state) \<Rightarrow> bool" where
  "number_field set_field \<longleftrightarrow> (\<forall>v s. s_valid (set_field v s) = s_valid s \<and> s_capable (set_field v s) = s_capable s \<and>
     s_lamps (set_field v s) = s_lamps s \<and> s_source (set_field v s) = s_source s \<and>
     (\<forall>sig. enum_in_range (set_field v s) sig = enum_in_range s sig) \<and>
     (encodable v \<longrightarrow> all_encodable s \<longrightarrow> all_encodable (set_field v s)))"

lemma honest_number: "number_field f \<Longrightarrow> honest s \<Longrightarrow> encodable v \<Longrightarrow> honest (f v s)"
  by (auto simp: number_field_def honest_def valid_sig_def capable_sig_def)

text \<open>A signal that becomes advertised, valid and known in one step.\<close>

lemma honest_measured:
  assumes "honest s" "number_field f" "encodable v" "\<And>s. enum_in_range s a"
  shows "honest (f v (s\<lparr> s_capable := s_capable s OR CANPROXY_SIG_BIT a, s_valid := s_valid s OR CANPROXY_SIG_BIT a \<rparr>))"
proof -
  let ?s = "s\<lparr> s_capable := s_capable s OR CANPROXY_SIG_BIT a \<rparr>"
  have "capable_sig ?s a" by (simp add: capable_sig_def valid_sig_or bit_sig)
  then have "honest (?s\<lparr> s_valid := s_valid ?s OR CANPROXY_SIG_BIT a \<rparr>)"
    using honest_capable [OF assms(1)] assms(4) by (intro honest_valid)
  then show ?thesis using honest_number [OF assms(2) _ assms(3)] by simp
qed

lemma number_fields:
  "number_field (\<lambda>v s. s\<lparr> s_speed_kmh := v \<rparr>)" "number_field (\<lambda>v s. s\<lparr> s_rpm := v \<rparr>)"
  "number_field (\<lambda>v s. s\<lparr> s_coolant_c := v \<rparr>)" "number_field (\<lambda>v s. s\<lparr> s_fuel_pct := v \<rparr>)"
  "number_field (\<lambda>v s. s\<lparr> s_aux_battery_v := v \<rparr>)" "number_field (\<lambda>v s. s\<lparr> s_ambient_c := v \<rparr>)"
  "number_field (\<lambda>v s. s\<lparr> s_odometer_km := v \<rparr>)"
proof -
  have e: "(\<forall>sig. enum_in_range s' sig = enum_in_range s sig) \<longleftrightarrow>
      (enum_in_range s' CANPROXY_SIG_GEAR = enum_in_range s CANPROXY_SIG_GEAR) \<and>
      (enum_in_range s' CANPROXY_SIG_POWER_STATE = enum_in_range s CANPROXY_SIG_POWER_STATE) \<and>
      (enum_in_range s' CANPROXY_SIG_CHARGING_STATE = enum_in_range s CANPROXY_SIG_CHARGING_STATE)" for s s'
  proof (rule iffI, blast, rule allI)
    fix sig
    assume "(enum_in_range s' CANPROXY_SIG_GEAR = enum_in_range s CANPROXY_SIG_GEAR) \<and>
      (enum_in_range s' CANPROXY_SIG_POWER_STATE = enum_in_range s CANPROXY_SIG_POWER_STATE) \<and>
      (enum_in_range s' CANPROXY_SIG_CHARGING_STATE = enum_in_range s CANPROXY_SIG_CHARGING_STATE)"
    then show "enum_in_range s' sig = enum_in_range s sig" by (cases sig) auto
  qed
  show "number_field (\<lambda>v s. s\<lparr> s_speed_kmh := v \<rparr>)" "number_field (\<lambda>v s. s\<lparr> s_rpm := v \<rparr>)"
    "number_field (\<lambda>v s. s\<lparr> s_coolant_c := v \<rparr>)" "number_field (\<lambda>v s. s\<lparr> s_fuel_pct := v \<rparr>)"
    "number_field (\<lambda>v s. s\<lparr> s_aux_battery_v := v \<rparr>)" "number_field (\<lambda>v s. s\<lparr> s_ambient_c := v \<rparr>)"
    "number_field (\<lambda>v s. s\<lparr> s_odometer_km := v \<rparr>)"
    unfolding number_field_def e by (simp_all add: all_encodable_def canproxy_signals_def)
qed

lemma zero_bits: "valid_sig (zero_vehicle_state\<lparr> s_drivetrain := d, s_source := src, s_vehicle_id := v \<rparr>) sig = False"
  "capable_sig (zero_vehicle_state\<lparr> s_drivetrain := d, s_source := src, s_vehicle_id := v \<rparr>) sig = False"
  by (simp_all add: valid_sig_def capable_sig_def zero_vehicle_state_def)

lemma honest_power:
  assumes "honest s" "0 \<le> ps" "ps \<le> 3"
  shows "honest (s\<lparr> s_power_state := ps \<rparr>)"
proof -
  have e: "enum_in_range (s\<lparr> s_power_state := ps \<rparr>) a \<longleftrightarrow> a = CANPROXY_SIG_POWER_STATE \<or> enum_in_range s a"
    "signal_encodable (s\<lparr> s_power_state := ps \<rparr>) a = signal_encodable s a" for a
    using assms(2,3) by (cases a; simp)+
  show ?thesis
    using assms(1) by (auto simp: honest_def valid_sig_def capable_sig_def all_encodable_def e)
qed

end
