(* ===== verification/Proxy_System.thy ===== *)
theory Proxy_System
  imports Daemon Plugin_Contract
begin

text \<open>
  The running daemon as a whole: the plugin's thread calls its host, the publishing thread ticks, and
  both meet in the store. A step is one access to the store, which its mutex makes atomic; the
  steps of the two threads interleave freely. The clock is read before the access, so a step
  carries the value it read: nothing is assumed about how the readings of the two threads compare.
\<close>

section \<open>Steps of the system\<close>

datatype sys_event = Called host_call int | Ticked int "(u32 \<times> bytes) list"

record Proxy =
  q_store :: Snapshot
  q_pub :: "Publisher \<times> int"

inductive sys_step :: "Proxy \<Rightarrow> sys_event \<Rightarrow> Proxy \<Rightarrow> bool" where
  sys_called: "sys_step q (Called c now) (q\<lparr> q_store := host_calls_do [(c, now)] (q_store q) \<rparr>)"
| sys_ticked: "thread_tick (q_pub q) (now, q_store q, sent) pub \<Longrightarrow>
    sys_step q (Ticked now sent) (q\<lparr> q_pub := pub \<rparr>)"

inductive_cases sys_stepE: "sys_step q e q'"
inductive_simps sys_called_iff: "sys_step q (Called c now) q'"
inductive_simps sys_ticked_iff: "sys_step q (Ticked now sent) q'"

inductive sys_run :: "Proxy \<Rightarrow> sys_event list \<Rightarrow> Proxy \<Rightarrow> bool" where
  sys_nil: "sys_run q [] q"
| sys_snoc: "sys_run q es q' \<Longrightarrow> sys_step q' e q'' \<Longrightarrow> sys_run q (es @ [e]) q''"

text \<open>The daemon after \<open>pub.start()\<close>: nothing is known yet.\<close>

definition sys_start :: "int \<Rightarrow> Config \<Rightarrow> canproxy_plugin \<Rightarrow> Proxy" where
  "sys_start t0 cfg p = \<lparr> q_store = StateStore_init, q_pub = thread_start t0 (daemon_publisher cfg p) \<rparr>"

section \<open>The two threads of a run\<close>

fun calls_of :: "sys_event list \<Rightarrow> (host_call \<times> int) list" where
  "calls_of [] = []"
| "calls_of (Called c now # es) = (c, now) # calls_of es"
| "calls_of (Ticked _ _ # es) = calls_of es"

text \<open>The ticks, each with the store it met.\<close>

fun heartbeat :: "Snapshot \<Rightarrow> sys_event list \<Rightarrow> (int \<times> Snapshot \<times> (u32 \<times> bytes) list) list" where
  "heartbeat st [] = []"
| "heartbeat st (Called c now # es) = heartbeat (host_calls_do [(c, now)] st) es"
| "heartbeat st (Ticked now sent # es) = (now, st, sent) # heartbeat st es"

text \<open>What the plugin has last said, and when; and what it last said of the link.\<close>

definition last_said :: "(host_call \<times> int) list \<Rightarrow> (canproxy_vehicle_state \<times> int) option" where
  "last_said cs = fold (\<lambda>(c, t) l. case c of Publish s \<Rightarrow> Some (s, t) | _ \<Rightarrow> l) cs None"

definition last_link :: "(host_call \<times> int) list \<Rightarrow> bool option" where
  "last_link cs = fold (\<lambda>(c, t) l. case c of SetLink p \<Rightarrow> Some (p \<noteq> 0) | _ \<Rightarrow> l) cs None"

lemma calls_of_append [simp]: "calls_of (es @ fs) = calls_of es @ calls_of fs"
  by (induction es rule: calls_of.induct) simp_all

lemma host_calls_append [simp]: "host_calls_do (cs @ ds) st = host_calls_do ds (host_calls_do cs st)"
  by (induction cs st rule: host_calls_do.induct) simp_all

lemma heartbeat_append [simp]:
  "heartbeat st (es @ fs) = heartbeat st es @ heartbeat (host_calls_do (calls_of es) st) fs"
proof (induction st es rule: heartbeat.induct)
  case (2 st c now es)
  then show ?case by (cases c) simp_all
qed simp_all

lemma one_call_said:
  "snap_said (host_calls_do [(c, t)] st) = (case c of Publish s \<Rightarrow> Some (s, t) | _ \<Rightarrow> snap_said st)"
  "snap_link (host_calls_do [(c, t)] st) = (case c of SetLink p \<Rightarrow> Some (p \<noteq> 0) | _ \<Rightarrow> snap_link st)"
  by (cases c; simp add: hostPublish_def hostSetLink_def store.said_publish store.link_publish
      store.said_set_link store.link_set_link)+

text \<open>The store holds what was said last.\<close>

lemma calls_said:
  "snap_said (host_calls_do cs StateStore_init) = last_said cs"
  "snap_link (host_calls_do cs StateStore_init) = last_link cs"
proof (induction cs rule: rev_induct)
  case Nil
  show "snap_said (host_calls_do [] StateStore_init) = last_said []"
    "snap_link (host_calls_do [] StateStore_init) = last_link []"
    by (simp_all add: last_said_def last_link_def store.said_init store.link_init)
next
  case (snoc c cs)
  obtain h t where c: "c = (h, t)" by fastforce
  show "snap_said (host_calls_do (cs @ [c]) StateStore_init) = last_said (cs @ [c])"
    "snap_link (host_calls_do (cs @ [c]) StateStore_init) = last_link (cs @ [c])"
    using snoc.IH
    by (simp_all add: c one_call_said [simplified] last_said_def last_link_def split: host_call.splits)
qed

lemma last_said_published: "last_said cs = Some (s, t) \<Longrightarrow> (Publish s, t) \<in> set cs"
  unfolding last_said_def by (induction cs rule: rev_induct) (auto split: host_call.splits)

lemma published_map: "s \<in> set (published_states cs) \<longleftrightarrow> Publish s \<in> set cs"
  by (induction cs rule: published_states.induct) auto

text \<open>The numbers of the store can be packed if those of every published state can.\<close>

lemma store_encodable:
  assumes "\<forall>s \<in> set (published_states (map fst cs)). all_encodable s"
  shows "all_encodable (state (host_calls_do cs StateStore_init))"
proof -
  have "\<forall>s \<in> set (published_states (map fst cs)). all_encodable s \<Longrightarrow> all_encodable (state st) \<Longrightarrow>
      all_encodable (state (host_calls_do cs st))" for st
    by (induction cs st rule: host_calls_do.induct)
      (simp_all add: hostPublish_def hostSetLink_def store_publish_def store_setLink_def)
  then show ?thesis using assms by (simp add: StateStore_init_def zero_encodable)
qed

section \<open>A run, thread by thread\<close>

lemma thread_run_snoc: "thread_run st (es @ [e]) st'' \<longleftrightarrow> (\<exists>st'. thread_run st es st' \<and> thread_tick st' e st'')"
proof
  assume "thread_run st (es @ [e]) st''"
  then show "\<exists>st'. thread_run st es st' \<and> thread_tick st' e st''" by (cases rule: thread_run.cases) auto
qed (blast intro: run_snoc)

lemma thread_run_nil: "thread_run st [] st' \<longleftrightarrow> st' = st"
  by (auto elim: thread_run.cases intro: run_nil)

lemma sys_run_snoc: "sys_run q (es @ [e]) q'' \<longleftrightarrow> (\<exists>q'. sys_run q es q' \<and> sys_step q' e q'')"
proof
  assume "sys_run q (es @ [e]) q''"
  then show "\<exists>q'. sys_run q es q' \<and> sys_step q' e q''" by (cases rule: sys_run.cases) auto
qed (blast intro: sys_snoc)

lemma sys_run_nil: "sys_run q [] q' \<longleftrightarrow> q' = q"
  by (auto elim: sys_run.cases intro: sys_nil)

lemma run_split:
  "sys_run q es q' \<longleftrightarrow> thread_run (q_pub q) (heartbeat (q_store q) es) (q_pub q') \<and>
    q_store q' = host_calls_do (calls_of es) (q_store q)"
proof (induction es arbitrary: q' rule: rev_induct)
  case Nil
  show ?case by (cases q; cases q') (auto simp: sys_run_nil thread_run_nil)
next
  case (snoc e es)
  show ?case
  proof (cases e)
    case (Called c now)
    have "sys_step r e q' \<longleftrightarrow> q_pub q' = q_pub r \<and> q_store q' = host_calls_do [(c, now)] (q_store r)" for r
      by (cases r; cases q') (auto simp: Called sys_called_iff)
    then have "sys_run q (es @ [e]) q' \<longleftrightarrow>
        (\<exists>r. sys_run q es r \<and> q_pub q' = q_pub r \<and> q_store q' = host_calls_do [(c, now)] (q_store r))"
      unfolding sys_run_snoc by simp
    also have "\<dots> \<longleftrightarrow> thread_run (q_pub q) (heartbeat (q_store q) es) (q_pub q') \<and>
        q_store q' = host_calls_do [(c, now)] (host_calls_do (calls_of es) (q_store q))"
      unfolding snoc.IH by (metis select_convs(1) select_convs(2))
    finally show ?thesis by (simp add: Called)
  next
    case (Ticked now sent)
    have "sys_step r e q' \<longleftrightarrow> q_store q' = q_store r \<and> thread_tick (q_pub r) (now, q_store r, sent) (q_pub q')" for r
      by (cases r; cases q') (auto simp: Ticked sys_ticked_iff)
    then have "sys_run q (es @ [e]) q' \<longleftrightarrow>
        (\<exists>r. sys_run q es r \<and> q_store q' = q_store r \<and> thread_tick (q_pub r) (now, q_store r, sent) (q_pub q'))"
      unfolding sys_run_snoc by simp
    also have "\<dots> \<longleftrightarrow> (\<exists>st. thread_run (q_pub q) (heartbeat (q_store q) es) st \<and>
        q_store q' = host_calls_do (calls_of es) (q_store q) \<and> thread_tick st (now, q_store q', sent) (q_pub q'))"
      unfolding snoc.IH by (metis select_convs(1) select_convs(2))
    also have "\<dots> \<longleftrightarrow> thread_run (q_pub q) (heartbeat (q_store q) (es @ [e])) (q_pub q') \<and>
        q_store q' = host_calls_do (calls_of es) (q_store q)"
      by (auto simp: Ticked thread_run_snoc simp del: split_paired_Ex)
    finally show ?thesis by (simp add: Ticked)
  qed
qed

text \<open>A tick of a run, with the events before it.\<close>

lemma heartbeat_member:
  assumes "(t, st, sent) \<in> set (heartbeat st0 es)"
  obtains es1 es2 where "es = es1 @ Ticked t sent # es2" "st = host_calls_do (calls_of es1) st0"
proof -
  have "\<exists>es1 es2. es = es1 @ Ticked t sent # es2 \<and> st = host_calls_do (calls_of es1) st0"
    using assms
  proof (induction es arbitrary: st0)
    case (Cons e es)
    show ?case
    proof (cases e)
      case (Called c now)
      then have "(t, st, sent) \<in> set (heartbeat (host_calls_do [(c, now)] st0) es)" using Cons.prems by simp
      from Cons.IH [OF this] obtain es1 es2 where "es = es1 @ Ticked t sent # es2"
        "st = host_calls_do (calls_of es1) (host_calls_do [(c, now)] st0)"
        by blast
      then have "e # es = (e # es1) @ Ticked t sent # es2" "st = host_calls_do (calls_of (e # es1)) st0"
        using host_calls_append [of "[(c, now)]" "calls_of es1" st0] by (simp_all add: Called del: host_calls_append)
      then show ?thesis by blast
    next
      case (Ticked now s)
      then consider "t = now" "st = st0" "sent = s" | "(t, st, sent) \<in> set (heartbeat st0 es)" using Cons.prems by auto
      then show ?thesis
      proof cases
        case 1
        then have "e # es = [] @ Ticked t sent # es" "st = host_calls_do (calls_of []) st0" by (simp_all add: Ticked)
        then show ?thesis by blast
      next
        case 2
        then obtain es1 es2 where "es = es1 @ Ticked t sent # es2" "st = host_calls_do (calls_of es1) st0"
          using Cons.IH by blast
        then have "e # es = (e # es1) @ Ticked t sent # es2" "st = host_calls_do (calls_of (e # es1)) st0"
          by (simp_all add: Ticked)
        then show ?thesis by blast
      qed
    qed
  qed simp
  then show ?thesis using that by blast
qed

text \<open>Every tick of the thread is one of an armed publisher with the timeout it was started with.\<close>

lemma thread_run_member:
  assumes "thread_run (thread_start t0 (Publisher_new timeout ma mi)) hs st" "(t, store, sent) \<in> set hs"
  obtains p wake p' logs where "tick store t p = Some (wake, p', sent, logs)" "m_armed p" "wf_slots (m_slots p)"
    "m_timeout p = timeout"
proof -
  have "m_timeout (fst st) = timeout \<and> ((t, store, sent) \<in> set hs \<longrightarrow>
      (\<exists>p wake p' logs. tick store t p = Some (wake, p', sent, logs) \<and> m_armed p \<and> wf_slots (m_slots p) \<and> m_timeout p = timeout))"
    using assms(1)
  proof (induction "thread_start t0 (Publisher_new timeout ma mi)" hs st rule: thread_run.induct)
    case run_nil
    show ?case by (simp add: thread_start_def arm_def Publisher_new_def)
  next
    case (run_snoc es st e st')
    obtain p wake now d s p' wake' where eq: "st = (p, wake)" "e = (now, d, s)" "st' = (p', wake')"
      by (metis prod.exhaust)
    obtain logs where t: "tick d now p = Some (wake', p', s, logs)"
      using run_snoc.hyps(3) eq by (auto elim: thread_tickE)
    have "pub_inv t0 es (p, wake)" using pub_inv_run run_snoc.hyps(1) eq by blast
    then have p: "m_armed p" "wf_slots (m_slots p)" by (simp_all add: pub_inv_def)
    have "m_timeout p = timeout" "m_timeout p' = timeout"
      using run_snoc.hyps(2) tick_cases(4) [OF t p(1)] eq by simp_all
    then show ?case using run_snoc.hyps(2) t p by (auto simp: eq)
  qed
  then show ?thesis using assms(2) that by blast
qed

lemma sys_run_ticks:
  assumes "sys_run (sys_start t0 cfg p) es q" "es = es1 @ Ticked now sent # es2"
  obtains pub wake pub' logs where "m_armed pub" "wf_slots (m_slots pub)"
    "m_timeout pub = uint (pluginTimeoutMs cfg) * 1000000"
    "tick (host_calls_do (calls_of es1) StateStore_init) now pub = Some (wake, pub', sent, logs)"
proof -
  have "thread_run (thread_start t0 (daemon_publisher cfg p)) (heartbeat StateStore_init es) (q_pub q)"
    using assms(1) by (simp add: run_split sys_start_def)
  moreover have "(now, host_calls_do (calls_of es1) StateStore_init, sent) \<in> set (heartbeat StateStore_init es)"
    by (simp add: assms(2))
  ultimately show ?thesis
    unfolding daemon_publisher_def by (rule thread_run_member) (rule that)
qed

section \<open>What a consumer sees\<close>

abbreviation timeout_ns :: "Config \<Rightarrow> int" where
  "timeout_ns cfg \<equiv> uint (pluginTimeoutMs cfg) * 1000000"

text \<open>What the plugin has said counts: recently enough, and with the vehicle present.\<close>

definition current_state :: "int \<Rightarrow> int \<Rightarrow> (host_call \<times> int) list \<Rightarrow> canproxy_vehicle_state option" where
  "current_state timeout now cs =
     (case last_said cs of
        None \<Rightarrow> None
      | Some (s, u) \<Rightarrow> if last_link cs = Some True \<and> now - u \<le> timeout then Some s else None)"

lemma current_live:
  "live (derive (host_calls_do cs StateStore_init) now timeout) \<longleftrightarrow> current_state timeout now cs \<noteq> None"
  by (auto simp: derive_live calls_said current_state_def split: option.splits)

lemma current_stored:
  assumes "current_state timeout now cs = Some s"
  shows "state (host_calls_do cs StateStore_init) = s"
proof -
  obtain u where "last_said cs = Some (s, u)"
    using assms by (auto simp: current_state_def split: option.splits if_splits)
  then have "snap_said (host_calls_do cs StateStore_init) = Some (s, u)" by (simp add: calls_said)
  then show ?thesis by (simp add: snap_said_def store_snapshot_def split: if_splits)
qed

text \<open>What a tick's frames decode to.\<close>

lemma tick_shows_current:
  assumes run: "sys_run (sys_start t0 cfg p) (es @ [Ticked now sent]) q"
    and enc: "\<forall>s \<in> set (published_states (map fst (calls_of es))). all_encodable s"
  shows "\<exists>g. (\<forall>(i, d) \<in> set sent. decodes_to i d g) \<and>
    (\<forall>sig. sig \<noteq> CANPROXY_SIG_COUNT \<longrightarrow>
      (case current_state (timeout_ns cfg) now (calls_of es) of
         None \<Rightarrow> \<not> wire_valid g sig
       | Some s \<Rightarrow> (wire_valid g sig \<longleftrightarrow> valid_sig s sig \<and> capable_sig s sig \<and> enum_in_range s sig) \<and>
           (wire_valid g sig \<longrightarrow> carries s g sig)))"
proof -
  let ?st = "host_calls_do (calls_of es) StateStore_init"
  obtain pub wake pub' logs where pub: "m_armed pub" "wf_slots (m_slots pub)" "m_timeout pub = timeout_ns cfg"
    and t: "tick ?st now pub = Some (wake, pub', sent, logs)"
    by (rule sys_run_ticks [OF run refl])
  have e: "all_encodable (state ?st)" using enc by (rule store_encodable)
  obtain f g where f: "framesFrom (state ?st) (live (derive ?st now (m_timeout pub)))
      (proxyState (derive ?st now (m_timeout pub))) (m_counter pub) (m_pluginMajor pub) (m_pluginMinor pub) = Some f"
    and g: "through_wire f = Some g" "\<forall>(i, d) \<in> set sent. decodes_to i d g"
    using snapshot_sent [OF t pub(1) e] by blast
  have "case current_state (timeout_ns cfg) now (calls_of es) of
         None \<Rightarrow> \<not> wire_valid g sig
       | Some s \<Rightarrow> (wire_valid g sig \<longleftrightarrow> valid_sig s sig \<and> capable_sig s sig \<and> enum_in_range s sig) \<and>
           (wire_valid g sig \<longrightarrow> carries s g sig)"
    if sig: "sig \<noteq> CANPROXY_SIG_COUNT" for sig
  proof (cases "current_state (timeout_ns cfg) now (calls_of es)")
    case None
    then show ?thesis
      using signal_flagged [OF f g(1) sig] by (simp add: pub(3) current_live has_signal_bits)
  next
    case (Some s)
    then have s: "state ?st = s" "live (derive ?st now (m_timeout pub))"
      using current_stored by (simp_all add: pub(3) current_live)
    have "wire_valid g sig \<longleftrightarrow> valid_sig s sig \<and> capable_sig s sig \<and> enum_in_range s sig"
      using signal_flagged [OF f g(1) sig] s by (simp add: has_signal_bits)
    moreover have "carries s g sig" if "wire_valid g sig"
      using signal_carried [OF f g(1), of sig] signal_flagged [OF f g(1) sig] that s all_encodableD [OF e] by simp
    ultimately show ?thesis by (simp add: Some)
  qed
  then show ?thesis using g(2) by blast
qed

text \<open>
  C2: In any interleaving of plugin and publisher, what a consumer decodes of one tick's frames is the
  plugin's last published state, if that is no older than the timeout and the link was last reported
  up: a signal reads as valid exactly if that state has it valid, advertised and in range, and then
  holds its value. Otherwise no signal reads as valid. Nothing older, torn or invented is seen.
\<close>

theorem consumer_sees_last_state:
  assumes run: "sys_run (sys_start t0 cfg p) (es @ [Ticked now sent]) q"
    and enc: "\<forall>s \<in> set (published_states (map fst (calls_of es))). all_encodable s"
  shows "\<exists>g. (\<forall>(i, d) \<in> set sent. decodes_to i d g) \<and>
    (\<forall>sig. sig \<noteq> CANPROXY_SIG_COUNT \<longrightarrow>
      (case current_state (timeout_ns cfg) now (calls_of es) of
         None \<Rightarrow> \<not> wire_valid g sig
       | Some s \<Rightarrow> (wire_valid g sig \<longleftrightarrow> valid_sig s sig \<and> capable_sig s sig \<and> enum_in_range s sig) \<and>
           (wire_valid g sig \<longrightarrow> carries s g sig)))"
  using assms by (rule tick_shows_current)

section \<open>Frames on the bus\<close>

definition canonical_frame :: "u32 \<Rightarrow> bytes \<Rightarrow> bool" where
  "canonical_frame i d \<longleftrightarrow>
     (if i = CANPROXY_ID_STATUS then canonical_status d
      else if i = CANPROXY_ID_IDENTITY then canonical_identity d
      else if i = CANPROXY_ID_MOTION then canonical_motion d
      else if i = CANPROXY_ID_EDRIVE then canonical_edrive d
      else if i = CANPROXY_ID_TELLTALES then canonical_telltales d
      else if i = CANPROXY_ID_ENERGY then canonical_energy d
      else if i = CANPROXY_ID_TRIP then canonical_trip d
      else if i = CANPROXY_ID_THERMAL then canonical_thermal d
      else i = CANPROXY_ID_ASSIST \<and> canonical_assist d)"

lemma sendFrame_canonical:
  assumes "sendFrame s f = Some [(i, d)]" "slot_id s = i"
  shows "canonical_frame i d"
  using assms
  by (auto simp: sendFrame_def canonical_frame_def Let_def contract_consts pack_canonical_status pack_canonical_identity
      pack_canonical_motion pack_canonical_edrive pack_canonical_telltales pack_canonical_energy pack_canonical_trip
      pack_canonical_thermal pack_canonical_assist split: if_splits)

lemma canonical_frame_length: "canonical_frame i d \<Longrightarrow> length d = 8"
  using canonical_lengths by (auto simp: canonical_frame_def CANPROXY_FRAME_DLC_def split: if_splits)

lemma contract_id_masked: "i \<in> set kOrder \<Longrightarrow> i AND CAN_SFF_MASK = i"
  by (auto simp: kOrder_def CAN_SFF_MASK_def contract_consts)

text \<open>
  C9: Every frame the daemon puts on an open bus, in any run with any plugin, is well formed: a standard
  frame with an identifier of the contract, eight bytes long, reserved bits and bytes zero and
  bounded fields in their range; and no tick sends an identifier twice.
\<close>

theorem bus_frames_well_formed:
  assumes run: "sys_run (sys_start t0 cfg p) (es @ [Ticked now sent]) q" and bus: "sock_open bus"
  shows "(\<forall>fr \<in> set (daemon_sink bus sent). \<exists>f. fr = Some f \<and> can_id f \<in> set contract_ids \<and> can_dlc f = 8 \<and>
      canonical_frame (can_id f) (can_data f)) \<and> distinct (map fst sent)"
proof -
  obtain pub wake pub' logs where pub: "m_armed pub" "wf_slots (m_slots pub)" "m_timeout pub = timeout_ns cfg"
    and t: "tick (host_calls_do (calls_of es) StateStore_init) now pub = Some (wake, pub', sent, logs)"
    by (rule sys_run_ticks [OF run refl])
  note sent = tick_sent [OF t pub(1,2)]
  have "\<exists>f. CanSocket_frame bus i d = Some f \<and> can_id f \<in> set contract_ids \<and> can_dlc f = 8 \<and>
      canonical_frame (can_id f) (can_data f)" if d: "(i, d) \<in> set sent" for i d
  proof -
    have i: "i \<in> set kOrder" using sent(2) d by force
    obtain s f where "slot_id s = i" "sendFrame s f = Some [(i, d)]" using t pub(1) d by (rule sent_frame)
    then have c: "canonical_frame i d" using sendFrame_canonical by blast
    then have "CanSocket_frame bus i d = Some \<lparr> can_id = i, can_dlc = 8, can_data = d \<rparr>"
      using bus i by (intro frame_of_contract canonical_frame_length contract_id_masked)
    then show ?thesis using c i by (simp add: kOrder_ids)
  qed
  then show ?thesis using sent(1) by (auto simp: daemon_sink_def)
qed

section \<open>The system goes on\<close>

lemma system_steps_on:
  assumes run: "sys_run (sys_start t0 cfg p) es q"
    and enc: "\<forall>s \<in> set (published_states (map fst (calls_of es))). all_encodable s"
    and now: "snd (q_pub q) \<le> now"
  shows "\<exists>sent q'. sys_step q (Ticked now sent) q' \<and> now \<le> snd (q_pub q') \<and> snd (q_pub q') \<le> now + 50000000"
proof -
  obtain pub wake where q: "q_pub q = (pub, wake)" by fastforce
  have st: "q_store q = host_calls_do (calls_of es) StateStore_init"
    and "thread_run (thread_start t0 (daemon_publisher cfg p)) (heartbeat StateStore_init es) (pub, wake)"
    using run q by (simp_all add: run_split sys_start_def)
  then obtain sent pub' wake' where t: "thread_tick (pub, wake) (now, q_store q, sent) (pub', wake')"
    "now \<le> wake'" "wake' \<le> now + 50000000"
    using thread_steps_on store_encodable [OF enc] now q unfolding daemon_publisher_def by (metis snd_conv)
  have "sys_step q (Ticked now sent) (q\<lparr> q_pub := (pub', wake') \<rparr>)"
    using t(1) by (intro sys_ticked) (simp add: q)
  then show ?thesis using t(2,3) by (intro exI [of _ sent] exI [of _ "q\<lparr> q_pub := (pub', wake') \<rparr>"] conjI) simp_all
qed

section \<open>When the plugin falls silent\<close>

text \<open>The frame of an identifier that a consumer holds: the last one sent, with its time.\<close>

definition last_frame :: "u32 \<Rightarrow> (int \<times> Snapshot \<times> (u32 \<times> bytes) list) list \<Rightarrow> (int \<times> bytes) option" where
  "last_frame i hs = fold (\<lambda>(now, _, sent) l. case map_of sent i of Some d \<Rightarrow> Some (now, d) | None \<Rightarrow> l) hs None"

lemma last_frame_snoc:
  "last_frame i (hs @ [(now, st, sent)]) = (case map_of sent i of Some d \<Rightarrow> Some (now, d) | None \<Rightarrow> last_frame i hs)"
  by (simp add: last_frame_def split: option.split)

lemma last_frame_sent:
  "last_sent i hs = Some t \<Longrightarrow> \<exists>st sent d. (t, st, sent) \<in> set hs \<and> (i, d) \<in> set sent \<and> last_frame i hs = Some (t, d)"
proof (induction hs rule: rev_induct)
  case (snoc h hs)
  obtain now st sent where h: "h = (now, st, sent)" by (metis prod.exhaust)
  show ?case
  proof (cases "map_of sent i")
    case None
    then have "i \<notin> fst ` set sent" by (simp add: map_of_eq_None_iff)
    then show ?thesis using snoc None by (fastforce simp: h last_frame_snoc)
  next
    case (Some d)
    then have "(i, d) \<in> set sent" by (rule map_of_SomeD)
    moreover from this have "i \<in> fst ` set sent" by force
    ultimately show ?thesis using snoc.prems Some by (auto simp: h last_frame_snoc)
  qed
qed simp

text \<open>
  C8: A consumer learns of a silent plugin in bounded time: once nothing has been published for the
  timeout, one cycle and 200 ms, and the publisher's next wake-up is not later than that margin, the last frame of
  every mandatory signal identifier is the one that says not available, and it is not stale.
\<close>

theorem consumer_notices_silence:
  assumes run: "sys_run (sys_start t0 cfg p) es q" and started: "heartbeat StateStore_init es \<noteq> []"
    and late: "snd (q_pub q) \<le> now" "now < snd (q_pub q) + 200000000"
    and silent: "\<forall>s u. (Publish s, u) \<in> set (calls_of es) \<longrightarrow> u + timeout_ns cfg + cycle_ns i + 200000000 \<le> now"
    and i: "i \<in> set kOrder" "i \<notin> {CANPROXY_ID_STATUS, CANPROXY_ID_IDENTITY, CANPROXY_ID_ASSIST}"
  shows "\<exists>t d. last_frame i (heartbeat StateStore_init es) = Some (t, d) \<and> (i, d) \<in> set silent_frames \<and>
    now - t < stale_ns i"
proof -
  let ?hs = "heartbeat StateStore_init es"
  have tr: "thread_run (thread_start t0 (daemon_publisher cfg p)) ?hs (q_pub q)"
    using run by (simp add: run_split sys_start_def)
  then have inv: "pub_inv t0 ?hs (fst (q_pub q), snd (q_pub q))"
    unfolding daemon_publisher_def by (simp add: pub_inv_run)
  have "i \<noteq> CANPROXY_ID_ASSIST" using i(2) by simp
  then obtain t where t: "last_sent i ?hs = Some t" "snd (q_pub q) \<le> t + cycle_ns i"
    using pub_inv_last [OF inv i(1) _ started] by blast
  then obtain st sent d where d: "(t, st, sent) \<in> set ?hs" "(i, d) \<in> set sent" "last_frame i ?hs = Some (t, d)"
    using last_frame_sent by blast
  obtain es1 es2 where es: "es = es1 @ Ticked t sent # es2" "st = host_calls_do (calls_of es1) StateStore_init"
    using d(1) by (rule heartbeat_member)
  obtain pub wake pub' logs where pub: "m_armed pub" "wf_slots (m_slots pub)" "m_timeout pub = timeout_ns cfg"
    "tick st t pub = Some (wake, pub', sent, logs)"
    using sys_run_ticks [OF run es(1)] unfolding es(2) [symmetric] .
  have "m_timeout pub < t - u" if "snap_said st = Some (s, u)" for s u
  proof -
    have "(Publish s, u) \<in> set (calls_of es1)" using that es(2) last_said_published by (simp add: calls_said)
    then have "u + timeout_ns cfg + cycle_ns i + 200000000 \<le> now" using silent by (simp add: es(1))
    then show ?thesis using t(2) late(2) pub(3) by linarith
  qed
  then have "i = CANPROXY_ID_STATUS \<and> d ! 3 \<noteq> CANPROXY_STATE_OK \<or> i = CANPROXY_ID_IDENTITY \<or> (i, d) \<in> set silent_frames"
    using silent_tick [OF pub(4,1) d(2)] by blast
  moreover have "now - t < stale_ns i" using t(2) late(2) stale_slack [OF i(1)] by linarith
  ultimately show ?thesis using d(3) i(2) by blast
qed

section \<open>Witnesses\<close>

definition sample_plugin :: canproxy_plugin where
  "sample_plugin = \<lparr> abi_version = 1, p_name = Some ''sim'', version_major = 1, version_minor = 0,
     p_create = True, p_start = True, p_stop = True, p_destroy = True \<rparr>"

text \<open>The heartbeat starts, the plugin reports the vehicle and a state, and the heartbeat goes on.\<close>

lemma sample_system:
  obtains sent1 sent2 q where "sys_run (sys_start 0 Config_default sample_plugin)
      ([Ticked 0 sent1, Called (SetLink 1) 5, Called (Publish sample_state) 6] @ [Ticked 50000000 sent2]) q"
proof -
  let ?q = "sys_start 0 Config_default sample_plugin"
  obtain sent1 q0 where q0: "sys_step ?q (Ticked 0 sent1) q0" "snd (q_pub q0) \<le> 50000000"
    using system_steps_on [OF sys_nil, of 0 Config_default sample_plugin 0]
    by (auto simp: sys_start_def thread_start_def)
  let ?linked = "q0\<lparr> q_store := host_calls_do [(SetLink 1, 5)] (q_store q0) \<rparr>"
  let ?told = "?linked\<lparr> q_store := host_calls_do [(Publish sample_state, 6)] (q_store ?linked) \<rparr>"
  have "sys_run ?q ([] @ [Ticked 0 sent1]) q0" using sys_nil q0(1) by (rule sys_snoc)
  then have "sys_run ?q (([] @ [Ticked 0 sent1]) @ [Called (SetLink 1) 5]) ?linked"
    using sys_called by (rule sys_snoc)
  then have "sys_run ?q ((([] @ [Ticked 0 sent1]) @ [Called (SetLink 1) 5]) @ [Called (Publish sample_state) 6]) ?told"
    using sys_called by (rule sys_snoc)
  then have r1: "sys_run ?q [Ticked 0 sent1, Called (SetLink 1) 5, Called (Publish sample_state) 6] ?told"
    by (simp only: append_Nil append_Cons)
  obtain sent2 q2 where "sys_step ?told (Ticked 50000000 sent2) q2"
    using system_steps_on [OF r1, of 50000000] q0(2) by (auto simp: sample_encodable)
  with r1 have "sys_run ?q ([Ticked 0 sent1, Called (SetLink 1) 5, Called (Publish sample_state) 6] @ [Ticked 50000000 sent2]) q2"
    by (rule sys_snoc)
  then show ?thesis by (rule that)
qed

lemma sample_published: "\<forall>s \<in> set (published_states (map fst (calls_of
    [Ticked 0 sent, Called (SetLink 1) 5, Called (Publish sample_state) 6]))). all_encodable s"
  by (simp add: sample_encodable)

theorem consumer_sees_last_state_witness:
  "\<exists>sent1 sent q g. sys_run (sys_start 0 Config_default sample_plugin)
      ([Ticked 0 sent1, Called (SetLink 1) 5, Called (Publish sample_state) 6] @ [Ticked 50000000 sent]) q \<and>
    (\<forall>(i, d) \<in> set sent. decodes_to i d g) \<and> wire_valid g CANPROXY_SIG_SPEED \<and> carries sample_state g CANPROXY_SIG_SPEED"
proof -
  obtain sent1 q1 sent q where r: "sys_run (sys_start 0 Config_default sample_plugin)
      ([Ticked 0 sent1, Called (SetLink 1) 5, Called (Publish sample_state) 6] @ [Ticked 50000000 sent]) q"
    by (rule sample_system)
  have c: "current_state (timeout_ns Config_default) 50000000
      (calls_of [Ticked 0 sent1, Called (SetLink 1) 5, Called (Publish sample_state) 6]) = Some sample_state"
    by (simp add: current_state_def last_said_def last_link_def Config_default_def)
  have v: "valid_sig sample_state CANPROXY_SIG_SPEED \<and> capable_sig sample_state CANPROXY_SIG_SPEED"
    using sample_signals has_signal_bits [of sample_state True CANPROXY_SIG_SPEED] by simp
  obtain g where "\<forall>(i, d) \<in> set sent. decodes_to i d g" "wire_valid g CANPROXY_SIG_SPEED" "carries sample_state g CANPROXY_SIG_SPEED"
    using consumer_sees_last_state [OF r sample_published] v unfolding c by (auto simp del: carries.simps wire_valid.simps)
  with r show ?thesis by blast
qed

theorem bus_frames_well_formed_witness:
  "\<exists>sent q d. sys_run (sys_start 0 Config_default sample_plugin) ([] @ [Ticked 0 sent]) q \<and>
    (CANPROXY_ID_STATUS, d) \<in> set sent \<and>
    (\<exists>f. CanSocket_frame \<lparr> sock_open = True, sock_closed = 0 \<rparr> CANPROXY_ID_STATUS d = Some f \<and> canonical_status (can_data f))"
proof -
  obtain sent q where s: "sys_step (sys_start 0 Config_default sample_plugin) (Ticked 0 sent) q"
    using system_steps_on [OF sys_nil, of 0 Config_default sample_plugin 0] by (auto simp: sys_start_def thread_start_def)
  then have r: "sys_run (sys_start 0 Config_default sample_plugin) ([] @ [Ticked 0 sent]) q"
    using sys_nil by (intro sys_snoc)
  have tr: "thread_run (thread_start 0 (daemon_publisher Config_default sample_plugin)) [(0, StateStore_init, sent)] (q_pub q)"
    using r by (simp add: run_split sys_start_def)
  then have inv: "pub_inv 0 [(0, StateStore_init, sent)] (fst (q_pub q), snd (q_pub q))"
    unfolding daemon_publisher_def by (simp add: pub_inv_run)
  have i: "CANPROXY_ID_STATUS \<in> set kOrder" "CANPROXY_ID_STATUS \<noteq> CANPROXY_ID_ASSIST"
    by (simp_all add: kOrder_def contract_consts)
  obtain t where "last_sent CANPROXY_ID_STATUS [(0, StateStore_init, sent)] = Some t"
    using pub_inv_last [OF inv i] by blast
  then obtain d where d: "(CANPROXY_ID_STATUS, d) \<in> set sent"
    using last_frame_sent by fastforce
  let ?bus = "\<lparr> sock_open = True, sock_closed = 0 \<rparr>"
  have "CanSocket_frame ?bus CANPROXY_ID_STATUS d \<in> set (daemon_sink ?bus sent)"
    using d by (force simp: daemon_sink_def)
  then obtain f where f: "CanSocket_frame ?bus CANPROXY_ID_STATUS d = Some f" "canonical_frame (can_id f) (can_data f)"
    using bus_frames_well_formed [OF r, of ?bus] by auto
  have "can_id f = CANPROXY_ID_STATUS"
    using f(1) contract_id_masked [OF i(1)] by (auto simp: CanSocket_frame_def split: if_splits)
  then have "canonical_status (can_data f)" using f(2) by (simp add: canonical_frame_def)
  with r d f(1) show ?thesis by blast
qed

theorem consumer_notices_silence_witness:
  "\<exists>sent1 q t d. sys_run (sys_start 0 Config_default sample_plugin) [Ticked 0 sent1] q \<and>
    last_frame CANPROXY_ID_MOTION (heartbeat StateStore_init [Ticked 0 sent1]) = Some (t, d) \<and>
    d = [0xFF, 0xFF, 0xFF, 0xFF, 0xFF, 0xFF, 0, 0]"
proof -
  obtain sent q where s: "sys_step (sys_start 0 Config_default sample_plugin) (Ticked 0 sent) q"
    using system_steps_on [OF sys_nil, of 0 Config_default sample_plugin 0] by (auto simp: sys_start_def thread_start_def)
  then have r: "sys_run (sys_start 0 Config_default sample_plugin) [Ticked 0 sent] q"
    using sys_snoc [OF sys_nil] by simp
  have i: "CANPROXY_ID_MOTION \<in> set kOrder" "CANPROXY_ID_MOTION \<notin> {CANPROXY_ID_STATUS, CANPROXY_ID_IDENTITY, CANPROXY_ID_ASSIST}"
    by (simp_all add: kOrder_def contract_consts)
  obtain t d where "last_frame CANPROXY_ID_MOTION (heartbeat StateStore_init [Ticked 0 sent]) = Some (t, d)"
    "(CANPROXY_ID_MOTION, d) \<in> set silent_frames"
    using consumer_notices_silence [OF r, of "snd (q_pub q)", OF _ _ _ _ i] by auto
  then show ?thesis using r by (auto simp: silent_frames_def contract_consts)
qed

end
