(* ===== verification/Can_Channel.thy ===== *)
theory Can_Channel
  imports Can_Socket Text_Numbers
begin

text \<open>
  The vehicle side's raw channel, \<^verbatim>\<open>libobd/src/CanChannel.cpp\<close>: sending, receiving, and the recording
  of both in candump format. System calls answer through arguments; the recorded file is the list of
  its lines, the time of day an argument of each record.
\<close>

section \<open>The channel\<close>

text \<open>\<open>obd::Frame\<close>: the data array has eight bytes.\<close>

record Frame =
  f_id :: u32
  f_dlc :: u8
  f_data :: bytes

record CanChannel =
  ch_open :: bool
  ch_interface :: string
  ch_filter :: "(u32 \<times> u32) list"
  ch_log :: "string list option"

definition CanChannel_new :: CanChannel where
  "CanChannel_new = \<lparr> ch_open = False, ch_interface = [], ch_filter = [], ch_log = None \<rparr>"

definition channel_close :: "CanChannel \<Rightarrow> CanChannel" where
  "channel_close ch = ch\<lparr> ch_open := False \<rparr>"

definition channel_open :: "string \<Rightarrow> u32 list \<Rightarrow> open_step \<Rightarrow> CanChannel \<Rightarrow> string \<times> CanChannel" where
  "channel_open interface acceptIds result ch = (
     let ch = channel_close ch
     in case result of
          SocketFails why \<Rightarrow> (''socket(PF_CAN): '' @ why, ch)
        | IndexFails why \<Rightarrow> (''interface '' @ interface @ '': '' @ why, ch)
        | BindFails why \<Rightarrow> (''bind '' @ interface @ '': '' @ why, ch)
        | Opens \<Rightarrow> ([], ch\<lparr> ch_open := True, ch_interface := interface,
            ch_filter := map (\<lambda>i. (i, CAN_SFF_MASK)) acceptIds \<rparr>))"

text \<open>What the kernel lets through: no filter passes everything, otherwise one of them must match.\<close>

definition filter_passes :: "(u32 \<times> u32) list \<Rightarrow> can_frame \<Rightarrow> bool" where
  "filter_passes fs cf \<longleftrightarrow> fs = [] \<or> (\<exists>(i, m) \<in> set fs. can_id cf AND m = i AND m)"

definition channel_stopRecording :: "CanChannel \<Rightarrow> CanChannel" where
  "channel_stopRecording ch = ch\<lparr> ch_log := None \<rparr>"

definition channel_startRecording :: "string \<Rightarrow> string option \<Rightarrow> CanChannel \<Rightarrow> string \<times> CanChannel" where
  "channel_startRecording path failure ch = (
     let ch = channel_stopRecording ch
     in case failure of
          Some why \<Rightarrow> (''record '' @ path @ '': '' @ why, ch)
        | None \<Rightarrow> ([], ch\<lparr> ch_log := Some [] \<rparr>))"

text \<open>The destructor.\<close>

definition channel_destroy :: "CanChannel \<Rightarrow> CanChannel" where
  "channel_destroy ch = channel_close (channel_stopRecording ch)"

section \<open>Recording\<close>

definition hex_byte :: "u8 \<Rightarrow> string" where
  "hex_byte b = zero_pad 2 (num_text 16 (unat b))"

text \<open>One line for a frame seen at \<open>sec\<close> seconds and \<open>usec\<close> microseconds.\<close>

definition log_entry :: "nat \<Rightarrow> nat \<Rightarrow> string \<Rightarrow> Frame \<Rightarrow> string" where
  "log_entry sec usec interface f =
     ''('' @ num_text 10 sec @ ''.'' @ zero_pad 6 (num_text 10 usec) @ '') '' @ interface @ '' '' @
     zero_pad 3 (num_text 16 (unat (f_id f))) @ ''#'' @
     concat (map (\<lambda>i. hex_byte (f_data f ! i)) [0..<unat (f_dlc f)])"

definition channel_record :: "nat \<times> nat \<Rightarrow> Frame \<Rightarrow> CanChannel \<Rightarrow> CanChannel" where
  "channel_record tv f ch =
     (case ch_log ch of
        None \<Rightarrow> ch
      | Some ls \<Rightarrow> ch\<lparr> ch_log := Some (ls @ [log_entry (fst tv) (snd tv) (ch_interface ch) f]) \<rparr>)"

section \<open>Sending and receiving\<close>

definition channel_frame :: "CanChannel \<Rightarrow> Frame \<Rightarrow> can_frame option" where
  "channel_frame ch f =
     (if \<not> ch_open ch \<or> f_dlc f > 8 then None
      else Some \<lparr> can_id = f_id f AND CAN_SFF_MASK, can_dlc = f_dlc f,
        can_data = take (unat (f_dlc f)) (f_data f) @ replicate (8 - unat (f_dlc f)) 0 \<rparr>)"

definition channel_send :: "Frame \<Rightarrow> bool \<Rightarrow> nat \<times> nat \<Rightarrow> CanChannel \<Rightarrow> bool \<times> CanChannel" where
  "channel_send f written tv ch =
     (case channel_frame ch f of
        None \<Rightarrow> (False, ch)
      | Some _ \<Rightarrow> if \<not> written then (False, ch) else (True, channel_record tv f ch))"

text \<open>A frame as the caller sees it: the identifier cut to 11 bits, the length to 8.\<close>

definition received_frame :: "can_frame \<Rightarrow> Frame" where
  "received_frame cf =
     \<lparr> f_id = can_id cf AND CAN_SFF_MASK, f_dlc = (if can_dlc cf > 8 then 8 else can_dlc cf), f_data = can_data cf \<rparr>"

text \<open>\<open>arrived\<close>: the frame read within the timeout, \<open>None\<close> for a timeout or a failing call.\<close>

definition channel_receive :: "can_frame option \<Rightarrow> nat \<times> nat \<Rightarrow> CanChannel \<Rightarrow> Frame option \<times> CanChannel" where
  "channel_receive arrived tv ch =
     (if \<not> ch_open ch then (None, ch)
      else case arrived of
          None \<Rightarrow> (None, ch)
        | Some cf \<Rightarrow> (Some (received_frame cf), channel_record tv (received_frame cf) ch))"

section \<open>Properties\<close>

text \<open>
  The receive filter does not tell 11-bit from 29-bit identifiers: for every identifier the
  channel was told to accept, an extended frame that only shares its low 11 bits passes the filter
  and is handed on as a frame of that identifier.
\<close>

lemma extended_frames_accepted:
  assumes "i \<in> set acceptIds" "i AND CAN_SFF_MASK = i" "ext AND CAN_SFF_MASK = 0"
  shows "\<exists>ch'. channel_open interface acceptIds Opens ch = ([], ch') \<and>
    filter_passes (ch_filter ch') \<lparr> can_id = ext OR i, can_dlc = d, can_data = bs \<rparr> \<and>
    map_option f_id (fst (channel_receive (Some \<lparr> can_id = ext OR i, can_dlc = d, can_data = bs \<rparr>) tv ch')) = Some i"
proof -
  have "(ext OR i) AND CAN_SFF_MASK = i"
    using assms(2,3) by (simp add: bit.conj_disj_distrib2)
  then show ?thesis
    using assms(1,2)
    by (force simp: channel_open_def channel_receive_def received_frame_def filter_passes_def)
qed

lemma extended_frames_accepted_witness:
  "\<exists>ch'. channel_open ''can0'' [0x7E8] Opens CanChannel_new = ([], ch') \<and>
    map_option f_id (fst (channel_receive (Some \<lparr> can_id = 0x98DAF800 OR 0x7E8, can_dlc = 8, can_data = replicate 8 0 \<rparr>)
      (0, 0) ch')) = Some 0x7E8"
  using extended_frames_accepted [where i = "0x7E8" and acceptIds = "[0x7E8]" and ext = "0x98DAF800"
      and interface = "''can0''" and ch = CanChannel_new and d = 8 and bs = "replicate 8 0" and tv = "(0, 0)"]
  by (force simp: CAN_SFF_MASK_def)

end
