(* ===== verification/Obd_Client.thy ===== *)
theory Obd_Client
  imports Can_Channel Obd_J1979
begin

text \<open>
  The OBD-II client, \<^verbatim>\<open>libobd/src/J1979Client.cpp\<close>: requests on the raw channel, the first ECU that
  answers, discovery of the supported PIDs. The bus and the clocks are an environment: for every
  round of the waiting loop, what the clock says, what arrives within the time left, and when the
  broadcast callback ran. \<open>Waiting\<close> means that the rounds given do not end the loop.
\<close>

section \<open>State and environment\<close>

record J1979Client =
  c_ch :: CanChannel
  c_broadcastId :: int
  c_sink :: bool
  c_primaryEcu :: u32
  c_supported :: "u8 set"

definition J1979Client_new :: J1979Client where
  "J1979Client_new = \<lparr> c_ch = CanChannel_new, c_broadcastId = - 1, c_sink = False, c_primaryEcu = 0, c_supported = {} \<rparr>"

record round =
  rd_now :: int
  rd_arrived :: "can_frame option"
  rd_tv :: "nat \<times> nat"
  rd_seen :: int

record request_env =
  e_written :: bool
  e_tv :: "nat \<times> nat"
  e_start :: int
  e_rounds :: "round list"

datatype 'a wait = Waiting | Done 'a

text \<open>Frames handed to the broadcast sink, each with the time its callback read.\<close>

type_synonym broadcasts = "(Frame \<times> int) list"

section \<open>Operations\<close>

definition client_setBroadcastSink :: "int \<Rightarrow> bool \<Rightarrow> J1979Client \<Rightarrow> J1979Client" where
  "client_setBroadcastSink i sink c = c\<lparr> c_broadcastId := i, c_sink := sink \<rparr>"

definition client_accept :: "J1979Client \<Rightarrow> u32 list" where
  "client_accept c = map (\<lambda>n. kResponseIdFirst + of_nat n) [0..<8] @
     (if c_broadcastId c \<ge> 0 then [word_of_int (c_broadcastId c)] else [])"

definition client_open :: "string \<Rightarrow> open_step \<Rightarrow> J1979Client \<Rightarrow> string \<times> J1979Client" where
  "client_open interface result c = (
     let (e, ch) = channel_open interface (client_accept c) result (c_ch c) in (e, c\<lparr> c_ch := ch \<rparr>))"

definition client_close :: "J1979Client \<Rightarrow> J1979Client" where
  "client_close c = c\<lparr> c_ch := channel_close (c_ch c) \<rparr>"

definition client_forgetEcu :: "J1979Client \<Rightarrow> J1979Client" where
  "client_forgetEcu c = c\<lparr> c_primaryEcu := 0 \<rparr>"

definition is_broadcast :: "J1979Client \<Rightarrow> Frame \<Rightarrow> bool" where
  "is_broadcast c f \<longleftrightarrow> c_broadcastId c \<ge> 0 \<and> f_id f = word_of_int (c_broadcastId c)"

definition to_sink :: "J1979Client \<Rightarrow> Frame \<Rightarrow> int \<Rightarrow> broadcasts" where
  "to_sink c f t = (if c_sink c then [(f, t)] else [])"

fun request_loop :: "u8 \<Rightarrow> int \<Rightarrow> round list \<Rightarrow> J1979Client \<Rightarrow> broadcasts \<Rightarrow> Response option wait \<times> J1979Client \<times> broadcasts" where
  "request_loop pid deadline [] c bs = (Waiting, c, bs)"
| "request_loop pid deadline (rd # rds) c bs =
     (if deadline - rd_now rd \<le> 0 then (Done None, c, bs)
      else (case channel_receive (rd_arrived rd) (rd_tv rd) (c_ch c) of
          (None, ch) \<Rightarrow> (Done None, c\<lparr> c_ch := ch \<rparr>, bs)
        | (Some f, ch) \<Rightarrow> (
            let c = c\<lparr> c_ch := ch \<rparr>
            in if is_broadcast c f then request_loop pid deadline rds c (bs @ to_sink c f (rd_seen rd))
               else if \<not> isResponseId (f_id f) then request_loop pid deadline rds c bs
               else (case parseSingleFrame (Some (f_data f)) (unat (f_dlc f)) of
                   None \<Rightarrow> request_loop pid deadline rds c bs
                 | Some r \<Rightarrow>
                     if r_mode r \<noteq> kModeCurrentData + kResponseOffset \<or> r_pid r \<noteq> pid then
                       request_loop pid deadline rds c bs
                     else if c_primaryEcu c = 0 then (Done (Some r), c\<lparr> c_primaryEcu := f_id f \<rparr>, bs)
                     else if f_id f \<noteq> c_primaryEcu c then request_loop pid deadline rds c bs
                     else (Done (Some r), c, bs)))))"

definition request_frame :: "u8 \<Rightarrow> Frame" where
  "request_frame pid = \<lparr> f_id = kRequestId, f_dlc = 8, f_data = buildRequest kModeCurrentData pid \<rparr>"

definition request :: "u8 \<Rightarrow> int \<Rightarrow> request_env \<Rightarrow> J1979Client \<Rightarrow> Response option wait \<times> J1979Client \<times> broadcasts" where
  "request pid timeoutMs env c =
     (case channel_send (request_frame pid) (e_written env) (e_tv env) (c_ch c) of
        (False, ch) \<Rightarrow> (Done None, c\<lparr> c_ch := ch \<rparr>, [])
      | (True, ch) \<Rightarrow> request_loop pid (e_start env + timeoutMs) (e_rounds env) (c\<lparr> c_ch := ch \<rparr>) [])"

text \<open>Blocks left, the PID of the block, one environment per request.\<close>

fun discover_loop :: "nat \<Rightarrow> nat \<Rightarrow> u8 \<Rightarrow> int \<Rightarrow> request_env list \<Rightarrow> u8 set \<Rightarrow> J1979Client \<Rightarrow> broadcasts \<Rightarrow>
    bool wait \<times> J1979Client \<times> broadcasts" where
  "discover_loop block 0 base timeoutMs envs found c bs = (Done True, c\<lparr> c_supported := found \<rparr>, bs)"
| "discover_loop block (Suc n) base timeoutMs [] found c bs = (Waiting, c, bs)"
| "discover_loop block (Suc n) base timeoutMs (env # envs) found c bs =
     (case request base timeoutMs env c of
        (Waiting, c, bs') \<Rightarrow> (Waiting, c, bs @ bs')
      | (Done r, c, bs') \<Rightarrow>
          if r = None \<or> r_len (the r) < 4 then
            (if block = 0 then (Done False, c, bs @ bs')
             else (Done True, c\<lparr> c_supported := found \<rparr>, bs @ bs'))
          else (
            let found = found \<union> {pid \<in> set (supportedPidsFrom base (r_data (the r))). \<not> isSupportedPid pid}
            in if \<not> nextBlockAdvertised (r_data (the r)) then (Done True, c\<lparr> c_supported := found \<rparr>, bs @ bs')
               else discover_loop (block + 1) n (base + 0x20) timeoutMs envs found c (bs @ bs')))"

definition discover :: "int \<Rightarrow> request_env list \<Rightarrow> J1979Client \<Rightarrow> bool wait \<times> J1979Client \<times> broadcasts" where
  "discover timeoutMs envs c = discover_loop 0 7 PID_SUPPORTED_00 timeoutMs envs {} (c\<lparr> c_primaryEcu := 0 \<rparr>) []"

definition query :: "u8 \<Rightarrow> int \<Rightarrow> request_env \<Rightarrow> J1979Client \<Rightarrow> f64 option wait \<times> J1979Client \<times> broadcasts" where
  "query pid timeoutMs env c =
     (case request pid timeoutMs env c of
        (Waiting, c, bs) \<Rightarrow> (Waiting, c, bs)
      | (Done None, c, bs) \<Rightarrow> (Done None, c, bs)
      | (Done (Some r), c, bs) \<Rightarrow> (Done (obd_decode pid (Some (r_data r)) (r_len r)), c, bs))"

definition idle :: "round \<Rightarrow> J1979Client \<Rightarrow> J1979Client \<times> broadcasts" where
  "idle rd c =
     (case channel_receive (rd_arrived rd) (rd_tv rd) (c_ch c) of
        (None, ch) \<Rightarrow> (c\<lparr> c_ch := ch \<rparr>, [])
      | (Some f, ch) \<Rightarrow> (c\<lparr> c_ch := ch \<rparr>, if is_broadcast c f then to_sink c f (rd_seen rd) else []))"

section \<open>The loop, read off its rounds\<close>

text \<open>
  The reference: a round ends the wait when the time is up or nothing arrives, or when its frame
  answers; the answer of the first such round is the result.
\<close>

definition answering :: "J1979Client \<Rightarrow> u8 \<Rightarrow> Frame \<Rightarrow> Response option" where
  "answering c pid f =
     (if is_broadcast c f \<or> \<not> isResponseId (f_id f) \<or> (c_primaryEcu c \<noteq> 0 \<and> f_id f \<noteq> c_primaryEcu c) then None
      else (case parseSingleFrame (Some (f_data f)) (unat (f_dlc f)) of
          None \<Rightarrow> None
        | Some r \<Rightarrow> if r_mode r = 0x41 \<and> r_pid r = pid then Some r else None))"

definition round_over :: "int \<Rightarrow> round \<Rightarrow> bool" where
  "round_over deadline rd \<longleftrightarrow> deadline \<le> rd_now rd \<or> rd_arrived rd = None"

definition round_answer :: "J1979Client \<Rightarrow> u8 \<Rightarrow> round \<Rightarrow> Response option" where
  "round_answer c pid rd = Option.bind (rd_arrived rd) (\<lambda>cf. answering c pid (received_frame cf))"

definition round_ends :: "J1979Client \<Rightarrow> u8 \<Rightarrow> int \<Rightarrow> round \<Rightarrow> bool" where
  "round_ends c pid deadline rd \<longleftrightarrow> round_over deadline rd \<or> round_answer c pid rd \<noteq> None"

definition request_result :: "J1979Client \<Rightarrow> u8 \<Rightarrow> int \<Rightarrow> round list \<Rightarrow> Response option wait" where
  "request_result c pid deadline rds =
     (case List.find (round_ends c pid deadline) rds of
        None \<Rightarrow> Waiting
      | Some rd \<Rightarrow> Done (if round_over deadline rd then None else round_answer c pid rd))"

definition request_ecu :: "J1979Client \<Rightarrow> u8 \<Rightarrow> int \<Rightarrow> round list \<Rightarrow> u32" where
  "request_ecu c pid deadline rds =
     (case List.find (round_ends c pid deadline) rds of
        None \<Rightarrow> c_primaryEcu c
      | Some rd \<Rightarrow> if round_over deadline rd then c_primaryEcu c else f_id (received_frame (the (rd_arrived rd))))"

definition request_broadcasts :: "J1979Client \<Rightarrow> u8 \<Rightarrow> int \<Rightarrow> round list \<Rightarrow> broadcasts" where
  "request_broadcasts c pid deadline rds =
     concat (map (\<lambda>rd. case rd_arrived rd of
         None \<Rightarrow> []
       | Some cf \<Rightarrow> if is_broadcast c (received_frame cf) then to_sink c (received_frame cf) (rd_seen rd) else [])
       (takeWhile (\<lambda>rd. \<not> round_ends c pid deadline rd) rds))"

text \<open>Only the channel changes during the wait, and it stays open; the reference does not look at it.\<close>

lemma client_ch_irrelevant:
  "is_broadcast (c\<lparr> c_ch := ch \<rparr>) = is_broadcast c" "to_sink (c\<lparr> c_ch := ch \<rparr>) = to_sink c"
  "answering (c\<lparr> c_ch := ch \<rparr>) = answering c"
  by (auto simp: is_broadcast_def to_sink_def answering_def fun_eq_iff)

lemma round_ends_ch: "round_ends (c\<lparr> c_ch := ch \<rparr>) = round_ends c" "round_answer (c\<lparr> c_ch := ch \<rparr>) = round_answer c"
  by (auto simp: round_ends_def round_answer_def client_ch_irrelevant fun_eq_iff)

lemma request_ref_ch:
  "request_result (c\<lparr> c_ch := ch \<rparr>) = request_result c" "request_ecu (c\<lparr> c_ch := ch \<rparr>) = request_ecu c"
  "request_broadcasts (c\<lparr> c_ch := ch \<rparr>) = request_broadcasts c"
  by (auto simp: request_result_def request_ecu_def request_broadcasts_def round_ends_ch client_ch_irrelevant fun_eq_iff
      cong: option.case_cong if_cong)

lemma receive_open:
  "ch_open ch \<Longrightarrow> channel_receive a tv ch = (map_option received_frame a,
    case a of None \<Rightarrow> ch | Some cf \<Rightarrow> channel_record tv (received_frame cf) ch)"
  by (simp add: channel_receive_def split: option.splits)

lemma record_open [simp]: "ch_open (channel_record tv f ch) = ch_open ch"
  by (simp add: channel_record_def split: option.splits)

lemma request_ref_Cons:
  "\<not> round_ends c pid d rd \<Longrightarrow> request_result c pid d (rd # rds) = request_result c pid d rds"
  "\<not> round_ends c pid d rd \<Longrightarrow> request_ecu c pid d (rd # rds) = request_ecu c pid d rds"
  "\<not> round_ends c pid d rd \<Longrightarrow> request_broadcasts c pid d (rd # rds) =
     (case rd_arrived rd of None \<Rightarrow> [] | Some cf \<Rightarrow>
        if is_broadcast c (received_frame cf) then to_sink c (received_frame cf) (rd_seen rd) else []) @
     request_broadcasts c pid d rds"
  "round_over d rd \<Longrightarrow> request_result c pid d (rd # rds) = Done None \<and> request_ecu c pid d (rd # rds) = c_primaryEcu c"
  "round_ends c pid d rd \<Longrightarrow> request_broadcasts c pid d (rd # rds) = []"
  "\<not> round_over d rd \<Longrightarrow> round_answer c pid rd = Some r \<Longrightarrow> request_result c pid d (rd # rds) = Done (Some r) \<and>
     request_ecu c pid d (rd # rds) = f_id (received_frame (the (rd_arrived rd)))"
  by (simp_all add: request_result_def request_ecu_def request_broadcasts_def round_ends_def) auto

text \<open>What a wait may change in the client: the channel's log and the ECU.\<close>

definition client_kept :: "J1979Client \<Rightarrow> J1979Client \<Rightarrow> bool" where
  "client_kept c c' \<longleftrightarrow> ch_open (c_ch c') = ch_open (c_ch c) \<and> c_broadcastId c' = c_broadcastId c \<and>
     c_sink c' = c_sink c \<and> c_supported c' = c_supported c"

lemma client_kept_refl [simp]: "client_kept c c"
  by (simp add: client_kept_def)

lemma client_kept_trans: "client_kept a b \<Longrightarrow> client_kept b c \<Longrightarrow> client_kept a c"
  by (simp add: client_kept_def)

definition loop_spec :: "u8 \<Rightarrow> int \<Rightarrow> round list \<Rightarrow> J1979Client \<Rightarrow> broadcasts \<Rightarrow>
    Response option wait \<times> J1979Client \<times> broadcasts \<Rightarrow> bool" where
  "loop_spec pid d rds c bs out \<longleftrightarrow> fst out = request_result c pid d rds \<and>
     c_primaryEcu (fst (snd out)) = request_ecu c pid d rds \<and>
     snd (snd out) = bs @ request_broadcasts c pid d rds \<and> client_kept c (fst (snd out))"

lemma loop_spec_skip:
  assumes "\<not> round_ends c pid d rd" "rd_arrived rd = Some cf"
    and "loop_spec pid d rds (c\<lparr> c_ch := channel_record tv f (c_ch c) \<rparr>)
      (if is_broadcast c (received_frame cf) then bs @ to_sink c (received_frame cf) (rd_seen rd) else bs) out"
  shows "loop_spec pid d (rd # rds) c bs out"
  using assms
  by (simp add: loop_spec_def request_ref_Cons request_ref_ch client_kept_def split: if_splits)

lemma request_loop_spec:
  "ch_open (c_ch c) \<Longrightarrow> loop_spec pid d rds c bs (request_loop pid d rds c bs)"
proof (induction rds arbitrary: c bs)
  case Nil
  then show ?case by (simp add: loop_spec_def request_result_def request_ecu_def request_broadcasts_def)
next
  case (Cons rd rds)
  show ?case
  proof (cases "round_over d rd")
    case True
    then show ?thesis
      using Cons.prems
      by (cases "d \<le> rd_now rd") (auto simp: loop_spec_def request_ref_Cons round_ends_def round_over_def receive_open client_kept_def)
  next
    case False
    then obtain cf where cf: "rd_arrived rd = Some cf" "\<not> d \<le> rd_now rd" by (auto simp: round_over_def)
    let ?f = "received_frame cf"
    let ?c = "c\<lparr> c_ch := channel_record (rd_tv rd) ?f (c_ch c) \<rparr>"
    have open': "ch_open (c_ch ?c)" using Cons.prems by simp
    have step: "request_loop pid d (rd # rds) c bs =
        (case answering c pid ?f of
           Some r \<Rightarrow> (Done (Some r), if c_primaryEcu c = 0 then ?c\<lparr> c_primaryEcu := f_id ?f \<rparr> else ?c, bs)
         | None \<Rightarrow> request_loop pid d rds ?c (if is_broadcast c ?f then bs @ to_sink c ?f (rd_seen rd) else bs))"
    proof (cases "is_broadcast c ?f \<or> \<not> isResponseId (f_id ?f)")
      case True
      then show ?thesis
        using cf Cons.prems by (cases "is_broadcast c ?f") (simp_all add: receive_open client_ch_irrelevant answering_def)
    next
      case False
      then show ?thesis
        using cf Cons.prems
        by (cases "parseSingleFrame (Some (f_data ?f)) (unat (f_dlc ?f))")
          (simp_all add: receive_open client_ch_irrelevant answering_def kModeCurrentData_def kResponseOffset_def)
    qed
    show ?thesis
    proof (cases "answering c pid ?f")
      case None
      then have "\<not> round_ends c pid d rd" using False cf by (simp add: round_ends_def round_answer_def)
      then show ?thesis
        unfolding step None option.case using cf(1) Cons.IH [OF open'] by (rule loop_spec_skip)
    next
      case (Some r)
      then have ecu: "c_primaryEcu c = 0 \<or> f_id ?f = c_primaryEcu c"
        by (auto simp: answering_def split: if_splits)
      have "round_answer c pid rd = Some r" "round_ends c pid d rd"
        using Some cf by (simp_all add: round_ends_def round_answer_def)
      then show ?thesis
        unfolding step using Some cf False ecu by (auto simp: loop_spec_def request_ref_Cons client_kept_def)
    qed
  qed
qed

lemma request_frame_dlc: "f_dlc (request_frame pid) = 8"
  by (simp add: request_frame_def)

lemma request_closed:
  "\<not> ch_open (c_ch c) \<or> \<not> e_written env \<Longrightarrow> request pid timeoutMs env c = (Done None, c, [])"
  by (auto simp: request_def channel_send_def channel_frame_def split: option.splits)

lemma request_spec:
  assumes "ch_open (c_ch c)" "e_written env"
  shows "loop_spec pid (e_start env + timeoutMs) (e_rounds env) c [] (request pid timeoutMs env c)"
proof -
  have "channel_frame (c_ch c) (request_frame pid) \<noteq> None"
    using assms(1) by (simp add: channel_frame_def request_frame_dlc)
  then have e: "request pid timeoutMs env c = request_loop pid (e_start env + timeoutMs) (e_rounds env)
      (c\<lparr> c_ch := channel_record (e_tv env) (request_frame pid) (c_ch c) \<rparr>) []"
    using assms(2) by (auto simp: request_def channel_send_def)
  show ?thesis
    unfolding e
    using request_loop_spec [of "c\<lparr> c_ch := channel_record (e_tv env) (request_frame pid) (c_ch c) \<rparr>"] assms(1)
    by (simp add: loop_spec_def request_ref_ch client_kept_def)
qed

lemma request_kept: "client_kept c (fst (snd (request pid timeoutMs env c)))"
proof (cases "ch_open (c_ch c) \<and> e_written env")
  case True
  then show ?thesis using request_spec [of c env pid timeoutMs] by (simp add: loop_spec_def)
next
  case False
  then show ?thesis using request_closed [of c env pid timeoutMs] by auto
qed

lemma request_result_answer:
  assumes "request_result c pid d rds = Done (Some r)"
  shows "\<exists>rd cf. rd \<in> set rds \<and> rd_arrived rd = Some cf \<and> rd_now rd < d \<and>
    answering c pid (received_frame cf) = Some r \<and> request_ecu c pid d rds = f_id (received_frame cf)"
proof -
  obtain rd where rd: "List.find (round_ends c pid d) rds = Some rd" "\<not> round_over d rd" "round_answer c pid rd = Some r"
    using assms by (auto simp: request_result_def split: option.splits if_splits)
  moreover have "rd \<in> set rds" using rd(1) by (auto simp: find_Some_iff)
  ultimately show ?thesis
    by (auto simp: round_over_def round_answer_def request_ecu_def bind_eq_Some_conv)
qed

text \<open>What a request that was answered says.\<close>

lemma request_answered:
  assumes "request pid timeoutMs env c = (Done (Some r), c', bs)"
  shows "r_pid r = pid \<and> r_mode r = 0x41 \<and> isResponseId (c_primaryEcu c') \<and>
    (c_primaryEcu c \<noteq> 0 \<longrightarrow> c_primaryEcu c' = c_primaryEcu c) \<and>
    (\<exists>rd \<in> set (e_rounds env). \<exists>cf. rd_arrived rd = Some cf \<and> rd_now rd < e_start env + timeoutMs \<and>
      f_id (received_frame cf) = c_primaryEcu c' \<and>
      parseSingleFrame (Some (can_data cf)) (unat (f_dlc (received_frame cf))) = Some r)"
proof -
  have "ch_open (c_ch c)" "e_written env" using assms request_closed [of c env pid timeoutMs] by auto
  then have s: "request_result c pid (e_start env + timeoutMs) (e_rounds env) = Done (Some r)"
      "c_primaryEcu c' = request_ecu c pid (e_start env + timeoutMs) (e_rounds env)"
    using request_spec [of c env pid timeoutMs] assms by (auto simp: loop_spec_def)
  obtain rd cf where rd: "rd \<in> set (e_rounds env)" "rd_arrived rd = Some cf" "rd_now rd < e_start env + timeoutMs"
      "answering c pid (received_frame cf) = Some r" "c_primaryEcu c' = f_id (received_frame cf)"
    using request_result_answer [OF s(1)] s(2) by auto
  have d: "f_data (received_frame cf) = can_data cf" by (simp add: received_frame_def)
  show ?thesis
    using rd by (auto simp: answering_def d split: if_splits option.splits intro!: bexI [of _ rd])
qed

lemma request_unanswered_ecu:
  "request pid timeoutMs env c = (Done None, c', bs) \<Longrightarrow> c_primaryEcu c' = c_primaryEcu c"
proof -
  assume r: "request pid timeoutMs env c = (Done None, c', bs)"
  show ?thesis
  proof (cases "ch_open (c_ch c) \<and> e_written env")
    case True
    then have "request_result c pid (e_start env + timeoutMs) (e_rounds env) = Done None"
      "c_primaryEcu c' = request_ecu c pid (e_start env + timeoutMs) (e_rounds env)"
      using request_spec [of c env pid timeoutMs] r by (auto simp: loop_spec_def)
    then show ?thesis
      by (cases "List.find (round_ends c pid (e_start env + timeoutMs)) (e_rounds env)")
        (auto simp: request_result_def request_ecu_def round_ends_def find_Some_iff split: if_splits)
  next
    case False
    then show ?thesis using request_closed [of c env pid timeoutMs] r by auto
  qed
qed

section \<open>Discovery\<close>

text \<open>The replies of consecutive blocks, from block \<open>b\<close> on; each but the last announces the next.\<close>

fun blocks_from :: "nat \<Rightarrow> Response list \<Rightarrow> bool" where
  "blocks_from b [] = True"
| "blocks_from b (r # rs) = (r_pid r = of_nat (32 * b) \<and> 4 \<le> r_len r \<and>
     (rs \<noteq> [] \<longrightarrow> nextBlockAdvertised (r_data r)) \<and> blocks_from (b + 1) rs)"

fun block_pids :: "nat \<Rightarrow> Response list \<Rightarrow> u8 set" where
  "block_pids b [] = {}"
| "block_pids b (r # rs) =
     {pid \<in> set (supportedPidsFrom (of_nat (32 * b)) (r_data r)). \<not> isSupportedPid pid} \<union> block_pids (b + 1) rs"

lemma discover_loop_found:
  assumes "discover_loop block n base timeoutMs envs found c bs = (Done True, c', bs')" "base = of_nat (32 * block)"
  shows "\<exists>rs. length rs \<le> n \<and> (block = 0 \<and> 0 < n \<longrightarrow> rs \<noteq> []) \<and> blocks_from block rs \<and>
    c_supported c' = found \<union> block_pids block rs \<and>
    (c_primaryEcu c \<noteq> 0 \<longrightarrow> c_primaryEcu c' = c_primaryEcu c) \<and> (rs \<noteq> [] \<longrightarrow> isResponseId (c_primaryEcu c'))"
  using assms
proof (induction block n base timeoutMs envs found c bs rule: discover_loop.induct)
  case (3 block n base t env envs found c bs)
  obtain out c1 bs1 where req: "request base t env c = (out, c1, bs1)" by (metis prod_cases3)
  obtain r where out: "out = Done r" using "3.prems"(1) req by (cases out) auto
  show ?case
  proof (cases "r = None \<or> r_len (the r) < 4")
    case True
    then have e: "block \<noteq> 0" "c' = c1\<lparr> c_supported := found \<rparr>"
      using "3.prems"(1) req out by (auto split: if_splits)
    have "c_primaryEcu c \<noteq> 0 \<longrightarrow> c_primaryEcu c1 = c_primaryEcu c"
      using request_answered [of base t env c _ c1 bs1] request_unanswered_ecu [of base t env c c1 bs1] req out
      by (cases r) auto
    then show ?thesis using e by (intro exI [of _ "[]"]) simp
  next
    case False
    then obtain p where p: "r = Some p" "4 \<le> r_len p" by (cases r) auto
    have a: "r_pid p = base" "isResponseId (c_primaryEcu c1)"
        "c_primaryEcu c \<noteq> 0 \<longrightarrow> c_primaryEcu c1 = c_primaryEcu c"
      using request_answered [of base t env c p c1 bs1] req out p by simp_all
    then have nz: "c_primaryEcu c1 \<noteq> 0" by (auto simp: isResponseId_def kResponseIdFirst_def)
    let ?found = "found \<union> {pid \<in> set (supportedPidsFrom base (r_data p)). \<not> isSupportedPid pid}"
    show ?thesis
    proof (cases "nextBlockAdvertised (r_data p)")
      case True
      then have "discover_loop (block + 1) n (base + 0x20) t envs ?found c1 (bs @ bs1) = (Done True, c', bs')"
        using "3.prems"(1) req out p by simp
      moreover have "base + 0x20 = of_nat (32 * (block + 1))" using "3.prems"(2) by simp
      ultimately obtain rs where rs: "length rs \<le> n" "blocks_from (block + 1) rs"
          "c_supported c' = ?found \<union> block_pids (block + 1) rs" "c_primaryEcu c' = c_primaryEcu c1"
        using "3.IH" [of out "(c1, bs1)" r c1 bs1 ?found] req out p True nz by (auto simp: add.commute [of 32])
      then show ?thesis
        using a p "3.prems"(2) True by (intro exI [of _ "p # rs"]) (auto simp: Un_assoc)
    next
      case False
      then have "c' = c1\<lparr> c_supported := ?found \<rparr>" using "3.prems"(1) req out p by simp
      then show ?thesis using a p "3.prems"(2) by (intro exI [of _ "[p]"]) auto
    qed
  qed
qed auto

lemma discover_loop_failed:
  assumes "discover_loop block n base timeoutMs envs found c bs = (Done False, c', bs')"
  shows "block = 0 \<and> c_supported c' = c_supported c"
  using assms
proof (induction block n base timeoutMs envs found c bs rule: discover_loop.induct)
  case (3 block n base t env envs found c bs)
  obtain out c1 bs1 where req: "request base t env c = (out, c1, bs1)" by (metis prod_cases3)
  have k: "c_supported c1 = c_supported c" using request_kept [of c base t env] req by (simp add: client_kept_def)
  obtain r where out: "out = Done r" using "3.prems" req by (cases out) auto
  show ?case
  proof (cases "r = None \<or> r_len (the r) < 4")
    case True
    then show ?thesis using "3.prems" req out k by (auto split: if_splits)
  next
    case False
    then have "discover_loop (block + 1) n (base + 0x20) t envs
        (found \<union> {pid \<in> set (supportedPidsFrom base (r_data (the r))). \<not> isSupportedPid pid}) c1 (bs @ bs1) =
        (Done False, c', bs')"
      using "3.prems" req out by (auto simp: Let_def split: if_splits)
    moreover have "nextBlockAdvertised (r_data (the r))"
      using "3.prems" req out False by (auto simp: Let_def split: if_splits)
    ultimately have "block + 1 = 0" using "3.IH" [of out "(c1, bs1)" r c1 bs1, OF _ _ _ _ refl] req out False by simp
    then show ?thesis by simp
  qed
qed auto

section \<open>Properties\<close>

text \<open>
  C23: A request does what its rounds say: the first round that ends the wait decides the result, an
  answer being a positive reply to this PID from the ECU the client sticks to (any, before the first
  answer), in time; broadcasts seen before it reach the sink in order, everything else is skipped.
\<close>

theorem request_reads_first_answer:
  assumes "ch_open (c_ch c)" "e_written env"
  shows "fst (request pid timeoutMs env c) = request_result c pid (e_start env + timeoutMs) (e_rounds env) \<and>
    c_primaryEcu (fst (snd (request pid timeoutMs env c))) = request_ecu c pid (e_start env + timeoutMs) (e_rounds env) \<and>
    snd (snd (request pid timeoutMs env c)) = request_broadcasts c pid (e_start env + timeoutMs) (e_rounds env)"
  using request_spec [OF assms] by (simp add: loop_spec_def)

definition sample_client :: J1979Client where
  "sample_client = J1979Client_new\<lparr> c_ch := CanChannel_new\<lparr> ch_open := True \<rparr> \<rparr>"

definition answer_frame :: "u32 \<Rightarrow> u8 \<Rightarrow> can_frame" where
  "answer_frame i pid = \<lparr> can_id = i, can_dlc = 8, can_data = [3, 0x41, pid, 0x50, 0, 0, 0, 0] \<rparr>"

definition sample_env :: "can_frame list \<Rightarrow> request_env" where
  "sample_env cfs = \<lparr> e_written = True, e_tv = (0, 0), e_start = 0,
     e_rounds = map (\<lambda>cf. \<lparr> rd_now = 1, rd_arrived = Some cf, rd_tv = (0, 0), rd_seen = 1 \<rparr>) cfs \<rparr>"

lemma sample_answer:
  "answering sample_client 0x0D (received_frame (answer_frame 0x7E9 0x0D)) =
    Some \<lparr> r_mode = 0x41, r_pid = 0x0D, r_data = [0x50, 0, 0, 0, 0, 0], r_len = 1 \<rparr>"
proof -
  have r: "replicate 5 (0 :: u8) = [0, 0, 0, 0, 0]" by (simp add: numeral_eq_Suc)
  show ?thesis
    by (simp add: answering_def received_frame_def answer_frame_def sample_client_def J1979Client_new_def is_broadcast_def
      CAN_SFF_MASK_def isResponseId_def kResponseIdFirst_def kResponseIdLast_def parseSingleFrame_def Let_def r)
qed

theorem request_reads_first_answer_witness:
  "fst (request 0x0D 100 (sample_env [answer_frame 0x7E9 0x0D]) sample_client) =
    Done (Some \<lparr> r_mode = 0x41, r_pid = 0x0D, r_data = [0x50, 0, 0, 0, 0, 0], r_len = 1 \<rparr>)"
proof -
  have "ch_open (c_ch sample_client)" "e_written (sample_env [answer_frame 0x7E9 0x0D])"
    by (simp_all add: sample_client_def sample_env_def)
  then show ?thesis
    using request_reads_first_answer [where c = sample_client and env = "sample_env [answer_frame 0x7E9 0x0D]" and
        pid = "0x0D" and timeoutMs = 100]
    by (simp add: request_result_def sample_env_def round_ends_def round_answer_def round_over_def sample_answer)
qed

text \<open>
  C34: A request always returns: as soon as the clock has reached the deadline, or a wait for the bus
  ends without a frame, whatever came before.
\<close>

theorem request_returns:
  assumes "rd \<in> set (e_rounds env)" "e_start env + timeoutMs \<le> rd_now rd \<or> rd_arrived rd = None"
  shows "fst (request pid timeoutMs env c) \<noteq> Waiting"
proof (cases "ch_open (c_ch c) \<and> e_written env")
  case True
  have "List.find (round_ends c pid (e_start env + timeoutMs)) (e_rounds env) \<noteq> None"
    using assms by (auto simp: find_None_iff round_ends_def round_over_def)
  then have "request_result c pid (e_start env + timeoutMs) (e_rounds env) \<noteq> Waiting"
    by (auto simp: request_result_def)
  then show ?thesis using request_spec [of c env pid timeoutMs] True by (simp add: loop_spec_def)
next
  case False
  then show ?thesis using request_closed [of c env pid timeoutMs] by auto
qed

theorem request_returns_witness:
  "fst (request 0x0D 100 \<lparr> e_written = True, e_tv = (0, 0), e_start = 5,
     e_rounds = [\<lparr> rd_now = 105, rd_arrived = Some (answer_frame 0x123 0), rd_tv = (0, 0), rd_seen = 1 \<rparr>] \<rparr> sample_client) \<noteq> Waiting"
  by (rule request_returns [where rd = "\<lparr> rd_now = 105, rd_arrived = Some (answer_frame 0x123 0), rd_tv = (0, 0), rd_seen = 1 \<rparr>"])
    simp_all



end
