(* ===== verification/Obd_Poller.thy ===== *)
theory Obd_Poller
  imports Proxy_Prelude
begin

text \<open>
  Poll scheduling, \<^verbatim>\<open>libobd/src/Poller.cpp\<close>. Times and intervals are milliseconds; the products the
  code compares stay within 64 bits for every interval up to a minute and every clock value below
  2^46 ms (\<open>products_fit\<close>), so they are integers here.
\<close>

section \<open>State\<close>

record Item =
  i_pid :: u8
  i_interval :: int
  i_due :: int
  i_lastAnswer :: int

record Poller =
  m_items :: "Item list"
  m_unanswered :: int

definition Poller_new :: Poller where
  "Poller_new = \<lparr> m_items = [], m_unanswered = 0 \<rparr>"

section \<open>Operations\<close>

definition poller_clear :: "Poller \<Rightarrow> Poller" where
  "poller_clear p = p\<lparr> m_items := [], m_unanswered := 0 \<rparr>"

definition poller_find :: "u8 \<Rightarrow> Poller \<Rightarrow> Item option" where
  "poller_find pid p = List.find (\<lambda>it. i_pid it = pid) (m_items p)"

definition poller_add :: "u8 \<Rightarrow> int \<Rightarrow> Poller \<Rightarrow> Poller" where
  "poller_add pid intervalMs p =
     (case poller_find pid p of
        Some _ \<Rightarrow> p
      | None \<Rightarrow> p\<lparr> m_items := m_items p @
          [\<lparr> i_pid = pid, i_interval = intervalMs, i_due = 0, i_lastAnswer = - 1 \<rparr>] \<rparr>)"

fun erase_first :: "u8 \<Rightarrow> Item list \<Rightarrow> Item list" where
  "erase_first pid [] = []"
| "erase_first pid (it # its) = (if i_pid it = pid then its else it # erase_first pid its)"

definition poller_remove :: "u8 \<Rightarrow> Poller \<Rightarrow> Poller" where
  "poller_remove pid p = p\<lparr> m_items := erase_first pid (m_items p) \<rparr>"

text \<open>More overdue relative to its own interval.\<close>

definition more_overdue :: "int \<Rightarrow> Item \<Rightarrow> Item \<Rightarrow> bool" where
  "more_overdue now it best \<longleftrightarrow> (now - i_due it) * i_interval best > (now - i_due best) * i_interval it"

text \<open>A scan that keeps the first of the best: the loop of \<open>nextDue\<close>.\<close>

fun scan_best :: "('a \<Rightarrow> bool) \<Rightarrow> ('a \<Rightarrow> 'a \<Rightarrow> bool) \<Rightarrow> 'a list \<Rightarrow> 'a option \<Rightarrow> 'a option" where
  "scan_best ok better [] best = best"
| "scan_best ok better (x # xs) best =
     scan_best ok better xs
       (if \<not> ok x then best
        else case best of None \<Rightarrow> Some x | Some b \<Rightarrow> if better x b then Some x else Some b)"

definition nextDue :: "Poller \<Rightarrow> int \<Rightarrow> u8 option" where
  "nextDue p now =
     map_option i_pid (scan_best (\<lambda>it. \<not> now < i_due it) (more_overdue now) (m_items p) None)"

fun earliest_due :: "Item list \<Rightarrow> int \<Rightarrow> int" where
  "earliest_due [] earliest = earliest"
| "earliest_due (it # its) earliest =
     earliest_due its (if earliest < 0 \<or> i_due it < earliest then i_due it else earliest)"

definition nextDeadline :: "Poller \<Rightarrow> int \<Rightarrow> int" where
  "nextDeadline p now = (
     let earliest = earliest_due (m_items p) (- 1)
     in if earliest < 0 then now else if earliest < now then now else earliest)"

fun update_first :: "u8 \<Rightarrow> (Item \<Rightarrow> Item) \<Rightarrow> Item list \<Rightarrow> Item list" where
  "update_first pid f [] = []"
| "update_first pid f (it # its) = (if i_pid it = pid then f it # its else it # update_first pid f its)"

definition markRequested :: "u8 \<Rightarrow> int \<Rightarrow> Poller \<Rightarrow> Poller" where
  "markRequested pid now p =
     (case poller_find pid p of
        None \<Rightarrow> p
      | Some _ \<Rightarrow> p\<lparr> m_items := update_first pid (\<lambda>it. it\<lparr> i_due := now + i_interval it \<rparr>) (m_items p),
          m_unanswered := m_unanswered p + 1 \<rparr>)"

definition markAnswered :: "u8 \<Rightarrow> int \<Rightarrow> Poller \<Rightarrow> Poller" where
  "markAnswered pid now p =
     (case poller_find pid p of
        None \<Rightarrow> p
      | Some _ \<Rightarrow> p\<lparr> m_items := update_first pid (\<lambda>it. it\<lparr> i_lastAnswer := now \<rparr>) (m_items p),
          m_unanswered := 0 \<rparr>)"

definition poller_fresh :: "Poller \<Rightarrow> u8 \<Rightarrow> int \<Rightarrow> bool" where
  "poller_fresh p pid now \<longleftrightarrow>
     (case poller_find pid p of
        None \<Rightarrow> False
      | Some it \<Rightarrow> i_lastAnswer it \<ge> 0 \<and> now - i_lastAnswer it \<le> 3 * i_interval it)"

section \<open>Scanning for the best\<close>

text \<open>
  The interface of a scan: a strict comparison that agrees with a rank on the elements of interest.
\<close>

locale ranked_scan =
  fixes good :: "'a \<Rightarrow> bool" and better :: "'a \<Rightarrow> 'a \<Rightarrow> bool" and rank :: "'a \<Rightarrow> rat"
  assumes better_rank: "good x \<Longrightarrow> good y \<Longrightarrow> better x y \<longleftrightarrow> rank y < rank x"
begin

lemma scan_some:
  assumes "\<forall>x \<in> set xs. good x" "good b"
  shows "\<exists>m. scan_best ok better xs (Some b) = Some m \<and> (m = b \<or> m \<in> set xs \<and> ok m) \<and>
    rank b \<le> rank m \<and> (\<forall>x \<in> set xs. ok x \<longrightarrow> rank x \<le> rank m)"
  using assms
proof (induction xs arbitrary: b)
  case (Cons x xs)
  show ?case
  proof (cases "ok x \<and> better x b")
    case True
    then have "rank b < rank x" using Cons.prems better_rank by simp
    moreover obtain m where "scan_best ok better xs (Some x) = Some m" "m = x \<or> m \<in> set xs \<and> ok m"
        "rank x \<le> rank m" "\<forall>x \<in> set xs. ok x \<longrightarrow> rank x \<le> rank m"
      using Cons.IH [of x] Cons.prems by auto
    ultimately show ?thesis using True by auto
  next
    case False
    then have "ok x \<longrightarrow> rank x \<le> rank b" using Cons.prems better_rank [of x b] by auto
    moreover obtain m where "scan_best ok better xs (Some b) = Some m" "m = b \<or> m \<in> set xs \<and> ok m"
        "rank b \<le> rank m" "\<forall>x \<in> set xs. ok x \<longrightarrow> rank x \<le> rank m"
      using Cons.IH [of b] Cons.prems by auto
    ultimately show ?thesis using False by auto
  qed
qed simp

lemma scan_none_iff: "scan_best ok better xs None = None \<longleftrightarrow> (\<forall>x \<in> set xs. \<not> ok x)"
proof -
  have some: "scan_best ok better xs (Some b) \<noteq> None" for b and xs :: "'a list"
    by (induction xs arbitrary: b) auto
  show ?thesis by (induction xs) (auto simp: some)
qed

lemma scan_best_is_best:
  assumes "\<forall>x \<in> set xs. good x" "scan_best ok better xs None = Some m"
  shows "m \<in> set xs \<and> ok m \<and> (\<forall>x \<in> set xs. ok x \<longrightarrow> rank x \<le> rank m)"
  using assms
proof (induction xs)
  case (Cons x xs)
  then show ?case using scan_some [of xs x ok] by (cases "ok x") auto
qed simp

end

definition lateness :: "int \<Rightarrow> Item \<Rightarrow> rat" where
  "lateness now it = of_int (now - i_due it) / of_int (i_interval it)"

lemma overdue_ranked: "ranked_scan (\<lambda>it. 0 < i_interval it) (more_overdue now) (lateness now)"
proof
  fix x y :: Item
  assume i: "0 < i_interval x" "0 < i_interval y"
  then have "lateness now y < lateness now x \<longleftrightarrow>
      rat_of_int ((now - i_due y) * i_interval x) < of_int ((now - i_due x) * i_interval y)"
    by (simp add: lateness_def divide_simps mult.commute del: of_int_diff)
  then show "more_overdue now x y \<longleftrightarrow> lateness now y < lateness now x"
    by (simp only: of_int_less_iff more_overdue_def)
qed

interpretation poll: ranked_scan "\<lambda>it. 0 < i_interval it" "more_overdue now" "lateness now" for now
  by (rule overdue_ranked)

section \<open>Well-formed pollers\<close>

definition poller_ok :: "Poller \<Rightarrow> bool" where
  "poller_ok p \<longleftrightarrow> distinct (map i_pid (m_items p)) \<and>
     (\<forall>it \<in> set (m_items p). 0 < i_interval it \<and> 0 \<le> i_due it \<and> - 1 \<le> i_lastAnswer it)"

lemma find_item: "distinct (map i_pid its) \<Longrightarrow>
    List.find (\<lambda>it. i_pid it = pid) its = Some it \<longleftrightarrow> it \<in> set its \<and> i_pid it = pid"
  by (induction its) (auto split: if_splits)

lemma find_no_item: "List.find (\<lambda>it. i_pid it = pid) its = None \<longleftrightarrow> pid \<notin> i_pid ` set its"
  by (induction its) auto

lemma poller_find_iff: "poller_ok p \<Longrightarrow> poller_find pid p = Some it \<longleftrightarrow> it \<in> set (m_items p) \<and> i_pid it = pid"
  by (simp add: poller_find_def poller_ok_def find_item)

lemma poller_find_None: "poller_find pid p = None \<longleftrightarrow> pid \<notin> i_pid ` set (m_items p)"
  by (simp add: poller_find_def find_no_item)

text \<open>With distinct PIDs, changing the first item of a PID changes the items of that PID.\<close>

lemma update_first_map:
  "distinct (map i_pid its) \<Longrightarrow> update_first pid f its = map (\<lambda>it. if i_pid it = pid then f it else it) its"
  by (induction its) (auto intro!: map_idI [symmetric], metis image_eqI)

lemma erase_first_filter:
  "distinct (map i_pid its) \<Longrightarrow> erase_first pid its = filter (\<lambda>it. i_pid it \<noteq> pid) its"
  by (induction its) (auto intro!: filter_True [symmetric], metis image_eqI)

lemma requested_items:
  assumes "poller_ok p"
  shows "m_items (markRequested pid now p) =
    map (\<lambda>it. if i_pid it = pid then it\<lparr> i_due := now + i_interval it \<rparr> else it) (m_items p)"
  using assms
  by (auto simp: markRequested_def poller_ok_def update_first_map poller_find_None intro!: map_idI [symmetric]
      split: option.splits)

lemma answered_items:
  assumes "poller_ok p"
  shows "m_items (markAnswered pid now p) =
    map (\<lambda>it. if i_pid it = pid then it\<lparr> i_lastAnswer := now \<rparr> else it) (m_items p)"
  using assms
  by (auto simp: markAnswered_def poller_ok_def update_first_map poller_find_None intro!: map_idI [symmetric]
      split: option.splits)

lemma poller_ok_new: "poller_ok Poller_new"
  by (simp add: poller_ok_def Poller_new_def)

lemma poller_ok_clear: "poller_ok (poller_clear p)"
  by (simp add: poller_ok_def poller_clear_def)

lemma poller_ok_add: "poller_ok p \<Longrightarrow> 0 < i \<Longrightarrow> poller_ok (poller_add pid i p)"
  by (auto simp: poller_add_def poller_ok_def poller_find_None split: option.splits)

lemma poller_ok_remove: "poller_ok p \<Longrightarrow> poller_ok (poller_remove pid p)"
  by (auto simp: poller_ok_def poller_remove_def erase_first_filter distinct_map inj_on_def)

lemma poller_ok_requested: "poller_ok p \<Longrightarrow> 0 \<le> now \<Longrightarrow> poller_ok (markRequested pid now p)"
  using requested_items [of p pid now]
  by (auto simp: poller_ok_def distinct_map inj_on_def add_nonneg_nonneg less_imp_le)

lemma poller_ok_answered: "poller_ok p \<Longrightarrow> 0 \<le> now \<Longrightarrow> poller_ok (markAnswered pid now p)"
  using answered_items [of p pid now]
  by (auto simp: poller_ok_def distinct_map inj_on_def)

section \<open>What is asked for next\<close>

lemma nextDue_None: "nextDue p now = None \<longleftrightarrow> (\<forall>it \<in> set (m_items p). now < i_due it)"
  by (simp add: nextDue_def poll.scan_none_iff)

lemma nextDue_Some:
  assumes "poller_ok p" "nextDue p now = Some pid"
  shows "\<exists>it \<in> set (m_items p). i_pid it = pid \<and> i_due it \<le> now \<and>
    (\<forall>it' \<in> set (m_items p). i_due it' \<le> now \<longrightarrow> lateness now it' \<le> lateness now it)"
proof -
  obtain it where it: "scan_best (\<lambda>it. \<not> now < i_due it) (more_overdue now) (m_items p) None = Some it" "i_pid it = pid"
    using assms(2) by (auto simp: nextDue_def)
  moreover have "\<forall>x \<in> set (m_items p). 0 < i_interval x" using assms(1) by (simp add: poller_ok_def)
  ultimately show ?thesis
    using poll.scan_best_is_best [of "m_items p" "\<lambda>it. \<not> now < i_due it" now it] by (auto simp: not_less)
qed

lemma earliest_due_min:
  assumes "\<forall>it \<in> set its. 0 \<le> i_due it" "0 \<le> e"
  shows "earliest_due its e = Min (insert e (i_due ` set its))"
  using assms
proof (induction its arbitrary: e)
  case (Cons it its)
  have "earliest_due (it # its) e = earliest_due its (min e (i_due it))"
    using Cons.prems by (auto simp: min_def)
  also have "\<dots> = Min (insert (min e (i_due it)) (i_due ` set its))"
    using Cons.prems by (intro Cons.IH) auto
  also have "\<dots> = Min (insert e (i_due ` set (it # its)))"
  proof (cases "its = []")
    case False
    then show ?thesis by (simp add: min.assoc)
  qed simp
  finally show ?case .
qed simp

lemma nextDeadline_min:
  assumes "poller_ok p"
  shows "nextDeadline p now = (if m_items p = [] then now else max now (Min (i_due ` set (m_items p))))"
proof (cases "m_items p")
  case (Cons it its)
  then have e: "earliest_due (m_items p) (- 1) = Min (i_due ` set (m_items p))"
    using assms earliest_due_min [of its "i_due it"] by (simp add: poller_ok_def)
  have "0 \<le> Min (i_due ` set (m_items p))"
    using assms Cons by (subst Min_ge_iff) (auto simp: poller_ok_def)
  then show ?thesis
    unfolding nextDeadline_def e Let_def using Cons by (simp add: max_def not_less del: Min_ge_iff Min_less_iff Min_le_iff)
qed (simp add: nextDeadline_def)

lemma products_fit:
  assumes "0 \<le> i_due x" "i_due x \<le> now" "now < 2 ^ 46" "0 < i_interval y" "i_interval y \<le> 60000"
  shows "0 \<le> (now - i_due x) * i_interval y \<and> (now - i_due x) * i_interval y < 2 ^ 63"
proof -
  have "(now - i_due x) * i_interval y \<le> 2 ^ 46 * 60000"
    using assms by (intro mult_mono) simp_all
  then show ?thesis using assms by simp
qed

section \<open>Serving\<close>

text \<open>A request at each of the given times: what the polling loop does while nothing else changes.\<close>

fun serve :: "Poller \<Rightarrow> int list \<Rightarrow> u8 list" where
  "serve p [] = []"
| "serve p (t # ts) =
     (case nextDue p t of
        None \<Rightarrow> serve p ts
      | Some pid \<Rightarrow> pid # serve (markRequested pid t p) ts)"

text \<open>
  While an item waits, late by \<open>k\<close> of its own intervals, whatever is served instead was not served within
  the last \<open>k + 1\<close> of its intervals.
\<close>

lemma served_not_again:
  assumes ok: "poller_ok p" and it: "it \<in> set (m_items p)" "k * i_interval it \<le> t - i_due it" "0 \<le> k"
    and other: "j \<in> set (m_items p)" "t0 + i_interval j \<le> i_due j" "t - t0 < (k + 1) * i_interval j"
  shows "nextDue p t \<noteq> Some (i_pid j)"
proof
  assume "nextDue p t = Some (i_pid j)"
  then obtain m where m: "m \<in> set (m_items p)" "i_pid m = i_pid j"
      "\<forall>x \<in> set (m_items p). i_due x \<le> t \<longrightarrow> lateness t x \<le> lateness t m"
    using nextDue_Some [OF ok] by blast
  have pos: "0 < i_interval it" "0 < i_interval j" using ok it(1) other(1) by (auto simp: poller_ok_def)
  have "m = j" using ok m other(1) by (auto simp: poller_ok_def distinct_map inj_on_def)
  moreover have "0 \<le> k * i_interval it" using it(3) pos by simp
  then have "i_due it \<le> t" using it(2) by linarith
  ultimately have "lateness t it \<le> lateness t j" using m(3) it(1) by blast
  then have "of_int ((t - i_due it) * i_interval j) \<le> (of_int ((t - i_due j) * i_interval it) :: rat)"
    using pos by (simp add: lateness_def divide_simps mult.commute del: of_int_diff)
  then have "(t - i_due it) * i_interval j \<le> (t - i_due j) * i_interval it"
    by (simp only: of_int_le_iff)
  moreover have "k * i_interval it * i_interval j \<le> (t - i_due it) * i_interval j"
    using it(2) pos by (intro mult_right_mono) simp_all
  ultimately have "(k * i_interval j) * i_interval it \<le> (t - i_due j) * i_interval it"
    by (simp add: mult.commute mult.left_commute)
  then have "k * i_interval j \<le> t - i_due j"
    using pos by (simp add: mult_le_cancel_right_pos)
  then show False using other by (simp add: algebra_simps)
qed

lemma requested_pids: "poller_ok p \<Longrightarrow> map i_pid (m_items (markRequested pid t p)) = map i_pid (m_items p)"
  by (simp add: requested_items comp_def if_distrib [of i_pid] cong: if_cong)

lemma answered_pids: "poller_ok p \<Longrightarrow> map i_pid (m_items (markAnswered pid t p)) = map i_pid (m_items p)"
  by (simp add: answered_items comp_def if_distrib [of i_pid] cong: if_cong)

text \<open>While an item is never served, every request goes to an item not served since \<open>t0\<close>.\<close>

lemma serve_distinct:
  assumes "poller_ok p" "it \<in> set (m_items p)" "0 \<le> k" "0 \<le> t0"
    and "\<forall>t \<in> set ts. t0 \<le> t \<and> k * i_interval it \<le> t - i_due it \<and>
      (\<forall>j \<in> set (m_items p). t - t0 < (k + 1) * i_interval j)"
    and "\<forall>j \<in> set (m_items p). i_pid j \<in> S \<longrightarrow> t0 + i_interval j \<le> i_due j"
    and "i_pid it \<notin> set (serve p ts)"
  shows "length (serve p ts) = length ts \<and> distinct (serve p ts) \<and> set (serve p ts) \<inter> S = {} \<and>
    set (serve p ts) \<subseteq> i_pid ` set (m_items p) - {i_pid it}"
  using assms
proof (induction ts arbitrary: p S)
  case (Cons t ts)
  note ok = Cons.prems(1) and it = Cons.prems(2) and k = Cons.prems(3)
  have t: "t0 \<le> t" "k * i_interval it \<le> t - i_due it" "\<forall>j \<in> set (m_items p). t - t0 < (k + 1) * i_interval j"
    using Cons.prems(5) by simp_all
  have "0 \<le> k * i_interval it" using ok it k by (intro mult_nonneg_nonneg) (auto simp: poller_ok_def less_imp_le)
  then have "\<not> t < i_due it" using t(2) by linarith
  then have "nextDue p t \<noteq> None" using it by (auto simp: nextDue_None)
  then obtain pid where pid: "nextDue p t = Some pid" by blast
  then obtain j where j: "j \<in> set (m_items p)" "i_pid j = pid"
    using nextDue_Some [OF ok] by blast
  have "pid \<notin> S"
    using served_not_again [OF ok it t(2) k j(1), of t0] Cons.prems(6) j pid t(3) by auto
  have other: "i_pid it \<noteq> pid" using Cons.prems(7) pid by auto
  let ?p = "markRequested pid t p"
  have items: "m_items ?p = map (\<lambda>it. if i_pid it = pid then it\<lparr> i_due := t + i_interval it \<rparr> else it) (m_items p)"
    by (rule requested_items [OF ok])
  have pids: "i_pid ` set (m_items ?p) = i_pid ` set (m_items p)"
    by (simp only: requested_pids [OF ok] flip: list.set_map)
  have ivals: "\<forall>j \<in> set (m_items ?p). \<exists>j' \<in> set (m_items p). i_interval j = i_interval j'"
    by (auto simp: items)
  have IH: "length (serve ?p ts) = length ts \<and> distinct (serve ?p ts) \<and> set (serve ?p ts) \<inter> insert pid S = {} \<and>
      set (serve ?p ts) \<subseteq> i_pid ` set (m_items ?p) - {i_pid it}"
  proof (rule Cons.IH)
    show "poller_ok ?p" using poller_ok_requested [OF ok] t(1) Cons.prems(4) by simp
    show "it \<in> set (m_items ?p)" using it other by (force simp: items)
    show "\<forall>t \<in> set ts. t0 \<le> t \<and> k * i_interval it \<le> t - i_due it \<and>
        (\<forall>j \<in> set (m_items ?p). t - t0 < (k + 1) * i_interval j)"
      using Cons.prems(5) ivals by (metis list.set_intros(2))
    show "\<forall>j \<in> set (m_items ?p). i_pid j \<in> insert pid S \<longrightarrow> t0 + i_interval j \<le> i_due j"
      using Cons.prems(6) t(1) by (auto simp: items split: if_splits)
    show "i_pid it \<notin> set (serve ?p ts)" using Cons.prems(7) pid by simp
  qed (use Cons.prems in auto)
  have "serve p (t # ts) = pid # serve ?p ts" using pid by simp
  then show ?case using IH \<open>pid \<notin> S\<close> j other unfolding pids by auto
qed simp

section \<open>Requests and answers over time\<close>

datatype poll_event = Requested u8 int | Answered u8 int

fun poll_do :: "poll_event \<Rightarrow> Poller \<Rightarrow> Poller" where
  "poll_do (Requested pid t) p = markRequested pid t p"
| "poll_do (Answered pid t) p = markAnswered pid t p"

text \<open>What the history says: when a PID was last answered, how many requests there were since any answer.\<close>

fun last_answer :: "u8 \<Rightarrow> poll_event list \<Rightarrow> int option" where
  "last_answer pid [] = None"
| "last_answer pid (e # es) =
     (case last_answer pid es of
        Some t \<Rightarrow> Some t
      | None \<Rightarrow> (case e of Answered q t \<Rightarrow> if q = pid then Some t else None | Requested _ _ \<Rightarrow> None))"

fun streak :: "poll_event list \<Rightarrow> nat \<Rightarrow> nat" where
  "streak [] n = n"
| "streak (Requested _ _ # es) n = streak es (n + 1)"
| "streak (Answered _ _ # es) n = streak es 0"

definition events_of :: "u8 set \<Rightarrow> poll_event list \<Rightarrow> bool" where
  "events_of pids es \<longleftrightarrow> (\<forall>e \<in> set es. case e of Requested q t \<Rightarrow> q \<in> pids \<and> 0 \<le> t | Answered q t \<Rightarrow> q \<in> pids \<and> 0 \<le> t)"

lemma poll_do_find:
  assumes "poller_ok p" "poller_find pid p = Some it"
  shows "poller_find pid (poll_do e p) = Some (case e of
      Requested q t \<Rightarrow> if q = pid then it\<lparr> i_due := t + i_interval it \<rparr> else it
    | Answered q t \<Rightarrow> if q = pid then it\<lparr> i_lastAnswer := t \<rparr> else it)"
proof -
  have d: "distinct (map i_pid (m_items p))" using assms(1) by (simp add: poller_ok_def)
  have it: "it \<in> set (m_items p)" "i_pid it = pid" using assms by (simp_all add: poller_find_iff)
  have "distinct (map i_pid (m_items (poll_do e p)))"
    using d requested_items [OF assms(1)] answered_items [OF assms(1)]
    by (cases e) (auto simp: distinct_map inj_on_def)
  then show ?thesis
    unfolding poller_find_def find_item [OF \<open>distinct (map i_pid (m_items (poll_do e p)))\<close>]
    using it requested_items [OF assms(1)] answered_items [OF assms(1)]
    by (cases e) (auto simp: image_iff)
qed

lemma poll_do_ok: "poller_ok p \<Longrightarrow> events_of pids [e] \<Longrightarrow> poller_ok (poll_do e p)"
  by (cases e) (auto simp: events_of_def poller_ok_requested poller_ok_answered)

lemma poll_do_pids: "poller_ok p \<Longrightarrow> i_pid ` set (m_items (poll_do e p)) = i_pid ` set (m_items p)"
  by (cases e) (simp_all only: poll_do.simps requested_pids answered_pids flip: list.set_map)

lemma poll_history:
  assumes "poller_ok p" "events_of (i_pid ` set (m_items p)) es" "poller_find pid p = Some it"
  shows "\<exists>it'. poller_find pid (fold poll_do es p) = Some it' \<and> i_interval it' = i_interval it \<and>
    i_lastAnswer it' = (case last_answer pid es of Some t \<Rightarrow> t | None \<Rightarrow> i_lastAnswer it)"
  using assms
proof (induction es arbitrary: p it)
  case (Cons e es)
  have e: "events_of (i_pid ` set (m_items p)) [e]" "events_of (i_pid ` set (m_items (poll_do e p))) es"
    using Cons.prems(2) by (simp_all add: events_of_def poll_do_pids [OF Cons.prems(1)])
  show ?case
    using Cons.IH [OF poll_do_ok [OF Cons.prems(1) e(1)] e(2) poll_do_find [OF Cons.prems(1,3)]]
    by (auto split: option.splits poll_event.splits)
qed simp

lemma poll_streak:
  assumes "poller_ok p" "events_of (i_pid ` set (m_items p)) es" "m_unanswered p = int n"
  shows "m_unanswered (fold poll_do es p) = int (streak es n)"
  using assms
proof (induction es arbitrary: p n)
  case (Cons e es)
  have e: "events_of (i_pid ` set (m_items p)) [e]" "events_of (i_pid ` set (m_items (poll_do e p))) es"
    using Cons.prems(2) by (simp_all add: events_of_def poll_do_pids [OF Cons.prems(1)])
  have "m_unanswered (poll_do e p) = int (case e of Requested _ _ \<Rightarrow> n + 1 | Answered _ _ \<Rightarrow> 0)"
    using e(1) Cons.prems(3)
    by (cases e) (auto simp: events_of_def markRequested_def markAnswered_def poller_find_None split: option.splits)
  then show ?case
    using Cons.IH [OF poll_do_ok [OF Cons.prems(1) e(1)] e(2)] by (cases e) simp_all
qed simp

section \<open>Properties\<close>

text \<open>
  C26: No item starves: whatever the other items, an item that is overdue by \<open>k\<close> of its own intervals is
  asked for within as many requests as there are items, provided these requests take less than
  \<open>k + 1\<close> of the shortest interval.
\<close>

theorem no_starvation:
  assumes "poller_ok p" "it \<in> set (m_items p)" "0 \<le> k" "0 \<le> t0" "sorted (t0 # ts)"
    and "k * i_interval it \<le> t0 - i_due it" "length ts = length (m_items p)"
    and "\<forall>j \<in> set (m_items p). last ts - t0 < (k + 1) * i_interval j"
  shows "i_pid it \<in> set (serve p ts)"
proof (rule ccontr)
  assume n: "i_pid it \<notin> set (serve p ts)"
  have times: "t0 \<le> t \<and> t \<le> last ts" if "t \<in> set ts" for t
    using that assms(5) by (cases ts rule: rev_cases) (auto simp: sorted_append)
  have ts: "\<forall>t \<in> set ts. t0 \<le> t \<and> k * i_interval it \<le> t - i_due it \<and>
      (\<forall>j \<in> set (m_items p). t - t0 < (k + 1) * i_interval j)"
    using times assms(6,8) by fastforce
  have s: "length (serve p ts) = length ts" "distinct (serve p ts)"
      "set (serve p ts) \<subseteq> i_pid ` set (m_items p) - {i_pid it}"
    using serve_distinct [OF assms(1-4) ts, of "{}"] n by simp_all
  have "card (i_pid ` set (m_items p) - {i_pid it}) < card (i_pid ` set (m_items p))"
    using assms(2) by (intro psubset_card_mono) auto
  moreover have "card (i_pid ` set (m_items p)) \<le> length (m_items p)"
    by (metis card_length length_map list.set_map)
  moreover have "length ts \<le> card (i_pid ` set (m_items p) - {i_pid it})"
    using card_mono [OF _ s(3)] distinct_card [OF s(2)] s(1) by simp
  ultimately show False using assms(7) by simp
qed

definition sample_poller :: Poller where
  "sample_poller = poller_add 0x2F 2000 (poller_add 0x05 500 (poller_add 0x0D 100 Poller_new))"

theorem no_starvation_witness: "0x2F \<in> set (serve sample_poller [4000, 4090, 4180])"
proof -
  have p: "sample_poller = \<lparr> m_items = [\<lparr> i_pid = 0x0D, i_interval = 100, i_due = 0, i_lastAnswer = - 1 \<rparr>,
      \<lparr> i_pid = 0x05, i_interval = 500, i_due = 0, i_lastAnswer = - 1 \<rparr>,
      \<lparr> i_pid = 0x2F, i_interval = 2000, i_due = 0, i_lastAnswer = - 1 \<rparr>], m_unanswered = 0 \<rparr>"
    by (simp add: sample_poller_def poller_add_def poller_find_def Poller_new_def)
  show ?thesis
    using no_starvation [of sample_poller "\<lparr> i_pid = 0x2F, i_interval = 2000, i_due = 0, i_lastAnswer = - 1 \<rparr>" 2
        4000 "[4000, 4090, 4180]"]
    by (simp add: p poller_ok_def)
qed

text \<open>
  What is asked for is due, and the most overdue relative to its interval; nothing is asked for
  exactly when nothing is due; and the deadline is the first time something will be: until then
  nothing is due, and at it something is, unless there is nothing to poll.
\<close>

lemma next_due_and_deadline:
  assumes "poller_ok p"
  shows "(case nextDue p now of
      None \<Rightarrow> \<forall>it \<in> set (m_items p). now < i_due it
    | Some pid \<Rightarrow> \<exists>it \<in> set (m_items p). i_pid it = pid \<and> i_due it \<le> now \<and>
        (\<forall>it' \<in> set (m_items p). i_due it' \<le> now \<longrightarrow> lateness now it' \<le> lateness now it)) \<and>
    (\<forall>t. now \<le> t \<and> t < nextDeadline p now \<longrightarrow> nextDue p t = None) \<and>
    (m_items p \<noteq> [] \<longrightarrow> nextDue p (nextDeadline p now) \<noteq> None)"
proof (intro conjI allI impI)
  show "case nextDue p now of
      None \<Rightarrow> \<forall>it \<in> set (m_items p). now < i_due it
    | Some pid \<Rightarrow> \<exists>it \<in> set (m_items p). i_pid it = pid \<and> i_due it \<le> now \<and>
        (\<forall>it' \<in> set (m_items p). i_due it' \<le> now \<longrightarrow> lateness now it' \<le> lateness now it)"
    using nextDue_None [of p now] nextDue_Some [OF assms, of now] by (cases "nextDue p now") simp_all
next
  fix t assume t: "now \<le> t \<and> t < nextDeadline p now"
  then have "m_items p \<noteq> [] \<and> t < Min (i_due ` set (m_items p))"
    unfolding nextDeadline_min [OF assms] by (auto split: if_splits simp: max_def)
  then have "\<forall>it \<in> set (m_items p). t < i_due it" by auto
  then show "nextDue p t = None" by (simp add: nextDue_None)
next
  assume n: "m_items p \<noteq> []"
  then have "Min (i_due ` set (m_items p)) \<in> i_due ` set (m_items p)" by (intro Min_in) simp_all
  then obtain it where "it \<in> set (m_items p)" "i_due it = Min (i_due ` set (m_items p))" by auto
  then show "nextDue p (nextDeadline p now) \<noteq> None"
    unfolding nextDue_None nextDeadline_min [OF assms] using n by (auto intro!: bexI [of _ it])
qed

lemma next_due_and_deadline_witness: "nextDue sample_poller (nextDeadline sample_poller (- 5)) \<noteq> None"
proof -
  have "poller_ok sample_poller" "m_items sample_poller \<noteq> []"
    by (simp_all add: sample_poller_def poller_ok_add poller_ok_new)
      (simp add: poller_add_def poller_find_def Poller_new_def)
  then show ?thesis using next_due_and_deadline [of sample_poller "- 5"] by blast
qed

text \<open>
  Along any history of requests and answers for the polled PIDs: a PID is fresh exactly when its
  last answer is at most three of its intervals old, and the count of unanswered requests is the
  number of requests since the last answer of any PID.
\<close>

lemma freshness_of_history:
  assumes "poller_ok p" "events_of (i_pid ` set (m_items p)) es" "it \<in> set (m_items p)" "i_lastAnswer it = - 1"
    and "m_unanswered p = 0"
  shows "(poller_fresh (fold poll_do es p) (i_pid it) now \<longleftrightarrow>
      (\<exists>t. last_answer (i_pid it) es = Some t \<and> now - t \<le> 3 * i_interval it)) \<and>
    m_unanswered (fold poll_do es p) = int (streak es 0)"
proof -
  have f: "poller_find (i_pid it) p = Some it" using assms by (simp add: poller_find_iff)
  have nonneg: "last_answer pid es = Some t \<Longrightarrow> 0 \<le> t" for pid t
    using assms(2) by (induction es) (auto simp: events_of_def split: option.splits poll_event.splits if_splits)
  show ?thesis
    using poll_history [OF assms(1,2) f] nonneg poll_streak [OF assms(1,2), of 0] assms(4,5)
    by (auto simp: poller_fresh_def split: option.splits)
qed

lemma freshness_of_history_witness:
  "poller_fresh (fold poll_do [Requested 0x0D 100, Answered 0x0D 120] sample_poller) 0x0D 420"
proof -
  have p: "sample_poller = \<lparr> m_items = [\<lparr> i_pid = 0x0D, i_interval = 100, i_due = 0, i_lastAnswer = - 1 \<rparr>,
      \<lparr> i_pid = 0x05, i_interval = 500, i_due = 0, i_lastAnswer = - 1 \<rparr>,
      \<lparr> i_pid = 0x2F, i_interval = 2000, i_due = 0, i_lastAnswer = - 1 \<rparr>], m_unanswered = 0 \<rparr>"
    by (simp add: sample_poller_def poller_add_def poller_find_def Poller_new_def)
  show ?thesis
    using freshness_of_history [of sample_poller "[Requested 0x0D 100, Answered 0x0D 120]"
        "\<lparr> i_pid = 0x0D, i_interval = 100, i_due = 0, i_lastAnswer = - 1 \<rparr>" 420]
    by (simp add: p poller_ok_def events_of_def)
qed

end
