(* ===== verification/Obd_Plugin.thy ===== *)
theory Obd_Plugin
  imports Plugin_Contract Obd_Client Obd_Poller
begin

text \<open>
  What the OBD plugins share: the clock and the bus of one iteration of their threads, the values a
  PID can report, and the PIDs a scheduler polls.
\<close>

record iter_env =
  it_now :: int
  it_discovery :: "request_env list"
  it_query :: request_env
  it_answered :: int
  it_idle :: round
  it_check :: int
  it_publish :: int
  it_after :: int

text \<open>A value a PID can report.\<close>

definition pid_value :: "u8 \<Rightarrow> f64 \<Rightarrow> bool" where
  "pid_value pid v \<longleftrightarrow> (\<exists>q. v = FNum q \<and> of_int (fst (pid_range pid)) \<le> q \<and> q \<le> of_int (snd (pid_range pid)))"

lemma pid_range_small: "- (2 ^ 50) \<le> fst (pid_range pid)" "snd (pid_range pid) \<le> 2 ^ 50"
  "\<bar>fst (pid_range pid)\<bar> \<le> 2 ^ 53" "\<bar>snd (pid_range pid)\<bar> \<le> 2 ^ 53"
  by (simp_all add: pid_range_def)

lemma pid_value_encodable: "pid_value pid v \<Longrightarrow> encodable v"
  unfolding pid_value_def using pid_range_small encodable_between by blast

lemma pid_value_times_one:
  assumes "pid_value pid v"
  shows "pid_value pid (v * dlit 1)"
proof -
  obtain q where q: "v = FNum q" "of_int (fst (pid_range pid)) \<le> q" "q \<le> of_int (snd (pid_range pid))"
    using assms by (auto simp: pid_value_def)
  have "encodable v" by (rule pid_value_encodable [OF assms])
  then have "\<bar>q\<bar> \<le> 2 ^ 60" by (simp add: q(1))
  moreover have "dlit 1 = FNum 1" using int_to_f64 [of 1] by simp
  ultimately have "v * dlit 1 = FNum (rd64 q)" by (simp add: q(1) f64_ops small_to_f64)
  then show ?thesis
    using rd64_between [OF q(2,3) pid_range_small(3,4)] by (simp add: pid_value_def)
qed

lemma query_value:
  assumes "query pid timeoutMs env c = (Done (Some v), c', bs)"
  shows "pid_value pid v"
proof -
  have "\<exists>r :: Response. obd_decode pid (Some (r_data r)) (r_len r) = Some v"
    using assms by (auto simp: query_def split: prod.splits wait.splits option.splits)
  then show ?thesis using decode_range unfolding pid_value_def by blast
qed

text \<open>Only PIDs of a set are polled.\<close>

definition polls_within :: "Poller \<Rightarrow> u8 set \<Rightarrow> bool" where
  "polls_within p S \<longleftrightarrow> poller_ok p \<and> i_pid ` set (m_items p) \<subseteq> S"

lemma poller_add_pids: "i_pid ` set (m_items (poller_add pid i p)) = insert pid (i_pid ` set (m_items p))"
proof (cases "poller_find pid p")
  case None
  then show ?thesis by (auto simp: poller_add_def)
next
  case (Some it)
  then have "pid \<in> i_pid ` set (m_items p)" using poller_find_None [of pid p] by auto
  then show ?thesis using Some by (simp add: poller_add_def insert_absorb)
qed

lemma polls_within_add: "polls_within p S \<Longrightarrow> pid \<in> S \<Longrightarrow> 0 < i \<Longrightarrow> polls_within (poller_add pid i p) S"
  by (simp add: polls_within_def poller_add_pids poller_ok_add)

lemma polls_within_clear: "polls_within (poller_clear p) S"
  by (simp add: polls_within_def poller_ok_clear) (simp add: poller_clear_def)

lemma polls_within_remove: "polls_within p S \<Longrightarrow> polls_within (poller_remove pid p) (S - {pid})"
  using poller_ok_remove [of p pid]
  by (auto simp: polls_within_def) (auto simp: poller_ok_def poller_remove_def erase_first_filter)

lemma polls_within_requested: "polls_within p S \<Longrightarrow> 0 \<le> t \<Longrightarrow> polls_within (markRequested pid t p) S"
  using requested_pids [of p pid t] poller_ok_requested [of p t pid]
  by (simp only: polls_within_def flip: list.set_map)

lemma polls_within_answered: "polls_within p S \<Longrightarrow> 0 \<le> t \<Longrightarrow> polls_within (markAnswered pid t p) S"
  using answered_pids [of p pid t] poller_ok_answered [of p t pid]
  by (simp only: polls_within_def flip: list.set_map)

text \<open>Both plugins fill their scheduler from a list of PIDs and multiples of the fast period.\<close>

lemma polls_within_wanted:
  assumes "polls_within p S'" "0 < fast" "\<forall>(pid, k) \<in> set ws. 0 < k \<and> (pid \<in> S \<longrightarrow> pid \<in> S')"
  shows "polls_within (fold (\<lambda>(pid, k) p. if pid \<in> S then poller_add pid (fast * k) p else p) ws p) S'"
  using assms by (induction ws arbitrary: p) (auto simp: polls_within_add)

definition iter_ok :: "iter_env \<Rightarrow> bool" where
  "iter_ok e \<longleftrightarrow> 0 \<le> it_now e \<and> 0 \<le> it_answered e"

end
