(* ===== verification/Obd2_Ice.thy ===== *)
theory Obd2_Ice
  imports Obd_Plugin
begin

text \<open>
  The obd2-ice plugin, \<^verbatim>\<open>plugins/obd2-ice/obd2_ice.cpp\<close>: discovery, polling, plausibility, what it
  publishes, and its life cycle. One iteration of its thread takes an environment: the clock at each
  point where the code reads it and what the bus does.
\<close>

section \<open>State\<close>

record Ice =
  x_vehicleIf :: string
  x_source :: int
  x_fastMs :: int
  x_telltaleId :: int
  x_recordPath :: string
  x_running :: bool
  x_client :: J1979Client
  x_poller :: Poller
  x_discovered :: bool
  x_supported :: "u8 set"
  x_values :: "u8 \<rightharpoonup> f64"
  x_lamps :: u32
  x_lampsSeenMs :: int
  x_implausibleLogged :: "u8 set"

definition Ice_new :: Ice where
  "Ice_new = \<lparr> x_vehicleIf = [], x_source = CP_SOURCE_LIVE, x_fastMs = 100, x_telltaleId = - 1, x_recordPath = [],
     x_running = False, x_client = J1979Client_new, x_poller = Poller_new, x_discovered = False, x_supported = {},
     x_values = Map.empty, x_lamps = 0, x_lampsSeenMs = - 1, x_implausibleLogged = {} \<rparr>"

section \<open>Operations\<close>

definition ice_plausible :: "u8 \<Rightarrow> f64 \<Rightarrow> Ice \<Rightarrow> bool \<times> Ice \<times> host_call list" where
  "ice_plausible pid v x = (
     let ok = True;
         ok = (if pid = PID_MODULE_VOLTAGE \<and> v < dlit 6 then False else ok);
         ok = (if pid = PID_AMBIENT_TEMP \<and> v \<le> dlit (- 40) then False else ok)
     in if ok then (True, x, [])
        else (
          let logs = (if pid \<in> x_implausibleLogged x then [] else [logf CANPROXY_LOG_WARN
            (''PID 0x'' @ hex_text 2 (unat pid) @ '' ('' @ pidName pid @ '') answers '' @ fixed_text 1 v @
             '', an unpopulated filler; dropping it for this session'')])
          in (False, x\<lparr> x_implausibleLogged := insert pid (x_implausibleLogged x),
                x_supported := x_supported x - {pid}, x_poller := poller_remove pid (x_poller x),
                x_values := (x_values x)(pid := None) \<rparr>, logs)))"

definition ice_onTelltales :: "Frame \<times> int \<Rightarrow> Ice \<Rightarrow> Ice" where
  "ice_onTelltales ft x = (
     let f = fst ft
     in if f_dlc f < 2 then x
        else (
          let bits = ucast (f_data f ! 0) OR push_bit 8 (ucast (f_data f ! 1));
              bits = (if f_dlc f \<ge> 4 then bits OR push_bit 16 (ucast (f_data f ! 2)) OR push_bit 24 (ucast (f_data f ! 3))
                      else bits)
          in x\<lparr> x_lamps := bits, x_lampsSeenMs := snd ft \<rparr>))"

definition ice_want :: "(u8 \<times> int) list" where
  "ice_want = [(PID_SPEED, 1), (PID_RPM, 1), (PID_COOLANT_TEMP, 5), (PID_FUEL_LEVEL, 20), (PID_MODULE_VOLTAGE, 20),
     (PID_AMBIENT_TEMP, 20), (PID_ODOMETER, 20)]"

text \<open>The callback runs while the client waits, so broadcasts come before what follows the request.\<close>

definition ice_discover :: "request_env list \<Rightarrow> Ice \<Rightarrow> bool wait \<times> Ice \<times> host_call list" where
  "ice_discover envs x =
     (case discover 300 envs (x_client x) of
        (Waiting, c, bs) \<Rightarrow> (Waiting, fold ice_onTelltales bs (x\<lparr> x_client := c \<rparr>), [])
      | (Done ok, c, bs) \<Rightarrow> (
          let x = fold ice_onTelltales bs (x\<lparr> x_client := c \<rparr>)
          in if \<not> ok then (Done False, x, [])
             else (
               let x = x\<lparr> x_supported := c_supported c, x_poller := poller_clear (x_poller x), x_values := Map.empty \<rparr>;
                   add = (\<lambda>(pid, k) p. if pid \<in> x_supported x then poller_add pid (x_fastMs x * k) p else p)
               in (Done True, x\<lparr> x_poller := fold add ice_want (x_poller x) \<rparr>, [logf CANPROXY_LOG_INFO
                 (''ECU 0x'' @ hex_text 3 (unat (c_primaryEcu c)) @ '' advertises'' @
                  concat (map (\<lambda>pid. '' '' @ hex_text 2 (unat pid)) (sorted_list_of_set (x_supported x))))]))))"

definition ice_cap :: "int \<Rightarrow> Ice \<Rightarrow> u8 \<Rightarrow> canproxy_signal \<Rightarrow> (f64 \<Rightarrow> canproxy_vehicle_state \<Rightarrow> canproxy_vehicle_state) \<Rightarrow>
    canproxy_vehicle_state \<Rightarrow> canproxy_vehicle_state" where
  "ice_cap now x pid sig set_field s =
     (if pid \<notin> x_supported x then s
      else (
        let s = s\<lparr> s_capable := s_capable s OR CANPROXY_SIG_BIT sig \<rparr>
        in case x_values x pid of
             None \<Rightarrow> s
           | Some v \<Rightarrow>
               if poller_fresh (x_poller x) pid now then
                 set_field (v * dlit 1) (s\<lparr> s_valid := s_valid s OR CANPROXY_SIG_BIT sig \<rparr>)
               else s))"

definition ice_caps :: "(u8 \<times> canproxy_signal \<times> (f64 \<Rightarrow> canproxy_vehicle_state \<Rightarrow> canproxy_vehicle_state)) list" where
  "ice_caps =
    [(PID_SPEED, CANPROXY_SIG_SPEED, \<lambda>v s. s\<lparr> s_speed_kmh := v \<rparr>),
     (PID_RPM, CANPROXY_SIG_RPM, \<lambda>v s. s\<lparr> s_rpm := v \<rparr>),
     (PID_COOLANT_TEMP, CANPROXY_SIG_COOLANT_TEMP, \<lambda>v s. s\<lparr> s_coolant_c := v \<rparr>),
     (PID_FUEL_LEVEL, CANPROXY_SIG_FUEL_LEVEL, \<lambda>v s. s\<lparr> s_fuel_pct := v \<rparr>),
     (PID_MODULE_VOLTAGE, CANPROXY_SIG_AUX_BATTERY, \<lambda>v s. s\<lparr> s_aux_battery_v := v \<rparr>),
     (PID_AMBIENT_TEMP, CANPROXY_SIG_AMBIENT_TEMP, \<lambda>v s. s\<lparr> s_ambient_c := v \<rparr>),
     (PID_ODOMETER, CANPROXY_SIG_ODOMETER, \<lambda>v s. s\<lparr> s_odometer_km := v \<rparr>)]"

definition ice_power :: "Ice \<Rightarrow> canproxy_vehicle_state \<Rightarrow> canproxy_vehicle_state" where
  "ice_power x s =
     (if PID_RPM \<notin> x_supported x then s
      else (
        let s = s\<lparr> s_capable := s_capable s OR CANPROXY_SIG_BIT CANPROXY_SIG_POWER_STATE \<rparr>
        in if s_valid s AND CANPROXY_SIG_BIT CANPROXY_SIG_RPM \<noteq> 0 then
             s\<lparr> s_valid := s_valid s OR CANPROXY_SIG_BIT CANPROXY_SIG_POWER_STATE,
               s_power_state := (if s_rpm s > dlit 0 then CP_POWER_READY else CP_POWER_ON) \<rparr>
           else s))"

definition ice_state :: "int \<Rightarrow> Ice \<Rightarrow> canproxy_vehicle_state" where
  "ice_state now x = (
     let s = zero_vehicle_state\<lparr> s_drivetrain := CP_DRIVETRAIN_ICE, s_source := x_source x,
           s_vehicle_id := canproxy_vehicle_id (Some ''obd2-ice'') None \<rparr>;
         s = fold (\<lambda>(pid, sig, set_field). ice_cap now x pid sig set_field) ice_caps s;
         s = ice_power x s
     in if x_lampsSeenMs x \<ge> 0 \<and> now - x_lampsSeenMs x \<le> 500 then s\<lparr> s_lamps := x_lamps x \<rparr> else s)"

section \<open>The thread\<close>

text \<open>What polling the due item, or idling, leads to; the flag says that the vehicle is gone.\<close>

definition ice_poll :: "iter_env \<Rightarrow> Ice \<Rightarrow> bool wait \<times> Ice \<times> host_call list" where
  "ice_poll e x =
     (case nextDue (x_poller x) (it_now e) of
        Some pid \<Rightarrow> (
          let x = x\<lparr> x_poller := markRequested pid (it_now e) (x_poller x) \<rparr>
          in case query pid (x_fastMs x) (it_query e) (x_client x) of
               (Waiting, c, bs) \<Rightarrow> (Waiting, fold ice_onTelltales bs (x\<lparr> x_client := c \<rparr>), [])
             | (Done (Some v), c, bs) \<Rightarrow> (
                 let (ok, x, logs) = ice_plausible pid v (fold ice_onTelltales bs (x\<lparr> x_client := c \<rparr>))
                 in (Done False,
                     if ok then x\<lparr> x_values := (x_values x)(pid \<mapsto> v),
                       x_poller := markAnswered pid (it_answered e) (x_poller x) \<rparr> else x, logs))
             | (Done None, c, bs) \<Rightarrow> (
                 let x = fold ice_onTelltales bs (x\<lparr> x_client := c \<rparr>)
                 in if m_unanswered (x_poller x) \<ge> 5 then
                      (Done True, x\<lparr> x_discovered := False \<rparr>, [logf CANPROXY_LOG_WARN
                        (''no answer from ECU 0x'' @ hex_text 3 (unat (c_primaryEcu c)) @ '', vehicle gone''), SetLink 0])
                    else (Done False, x, [])))
      | None \<Rightarrow> (
          let (c, bs) = idle (it_idle e) (x_client x)
          in (Done False, fold ice_onTelltales bs (x\<lparr> x_client := c \<rparr>), [])))"

definition ice_iter :: "iter_env \<Rightarrow> Ice \<times> int \<Rightarrow> ((Ice \<times> int) \<times> host_call list) wait" where
  "ice_iter e xn = (
     let (x, nextPublish) = xn;
         (found, x, calls) = (if x_discovered x then (Done True, x, []) else ice_discover (it_discovery e) x)
     in case found of
          Waiting \<Rightarrow> Waiting
        | Done False \<Rightarrow> (
            let x = x\<lparr> x_values := Map.empty \<rparr>
            in Done ((x, nextPublish), calls @ [SetLink 0, Publish (ice_state (it_now e) x)]))
        | Done True \<Rightarrow> (
            let calls = (if x_discovered x then calls else calls @ [SetLink 1]);
                (gone, x, polled) = ice_poll e (x\<lparr> x_discovered := True \<rparr>)
            in case gone of
                 Waiting \<Rightarrow> Waiting
               | Done True \<Rightarrow> Done ((x, nextPublish), calls @ polled)
               | Done False \<Rightarrow>
                   if it_check e \<ge> nextPublish then
                     Done ((x, it_after e + 50), calls @ polled @ [Publish (ice_state (it_publish e) x)])
                   else Done ((x, nextPublish), calls @ polled)))"

fun ice_run :: "iter_env list \<Rightarrow> Ice \<times> int \<Rightarrow> ((Ice \<times> int) \<times> host_call list) wait" where
  "ice_run [] xn = Done (xn, [])"
| "ice_run (e # es) xn =
     (case ice_iter e xn of
        Waiting \<Rightarrow> Waiting
      | Done (xn, calls) \<Rightarrow> (
          case ice_run es xn of Waiting \<Rightarrow> Waiting | Done (xn, calls') \<Rightarrow> Done (xn, calls @ calls')))"

section \<open>Life cycle\<close>

definition ice_create :: "canproxy_plugin_args \<Rightarrow> Ice creation" where
  "ice_create args =
     (case vehicle_if args of
        None \<Rightarrow> refused ''obd2-ice needs --vehicle-if''
      | Some vif \<Rightarrow> (
          let p = Ice_new\<lparr> x_vehicleIf := vif \<rparr>;
              sourced = (case canproxy_arg args ''source'' of
                  None \<Rightarrow> Inr p
                | Some v \<Rightarrow> if v = ''live'' then Inr (p\<lparr> x_source := CP_SOURCE_LIVE \<rparr>)
                    else if v = ''emulator'' then Inr (p\<lparr> x_source := CP_SOURCE_EMULATOR \<rparr>)
                    else if v = ''replay'' then Inr (p\<lparr> x_source := CP_SOURCE_REPLAY \<rparr>)
                    else Inl (''unknown source '' @ quoted v @ '' (live|emulator|replay)''))
          in case sourced of
               Inl why \<Rightarrow> refused why
             | Inr p \<Rightarrow> (
                 let timed = (case canproxy_arg args ''fast_ms'' of
                     None \<Rightarrow> Some (Inr p)
                   | Some f \<Rightarrow> (case c_atol f of
                       None \<Rightarrow> None
                     | Some n \<Rightarrow> if n < 20 \<or> n > 5000 then Some (Inl ''fast_ms out of range 20..5000'')
                         else Some (Inr (p\<lparr> x_fastMs := n \<rparr>))))
                 in case timed of
                      None \<Rightarrow> None
                    | Some (Inl why) \<Rightarrow> refused why
                    | Some (Inr p) \<Rightarrow> (
                        let p = p\<lparr> x_telltaleId := (if x_source p = CP_SOURCE_LIVE then - 1 else 0x420) \<rparr>;
                            p = (case canproxy_arg args ''telltale_id'' of
                                None \<Rightarrow> p
                              | Some t \<Rightarrow> p\<lparr> x_telltaleId := (if t = ''none'' then - 1 else strtol0 t) \<rparr>);
                            p = (case canproxy_arg args ''record'' of
                                None \<Rightarrow> p | Some r \<Rightarrow> p\<lparr> x_recordPath := r \<rparr>)
                        in Some ([], Some p)))))"

text \<open>The result of \<open>start\<close>, the object and what it logs; the bus and the log file answer.\<close>

definition ice_start :: "open_step \<Rightarrow> string option \<Rightarrow> Ice \<Rightarrow> int \<times> Ice \<times> host_call list" where
  "ice_start opened failure p =
     (if x_running p then (0, p, [])
      else (
        let p = p\<lparr> x_running := True \<rparr>;
            p = (if x_telltaleId p \<ge> 0 then
                   p\<lparr> x_client := client_setBroadcastSink (x_telltaleId p) True (x_client p) \<rparr> else p);
            (e, c) = client_open (x_vehicleIf p) opened (x_client p);
            p = p\<lparr> x_client := c \<rparr>;
            polling = logf CANPROXY_LOG_INFO
              (''polling '' @ x_vehicleIf p @ '', fast tier '' @ int_text (x_fastMs p) @ '' ms'')
        in if e \<noteq> [] then (1, p\<lparr> x_running := False \<rparr>, [logf CANPROXY_LOG_ERROR e])
           else if x_recordPath p = [] then (0, p, [polling])
           else (
             let (e, ch) = channel_startRecording (x_recordPath p) failure (c_ch (x_client p));
                 p = p\<lparr> x_client := (x_client p)\<lparr> c_ch := ch \<rparr> \<rparr>
             in if e \<noteq> [] then (1, p\<lparr> x_running := False \<rparr>, [logf CANPROXY_LOG_ERROR e])
                else (0, p, [logf CANPROXY_LOG_INFO (''recording vehicle side to '' @ x_recordPath p), polling]))))"

definition ice_stop :: "Ice \<Rightarrow> Ice" where
  "ice_stop p =
     (if \<not> x_running p then p
      else p\<lparr> x_running := False,
        x_client := client_close ((x_client p)\<lparr> c_ch := channel_stopRecording (c_ch (x_client p)) \<rparr>) \<rparr>)"

section \<open>What the plugin knows and publishes\<close>

definition ice_knows :: "int \<Rightarrow> Ice \<Rightarrow> u8 \<Rightarrow> bool" where
  "ice_knows now x pid \<longleftrightarrow> pid \<in> x_supported x \<and> x_values x pid \<noteq> None \<and> poller_fresh (x_poller x) pid now"

definition ice_ok :: "Ice \<Rightarrow> bool" where
  "ice_ok x \<longleftrightarrow> 0 < x_fastMs x \<and> polls_within (x_poller x) (x_supported x \<inter> fst ` set ice_want) \<and>
     (\<forall>pid v. x_values x pid = Some v \<longrightarrow> pid_value pid v)"

lemma ice_cap_bits:
  assumes "number_field f"
  shows "valid_sig (ice_cap now x pid a f s) sig \<longleftrightarrow> valid_sig s sig \<or> (sig = a \<and> ice_knows now x pid)"
    "capable_sig (ice_cap now x pid a f s) sig \<longleftrightarrow> capable_sig s sig \<or> (sig = a \<and> pid \<in> x_supported x)"
  using assms
  by (auto simp: ice_cap_def Let_def valid_sig_def capable_sig_def ice_knows_def number_field_def valid_sig_or bit_sig
      split: option.splits)

lemma ice_cap_honest:
  assumes "honest s" "number_field f" "ice_ok x" "\<And>s. enum_in_range s a"
  shows "honest (ice_cap now x pid a f s)"
proof -
  have "encodable (v * dlit 1)" if "x_values x pid = Some v" for v
    using assms(3) that by (intro pid_value_encodable [of pid] pid_value_times_one) (simp add: ice_ok_def)
  then show ?thesis
    using honest_measured [OF assms(1,2) _ assms(4)] honest_capable [OF assms(1)] assms(1)
    by (auto simp: ice_cap_def Let_def split: option.splits)
qed

lemma ice_cap_power: "number_field f \<Longrightarrow> s_source (ice_cap now x pid a f s) = s_source s \<and> s_lamps (ice_cap now x pid a f s) = s_lamps s"
  by (auto simp: ice_cap_def Let_def number_field_def split: option.splits)

text \<open>The signals read from PIDs, before the power state is added.\<close>

definition ice_measured :: "int \<Rightarrow> Ice \<Rightarrow> canproxy_vehicle_state" where
  "ice_measured now x = fold (\<lambda>(pid, sig, set_field). ice_cap now x pid sig set_field) ice_caps
     (zero_vehicle_state\<lparr> s_drivetrain := CP_DRIVETRAIN_ICE, s_source := x_source x,
        s_vehicle_id := canproxy_vehicle_id (Some ''obd2-ice'') None \<rparr>)"

text \<open>Which PID a signal comes from.\<close>

definition ice_source_pid :: "canproxy_signal \<Rightarrow> u8 option" where
  "ice_source_pid sig = map_of
     [(CANPROXY_SIG_SPEED, PID_SPEED), (CANPROXY_SIG_RPM, PID_RPM), (CANPROXY_SIG_COOLANT_TEMP, PID_COOLANT_TEMP),
      (CANPROXY_SIG_FUEL_LEVEL, PID_FUEL_LEVEL), (CANPROXY_SIG_AUX_BATTERY, PID_MODULE_VOLTAGE),
      (CANPROXY_SIG_AMBIENT_TEMP, PID_AMBIENT_TEMP), (CANPROXY_SIG_ODOMETER, PID_ODOMETER)] sig"

lemma ice_measured_bits:
  "valid_sig (ice_measured now x) sig \<longleftrightarrow> (\<exists>pid. ice_source_pid sig = Some pid \<and> ice_knows now x pid)"
  "capable_sig (ice_measured now x) sig \<longleftrightarrow> (\<exists>pid. ice_source_pid sig = Some pid \<and> pid \<in> x_supported x)"
  unfolding ice_measured_def ice_caps_def
  by (cases sig; simp add: ice_cap_bits number_fields zero_bits ice_source_pid_def)+

lemma ice_measured_honest: "ice_ok x \<Longrightarrow> honest (ice_measured now x)"
  unfolding ice_measured_def ice_caps_def
  by (simp add: ice_cap_honest number_fields honest_zero)

lemma ice_power_bits:
  "valid_sig (ice_power x s) sig \<longleftrightarrow> valid_sig s sig \<or>
     (sig = CANPROXY_SIG_POWER_STATE \<and> PID_RPM \<in> x_supported x \<and> valid_sig s CANPROXY_SIG_RPM)"
  "capable_sig (ice_power x s) sig \<longleftrightarrow> capable_sig s sig \<or> (sig = CANPROXY_SIG_POWER_STATE \<and> PID_RPM \<in> x_supported x)"
  by (auto simp: ice_power_def Let_def valid_sig_def capable_sig_def valid_sig_or bit_sig and_sig_bit)

lemma ice_power_honest:
  assumes "honest s"
  shows "honest (ice_power x s)"
proof -
  let ?s = "s\<lparr> s_capable := s_capable s OR CANPROXY_SIG_BIT CANPROXY_SIG_POWER_STATE \<rparr>"
  define ps where "ps = (if s_rpm s > dlit 0 then CP_POWER_READY else CP_POWER_ON)"
  have ps: "0 \<le> ps" "ps \<le> 3" by (simp_all add: ps_def CP_POWER_READY_def CP_POWER_ON_def)
  have "honest (?s\<lparr> s_power_state := ps \<rparr>)"
    using ps by (intro honest_power honest_capable [OF assms])
  then have "honest (?s\<lparr> s_power_state := ps, s_valid := s_valid ?s OR CANPROXY_SIG_BIT CANPROXY_SIG_POWER_STATE \<rparr>)"
    using honest_valid [of "?s\<lparr> s_power_state := ps \<rparr>" CANPROXY_SIG_POWER_STATE] ps
    by (simp add: capable_sig_def valid_sig_or bit_sig del: sig_index.simps)
  moreover have "?s\<lparr> s_power_state := ps, s_valid := v \<rparr> = ?s\<lparr> s_valid := v, s_power_state := ps \<rparr>" for v by simp
  ultimately have h: "honest (?s\<lparr> s_valid := s_valid ?s OR CANPROXY_SIG_BIT CANPROXY_SIG_POWER_STATE, s_power_state := ps \<rparr>)"
    by (simp only:)
  show ?thesis
    using assms honest_capable [OF assms] h by (simp only: ice_power_def Let_def ps_def) simp
qed

lemma ice_state_eq:
  "ice_state now x = (if x_lampsSeenMs x \<ge> 0 \<and> now - x_lampsSeenMs x \<le> 500
     then (ice_power x (ice_measured now x))\<lparr> s_lamps := x_lamps x \<rparr> else ice_power x (ice_measured now x))"
  by (simp add: ice_state_def ice_measured_def Let_def)

lemma ice_state_bits:
  "valid_sig (ice_state now x) sig \<longleftrightarrow> (\<exists>pid. ice_source_pid sig = Some pid \<and> ice_knows now x pid) \<or>
     (sig = CANPROXY_SIG_POWER_STATE \<and> ice_knows now x PID_RPM)"
  "capable_sig (ice_state now x) sig \<longleftrightarrow> (\<exists>pid. ice_source_pid sig = Some pid \<and> pid \<in> x_supported x) \<or>
     (sig = CANPROXY_SIG_POWER_STATE \<and> PID_RPM \<in> x_supported x)"
proof -
  have lamps: "valid_sig (s\<lparr> s_lamps := l \<rparr>) sig = valid_sig s sig" "capable_sig (s\<lparr> s_lamps := l \<rparr>) sig = capable_sig s sig" for s l
    by (simp_all add: valid_sig_def capable_sig_def)
  have rpm: "ice_source_pid CANPROXY_SIG_RPM = Some PID_RPM" by (simp add: ice_source_pid_def)
  show "valid_sig (ice_state now x) sig \<longleftrightarrow> (\<exists>pid. ice_source_pid sig = Some pid \<and> ice_knows now x pid) \<or>
     (sig = CANPROXY_SIG_POWER_STATE \<and> ice_knows now x PID_RPM)"
    by (auto simp: ice_state_eq lamps ice_power_bits ice_measured_bits rpm ice_knows_def)
  show "capable_sig (ice_state now x) sig \<longleftrightarrow> (\<exists>pid. ice_source_pid sig = Some pid \<and> pid \<in> x_supported x) \<or>
     (sig = CANPROXY_SIG_POWER_STATE \<and> PID_RPM \<in> x_supported x)"
    by (auto simp: ice_state_eq lamps ice_power_bits ice_measured_bits)
qed

lemma ice_state_honest: "ice_ok x \<Longrightarrow> honest (ice_state now x)"
  by (simp add: ice_state_eq honest_lamps ice_power_honest ice_measured_honest)

interpretation ice: source_plugin "\<lambda>(now, x). ice_state now x" "\<lambda>(now, x). ice_ok x"
  by (rule source_pluginI) (auto simp: ice_state_honest)

section \<open>What every iteration keeps\<close>

lemma telltales_keep:
  "\<exists>l t. fold ice_onTelltales bs x = x\<lparr> x_lamps := l, x_lampsSeenMs := t \<rparr>"
proof (induction bs arbitrary: x)
  case Nil
  have "x = x\<lparr> x_lamps := x_lamps x, x_lampsSeenMs := x_lampsSeenMs x \<rparr>" by simp
  then show ?case by (simp only: fold.simps id_apply) blast
next
  case (Cons b bs)
  have "\<exists>l t. ice_onTelltales b x = x\<lparr> x_lamps := l, x_lampsSeenMs := t \<rparr>"
  proof (cases "f_dlc (fst b) < 2")
    case True
    then have "ice_onTelltales b x = x\<lparr> x_lamps := x_lamps x, x_lampsSeenMs := x_lampsSeenMs x \<rparr>"
      by (simp add: ice_onTelltales_def)
    then show ?thesis by blast
  next
    case False
    then show ?thesis by (simp only: ice_onTelltales_def Let_def if_False) blast
  qed
  then obtain l t where b: "ice_onTelltales b x = x\<lparr> x_lamps := l, x_lampsSeenMs := t \<rparr>" by blast
  then show ?case using Cons.IH [of "x\<lparr> x_lamps := l, x_lampsSeenMs := t \<rparr>"] by force
qed

lemma telltales_fields:
  "x_poller (fold ice_onTelltales bs x) = x_poller x" "x_fastMs (fold ice_onTelltales bs x) = x_fastMs x"
  "x_supported (fold ice_onTelltales bs x) = x_supported x" "x_values (fold ice_onTelltales bs x) = x_values x"
  "x_discovered (fold ice_onTelltales bs x) = x_discovered x" "x_client (fold ice_onTelltales bs x) = x_client x"
  "x_source (fold ice_onTelltales bs x) = x_source x" "ice_ok (fold ice_onTelltales bs x) = ice_ok x"
  using telltales_keep [of bs x] by (auto simp: ice_ok_def simp del: Int_subset_iff)

lemma ice_ok_fields [simp]:
  "ice_ok (x\<lparr> x_client := c \<rparr>) = ice_ok x" "ice_ok (x\<lparr> x_discovered := d \<rparr>) = ice_ok x"
  "ice_ok (x\<lparr> x_source := i \<rparr>) = ice_ok x" "ice_ok (x\<lparr> x_telltaleId := i \<rparr>) = ice_ok x"
  "ice_ok (x\<lparr> x_recordPath := r \<rparr>) = ice_ok x" "ice_ok (x\<lparr> x_running := d \<rparr>) = ice_ok x"
  "ice_ok (x\<lparr> x_vehicleIf := r \<rparr>) = ice_ok x"
  by (simp_all add: ice_ok_def)

lemma ice_ok_no_values: "ice_ok x \<Longrightarrow> ice_ok (x\<lparr> x_values := Map.empty \<rparr>)"
  by (simp add: ice_ok_def)

lemma ice_discover_ok:
  assumes "ice_ok x" "ice_discover envs x = (out, x', calls)"
  shows "ice_ok x' \<and> x_discovered x' = x_discovered x \<and> published_states calls = [] \<and>
    (out = Done False \<longrightarrow> x_supported x' = x_supported x)"
proof -
  obtain r c bs where d: "discover 300 envs (x_client x) = (r, c, bs)" by (metis prod_cases3)
  let ?y = "fold ice_onTelltales bs (x\<lparr> x_client := c \<rparr>)"
  have y: "ice_ok ?y" using assms(1) by (simp add: telltales_fields)
  show ?thesis
  proof (cases "r = Done True")
    case True
    let ?p = "fold (\<lambda>(pid, k) p. if pid \<in> c_supported c then poller_add pid (x_fastMs x * k) p else p) ice_want
      (poller_clear (x_poller x))"
    have f: "0 < x_fastMs x" using assms(1) by (simp add: ice_ok_def)
    have "polls_within ?p (c_supported c \<inter> fst ` set ice_want)"
      using f by (intro polls_within_wanted polls_within_clear) (auto simp: ice_want_def)
    then show ?thesis
      using assms(2) True f by (auto simp: ice_discover_def d Let_def telltales_fields ice_ok_def cong: if_cong)
  next
    case False
    then show ?thesis
      using assms(2) y by (cases r) (auto simp: ice_discover_def d Let_def telltales_fields split: if_splits)
  qed
qed

lemma ice_dropped_ok:
  assumes "ice_ok x"
  shows "ice_ok (x\<lparr> x_implausibleLogged := l, x_supported := x_supported x - {pid},
    x_poller := poller_remove pid (x_poller x), x_values := (x_values x)(pid := None) \<rparr>)"
proof -
  have "(x_supported x \<inter> fst ` set ice_want) - {pid} = (x_supported x - {pid}) \<inter> fst ` set ice_want" by blast
  then show ?thesis
    using assms polls_within_remove [of "x_poller x" "x_supported x \<inter> fst ` set ice_want" pid]
    by (auto simp: ice_ok_def simp del: Int_Diff)
qed

lemma ice_plausible_ok:
  assumes "ice_ok x" "ice_plausible pid v x = (ok, x', calls)"
  shows "ice_ok x' \<and> (ok \<longrightarrow> x' = x) \<and> published_states calls = [] \<and> x_discovered x' = x_discovered x"
proof -
  show ?thesis
    using assms ice_dropped_ok [OF assms(1)] by (auto simp: ice_plausible_def Let_def split: if_splits)
qed

lemma ice_requested_ok: "ice_ok x \<Longrightarrow> 0 \<le> t \<Longrightarrow> ice_ok (x\<lparr> x_poller := markRequested pid t (x_poller x) \<rparr>)"
  by (simp add: ice_ok_def polls_within_requested)

lemma ice_answered_ok:
  "ice_ok x \<Longrightarrow> 0 \<le> t \<Longrightarrow> pid_value pid v \<Longrightarrow>
    ice_ok (x\<lparr> x_values := (x_values x)(pid \<mapsto> v), x_poller := markAnswered pid t (x_poller x) \<rparr>)"
  by (auto simp: ice_ok_def polls_within_answered)

lemma ice_poll_ok:
  assumes "ice_ok x" "iter_ok e" "ice_poll e x = (gone, x', calls)"
  shows "ice_ok x' \<and> published_states calls = [] \<and> (gone = Done False \<longrightarrow> x_discovered x' = x_discovered x)"
proof (cases "nextDue (x_poller x) (it_now e)")
  case None
  obtain c bs where "idle (it_idle e) (x_client x) = (c, bs)" by fastforce
  then show ?thesis using assms None by (auto simp: ice_poll_def telltales_fields)
next
  case (Some pid)
  let ?x = "x\<lparr> x_poller := markRequested pid (it_now e) (x_poller x) \<rparr>"
  obtain r c bs where q: "query pid (x_fastMs x) (it_query e) (x_client x) = (r, c, bs)" by (metis prod_cases3)
  let ?y = "fold ice_onTelltales bs (?x\<lparr> x_client := c \<rparr>)"
  have x: "ice_ok ?x" using assms(1,2) by (intro ice_requested_ok) (simp_all add: iter_ok_def)
  then have y: "ice_ok ?y" by (simp add: telltales_fields)
  have yd: "x_discovered ?y = x_discovered x" by (simp add: telltales_fields)
  show ?thesis
  proof (cases "\<exists>v. r = Done (Some v)")
    case True
    then obtain v where r: "r = Done (Some v)" by blast
    obtain ok z logs where p: "ice_plausible pid v ?y = (ok, z, logs)" by (metis prod_cases3)
    note z = ice_plausible_ok [OF y p]
    have "ice_ok (z\<lparr> x_values := (x_values z)(pid \<mapsto> v), x_poller := markAnswered pid (it_answered e) (x_poller z) \<rparr>)"
      using z assms(2) query_value q r by (intro ice_answered_ok) (auto simp: iter_ok_def)
    then show ?thesis
      using assms(3) Some q r p z yd by (auto simp: ice_poll_def Let_def split: if_splits)
  next
    case False
    then show ?thesis
      using assms(3) Some q y yd
      by (cases r) (auto simp: ice_poll_def Let_def split: option.splits if_splits)
  qed
qed

text \<open>Every state an iteration publishes is \<open>ice_state\<close> of a state that is \<open>ice_ok\<close>.\<close>

lemma ice_iter_ok:
  assumes "ice_ok x" "iter_ok e" "ice_iter e (x, n) = Done ((x', n'), calls)"
  shows "ice_ok x' \<and> (\<forall>s \<in> set (published_states calls). \<exists>now y. ice_ok y \<and> s = ice_state now y)"
proof -
  obtain found y c1 where d: "(if x_discovered x then (Done True, x, []) else ice_discover (it_discovery e) x) = (found, y, c1)"
    by (metis prod_cases3)
  have y: "ice_ok y" "published_states c1 = []"
    using d ice_discover_ok [of x "it_discovery e" found y c1] assms(1) by (auto split: if_splits)
  show ?thesis
  proof (cases found)
    case Waiting
    then show ?thesis using assms(3) by (simp add: ice_iter_def d)
  next
    case (Done ok)
    show ?thesis
    proof (cases ok)
      case True
      obtain gone z c2 where p: "ice_poll e (y\<lparr> x_discovered := True \<rparr>) = (gone, z, c2)" by (metis prod_cases3)
      have "ice_ok (y\<lparr> x_discovered := True \<rparr>)" using y by simp
      note z = ice_poll_ok [OF this assms(2) p]
      show ?thesis
        using assms(3) z y(2) True Done
        by (cases gone) (auto simp: ice_iter_def d p Let_def split: bool.splits if_splits intro!: exI)
    next
      case False
      then show ?thesis
        using assms(3) y(2) ice_ok_no_values [OF y(1)] Done by (clarsimp simp: ice_iter_def d Let_def) blast
    qed
  qed
qed

lemma ice_run_ok:
  "ice_ok x \<Longrightarrow> \<forall>e \<in> set es. iter_ok e \<Longrightarrow> ice_run es (x, n) = Done ((x', n'), calls) \<Longrightarrow>
    ice_ok x' \<and> (\<forall>s \<in> set (published_states calls). \<exists>now y. ice_ok y \<and> s = ice_state now y)"
proof (induction es arbitrary: x n calls)
  case (Cons e es)
  obtain y m c1 c2 where i: "ice_iter e (x, n) = Done ((y, m), c1)" "ice_run es (y, m) = Done ((x', n'), c2)" "calls = c1 @ c2"
    using Cons.prems(3) by (auto split: wait.splits)
  have 1: "ice_ok y \<and> (\<forall>s \<in> set (published_states c1). \<exists>now y. ice_ok y \<and> s = ice_state now y)"
    using ice_iter_ok [OF Cons.prems(1) _ i(1)] Cons.prems(2) by simp
  then have "ice_ok x' \<and> (\<forall>s \<in> set (published_states c2). \<exists>now y. ice_ok y \<and> s = ice_state now y)"
    using Cons.IH [OF _ _ i(2)] Cons.prems(2) by simp
  then show ?case using 1 i(3) by auto
qed simp

lemma ice_new_ok: "ice_ok Ice_new"
  by (simp add: ice_ok_def Ice_new_def polls_within_def poller_ok_new) (simp add: Poller_new_def)

lemma ice_ok_fast: "ice_ok x \<Longrightarrow> 0 < n \<Longrightarrow> ice_ok (x\<lparr> x_fastMs := n \<rparr>)"
  by (simp add: ice_ok_def)

lemma ice_created_ok: "ice_create args = Some (said, Some x) \<Longrightarrow> ice_ok x"
  by (auto simp: ice_create_def Let_def ice_new_ok intro!: ice_ok_fast split: option.splits sum.splits if_splits)

lemma ice_started_ok: "ice_ok x \<Longrightarrow> ice_ok (fst (snd (ice_start opened failure x)))"
  by (auto simp: ice_start_def Let_def split: prod.splits)

lemma no_values_no_signals: "\<not> valid_sig (ice_state now (x\<lparr> x_values := Map.empty \<rparr>)) sig"
  by (simp add: ice_state_bits ice_knows_def)

lemma ice_poll_gone:
  assumes "ice_poll e x = (gone, x', calls)"
  shows "(gone = Done True \<longrightarrow> \<not> x_discovered x' \<and> SetLink 0 \<in> set calls \<and> 5 \<le> m_unanswered (x_poller x') \<and>
      x_supported x' = x_supported x) \<and>
    (gone = Done False \<longrightarrow> SetLink 0 \<notin> set calls)"
proof (cases "nextDue (x_poller x) (it_now e)")
  case None
  then show ?thesis using assms by (auto simp: ice_poll_def split: prod.splits)
next
  case (Some pid)
  obtain r c bs where q: "query pid (x_fastMs x) (it_query e) (x_client x) = (r, c, bs)" by (metis prod_cases3)
  let ?x = "x\<lparr> x_poller := markRequested pid (it_now e) (x_poller x), x_client := c \<rparr>"
  show ?thesis
  proof (cases "\<exists>v. r = Done (Some v)")
    case True
    then obtain v where r: "r = Done (Some v)" by blast
    obtain ok z logs where p: "ice_plausible pid v (fold ice_onTelltales bs ?x) = (ok, z, logs)" by (metis prod_cases3)
    have "SetLink 0 \<notin> set logs" using p by (auto simp: ice_plausible_def Let_def split: if_splits)
    then show ?thesis using assms Some q r p by (auto simp: ice_poll_def Let_def)
  next
    case False
    then show ?thesis
      using assms Some q
      by (cases r) (auto simp: ice_poll_def Let_def telltales_fields split: option.splits if_splits)
  qed
qed

text \<open>The request of this iteration, if it makes one, is not answered in time.\<close>

definition goes_unanswered :: "iter_env \<Rightarrow> Ice \<Rightarrow> bool" where
  "goes_unanswered e x \<longleftrightarrow> (case nextDue (x_poller x) (it_now e) of
     None \<Rightarrow> False
   | Some pid \<Rightarrow> fst (query pid (x_fastMs x) (it_query e) (x_client x)) = Done None)"

lemma goes_unanswered_discovered [simp]: "goes_unanswered e (x\<lparr> x_discovered := d \<rparr>) = goes_unanswered e x"
  by (simp add: goes_unanswered_def cong: option.case_cong)

lemma ice_poll_gone_iff:
  assumes "ice_poll e x = (Done gone, x', calls)" "poller_ok (x_poller x)"
  shows "gone \<longleftrightarrow> goes_unanswered e x \<and> 4 \<le> m_unanswered (x_poller x)"
proof (cases "nextDue (x_poller x) (it_now e)")
  case None
  then show ?thesis using assms by (auto simp: ice_poll_def goes_unanswered_def split: prod.splits)
next
  case (Some pid)
  have m: "m_unanswered (markRequested pid (it_now e) (x_poller x)) = m_unanswered (x_poller x) + 1"
    using nextDue_Some [OF assms(2) Some] by (auto simp: markRequested_def poller_find_None split: option.splits)
  obtain r c bs where q: "query pid (x_fastMs x) (it_query e) (x_client x) = (r, c, bs)" by (metis prod_cases3)
  show ?thesis
  proof (cases "\<exists>v. r = Done (Some v)")
    case True
    then show ?thesis using assms Some q by (auto simp: ice_poll_def goes_unanswered_def Let_def split: prod.splits)
  next
    case False
    then show ?thesis
      using assms Some q m
      by (cases r) (auto simp: ice_poll_def goes_unanswered_def Let_def telltales_fields split: option.splits if_splits)
  qed
qed

lemma ice_discover_calls: "ice_discover envs x = (out, x', calls) \<Longrightarrow> SetLink p \<notin> set calls"
  by (auto simp: ice_discover_def Let_def split: prod.splits wait.splits if_splits)

section \<open>Properties\<close>

text \<open>
  C16: Whatever the car and the bus do, every state the plugin publishes, from its creation on, is one
  the daemon can put on the wire, and a consumer sees a signal as valid exactly when the plugin said
  so (and the source is live), holding the value the plugin published.
\<close>

theorem ice_signals_reach_consumer:
  assumes "ice_create args = Some (said, Some x)" "ice_start opened failure x = (0, y, logs)" "\<forall>e \<in> set es. iter_ok e"
    and "ice_run es (y, 0) = Done (xn, calls)" "s \<in> set (published_states calls)"
  shows "\<exists>f g. framesFrom s on ps cnt ma mi = Some f \<and> through_wire f = Some g \<and>
    (\<forall>sig. sig \<noteq> CANPROXY_SIG_COUNT \<longrightarrow>
       (wire_valid g sig \<longleftrightarrow> on \<and> valid_sig s sig) \<and> (wire_valid g sig \<longrightarrow> carries s g sig))"
proof -
  have "ice_ok y" using ice_started_ok [OF ice_created_ok [OF assms(1)], of opened failure] assms(2) by simp
  then obtain now z where "ice_ok z" "s = ice_state now z"
    using ice_run_ok [OF _ assms(3), of y 0 "fst xn" "snd xn" calls] assms(4,5) by auto
  then show ?thesis using ice.reaches_consumer [of "(now, z)"] by simp
qed

definition sample_iter :: iter_env where
  "sample_iter = \<lparr> it_now = 10, it_discovery = [sample_env []\<lparr> e_written := False \<rparr>], it_query = sample_env [],
     it_answered = 10, it_idle = \<lparr> rd_now = 0, rd_arrived = None, rd_tv = (0, 0), rd_seen = 0 \<rparr>, it_check = 10,
     it_publish = 10, it_after = 10 \<rparr>"

lemma sample_created:
  "ice_create \<lparr> vehicle_if = Some ''can0'', plugin_args = [] \<rparr> = Some ([], Some (Ice_new\<lparr> x_vehicleIf := ''can0'', x_telltaleId := - 1 \<rparr>))"
  by (simp add: ice_create_def canproxy_arg_def Let_def Ice_new_def)

lemma sample_iteration:
  "\<not> x_discovered x \<Longrightarrow> \<exists>y s. ice_iter sample_iter (x, n) = Done ((y, n), [SetLink 0, Publish s])"
proof -
  assume x: "\<not> x_discovered x"
  have "\<exists>c. discover 300 [sample_env []\<lparr> e_written := False \<rparr>] (x_client x) = (Done False, c, [])"
    by (simp add: discover_def request_closed sample_env_def eval_nat_numeral)
  then show ?thesis using x by (auto simp: ice_iter_def ice_discover_def sample_iter_def Let_def)
qed

lemma sample_start: "\<exists>y logs. ice_start Opens None (Ice_new\<lparr> x_vehicleIf := ''can0'', x_telltaleId := - 1 \<rparr>) = (0, y, logs) \<and> \<not> x_discovered y"
  by (simp add: ice_start_def Let_def Ice_new_def client_open_def channel_open_def split: prod.splits)

theorem ice_signals_reach_consumer_witness:
  "\<exists>y z s f. ice_run [sample_iter] (y, 0) = Done ((z, 0), [SetLink 0, Publish s]) \<and>
     framesFrom s True CANPROXY_STATE_OK 0 1 0 = Some f"
proof -
  obtain y logs where y: "ice_start Opens None (Ice_new\<lparr> x_vehicleIf := ''can0'', x_telltaleId := - 1 \<rparr>) = (0, y, logs)" "\<not> x_discovered y"
    using sample_start by blast
  obtain z s where z: "ice_iter sample_iter (y, 0) = Done ((z, 0), [SetLink 0, Publish s])"
    using sample_iteration [OF y(2)] by blast
  have r: "ice_run [sample_iter] (y, 0) = Done ((z, 0), [SetLink 0, Publish s])" by (simp add: z)
  then have "\<exists>f. framesFrom s True CANPROXY_STATE_OK 0 1 0 = Some f"
    using ice_signals_reach_consumer [OF sample_created y(1), of "[sample_iter]" "(z, 0)" "[SetLink 0, Publish s]" s True
        CANPROXY_STATE_OK 0 1 0]
    by (auto simp: iter_ok_def sample_iter_def)
  then show ?thesis using r by blast
qed



text \<open>
  A car that offers none of the polled PIDs is never given up: once discovered, no iteration asks
  anything, so no silence can be counted.
\<close>

lemma nothing_polled_never_gone:
  assumes "x_discovered x" "m_items (x_poller x) = []" "ice_iter e (x, n) = Done ((x', n'), calls)"
  shows "x_discovered x' \<and> m_items (x_poller x') = [] \<and> SetLink 0 \<notin> set calls"
proof -
  have "nextDue (x_poller x) (it_now e) = None" using assms(2) by (simp add: nextDue_None)
  then show ?thesis
    using assms by (auto simp: ice_iter_def ice_poll_def Let_def telltales_fields split: prod.splits if_splits)
qed

end
