(* ===== verification/Obd_Uds.thy ===== *)
theory Obd_Uds
  imports Proxy_Prelude
begin

text \<open>
  ISO-TP round trips and UDS ReadDataByIdentifier, \<^verbatim>\<open>libobd/src/IsoTp.cpp\<close>, \<^verbatim>\<open>libobd/src/Uds.cpp\<close>
  and \<^verbatim>\<open>libobd/include/obd/Uds.h\<close>. The kernel does the transport; what each system call answers is
  an argument. The buffer of a read is 4096 bytes, so a PDU is cut there.
\<close>

section \<open>The ISO-TP channel\<close>

record IsoTpChannel =
  tp_open :: bool
  tp_closed :: nat

datatype tp_open_step = TpSocketFails string bool | TpIndexFails string | TpBindFails string | TpOpens

definition IsoTp_close :: "IsoTpChannel \<Rightarrow> IsoTpChannel" where
  "IsoTp_close ch = (if tp_open ch then ch\<lparr> tp_open := False, tp_closed := tp_closed ch + 1 \<rparr> else ch)"

text \<open>The destructor.\<close>

definition IsoTp_destroy :: "IsoTpChannel \<Rightarrow> IsoTpChannel" where
  "IsoTp_destroy ch = IsoTp_close ch"

text \<open>The flag of \<open>TpSocketFails\<close>: the error was \<open>EPROTONOSUPPORT\<close>.\<close>

definition IsoTp_open :: "string \<Rightarrow> tp_open_step \<Rightarrow> IsoTpChannel \<Rightarrow> string \<times> IsoTpChannel" where
  "IsoTp_open interface result ch = (
     let ch = IsoTp_close ch
     in case result of
          TpSocketFails why unsupported \<Rightarrow>
            (''socket(CAN_ISOTP): '' @ why @
               (if unsupported then '' (is the can-isotp kernel module loaded?)'' else []), ch)
        | TpIndexFails why \<Rightarrow> (''interface '' @ interface @ '': '' @ why, ch\<lparr> tp_closed := tp_closed ch + 1 \<rparr>)
        | TpBindFails why \<Rightarrow> (''bind isotp '' @ interface @ '': '' @ why, ch\<lparr> tp_closed := tp_closed ch + 1 \<rparr>)
        | TpOpens \<Rightarrow> ([], ch\<lparr> tp_open := True \<rparr>))"

definition kernelSupportAvailable :: "bool \<Rightarrow> bool" where
  "kernelSupportAvailable socket_opens = socket_opens"

text \<open>
  One round trip. \<open>pending\<close> is what waits unread before the request: a PDU, or \<open>None\<close> for a read
  that fails; \<open>answer\<close> is what arrives within the timeout, if anything does.
\<close>

record tp_env =
  tp_pending :: "bytes option list"
  tp_written :: bool
  tp_answer :: "bytes option"

definition tp_buffer :: nat where [contract_consts]: "tp_buffer = 4096"

text \<open>The drain loop ends when nothing is pending or a read returns nothing; it gives what stays unread.\<close>

fun tp_drain :: "bytes option list \<Rightarrow> bytes option list" where
  "tp_drain [] = []"
| "tp_drain (None # pending) = pending"
| "tp_drain (Some pdu # pending) = (if pdu = [] then pending else tp_drain pending)"

definition IsoTp_transact :: "IsoTpChannel \<Rightarrow> bytes \<Rightarrow> tp_env \<Rightarrow> bytes option" where
  "IsoTp_transact ch request env =
     (if \<not> tp_open ch \<or> request = [] then None
      else if \<not> tp_written env then None
      else (case tp_drain (tp_pending env) @ [tp_answer env] of
              Some pdu # _ \<Rightarrow> if pdu = [] then None else Some (take tp_buffer pdu)
            | _ \<Rightarrow> None))"

section \<open>ReadDataByIdentifier\<close>

definition kUdsReadDataByIdentifier :: u8 where [contract_consts]: "kUdsReadDataByIdentifier = 0x22"
definition kUdsNegativeResponse :: u8 where [contract_consts]: "kUdsNegativeResponse = 0x7F"

record UdsReply =
  u_positive :: bool
  u_nrc :: u8
  u_data :: bytes

definition buildReadDid :: "u16 \<Rightarrow> bytes" where
  "buildReadDid did = [kUdsReadDataByIdentifier, ucast (drop_bit 8 did), ucast (did AND 0xFF)]"

definition parseReadDidReply :: "bytes \<Rightarrow> u16 \<Rightarrow> UdsReply option" where
  "parseReadDidReply pdu did =
     (if length pdu \<ge> 3 \<and> pdu ! 0 = kUdsNegativeResponse \<and> pdu ! 1 = kUdsReadDataByIdentifier then
        Some \<lparr> u_positive = False, u_nrc = pdu ! 2, u_data = [] \<rparr>
      else if length pdu \<ge> 3 \<and> pdu ! 0 = kUdsReadDataByIdentifier + 0x40 \<and>
          (ucast (pdu ! 1) :: u16) = drop_bit 8 did \<and> ucast (pdu ! 2) = did AND 0xFF then
        Some \<lparr> u_positive = True, u_nrc = 0, u_data = drop 3 pdu \<rparr>
      else None)"

definition readDid :: "IsoTpChannel \<Rightarrow> u16 \<Rightarrow> tp_env \<Rightarrow> UdsReply option" where
  "readDid ch did env =
     (case IsoTp_transact ch (buildReadDid did) env of
        None \<Rightarrow> None
      | Some resp \<Rightarrow> parseReadDidReply resp did)"

text \<open>Big-endian fields at an offset of the record data.\<close>

definition be16 :: "bytes \<Rightarrow> nat \<Rightarrow> u16" where
  "be16 p i = push_bit 8 (ucast (p ! i)) OR ucast (p ! (i + 1))"

definition be16s :: "bytes \<Rightarrow> nat \<Rightarrow> int" where
  "be16s p i = sint (be16 p i)"

definition be32 :: "bytes \<Rightarrow> nat \<Rightarrow> u32" where
  "be32 p i = push_bit 24 (ucast (p ! i)) OR push_bit 16 (ucast (p ! (i + 1))) OR
     push_bit 8 (ucast (p ! (i + 2))) OR ucast (p ! (i + 3))"

section \<open>Facts\<close>

lemma did_halves:
  "(ucast a :: u16) = drop_bit 8 did \<longleftrightarrow> (a :: u8) = ucast (drop_bit 8 did)"
  "(ucast b :: u16) = did AND 0xFF \<longleftrightarrow> (b :: u8) = ucast (did AND 0xFF)"
proof -
  have hi: "ucast (ucast (drop_bit 8 did) :: u8) = drop_bit 8 (did :: u16)"
    by (rule bit_eqI) (auto simp: bit_simps dest: bit_imp_le_length)
  have lo: "ucast (ucast (did AND 0xFF) :: u8) = did AND (0xFF :: u16)"
    by (rule bit_eqI) (auto simp: bit_simps)
  have again: "ucast (ucast x :: u16) = x" for x :: u8
    by (rule bit_eqI) (auto simp: bit_simps dest: bit_imp_le_length)
  show "(ucast a :: u16) = drop_bit 8 did \<longleftrightarrow> a = ucast (drop_bit 8 did)"
    using hi again [of a] by metis
  show "(ucast b :: u16) = did AND 0xFF \<longleftrightarrow> b = ucast (did AND 0xFF)"
    using lo again [of b] by metis
qed

lemma three_bytes: "length pdu \<ge> 3 \<longleftrightarrow> (\<exists>a b c d. pdu = a # b # c # d)"
  by (cases pdu; cases "tl pdu"; cases "tl (tl pdu)") auto

text \<open>Pending data that is never empty and read without error is drained completely.\<close>

lemma drain_all: "\<forall>p \<in> set pending. p \<noteq> None \<and> p \<noteq> Some [] \<Longrightarrow> tp_drain pending = []"
  by (induction pending rule: tp_drain.induct) auto

section \<open>Properties\<close>

text \<open>
  A reply is read as a positive record exactly when it echoes the request for that very DID with
  0x40 added to the service, and as a refusal exactly when it is a negative response to this service;
  anything else, including the answer to another DID, is no reply.
\<close>

lemma read_did_reply_iff:
  "(parseReadDidReply pdu did = Some \<lparr> u_positive = True, u_nrc = 0, u_data = d \<rparr> \<longleftrightarrow>
      pdu = [0x62, ucast (drop_bit 8 did), ucast (did AND 0xFF)] @ d) \<and>
   (parseReadDidReply pdu did = Some \<lparr> u_positive = False, u_nrc = c, u_data = [] \<rparr> \<longleftrightarrow>
      (\<exists>rest. pdu = [0x7F, 0x22, c] @ rest)) \<and>
   (parseReadDidReply pdu did = None \<longleftrightarrow>
      (\<nexists>d. pdu = [0x62, ucast (drop_bit 8 did), ucast (did AND 0xFF)] @ d) \<and> (\<nexists>c rest. pdu = [0x7F, 0x22, c] @ rest))"
proof (cases "length pdu \<ge> 3")
  case True
  then obtain x y z e where "pdu = x # y # z # e" by (auto simp: three_bytes)
  then show ?thesis
    by (auto simp: parseReadDidReply_def did_halves kUdsReadDataByIdentifier_def kUdsNegativeResponse_def)
next
  case False
  then have "pdu \<noteq> a # b # c # e" for a b c e by auto
  then show ?thesis using False by (auto simp: parseReadDidReply_def)
qed

text \<open>
  An answer that came too late for an earlier request is never taken for the answer to this one:
  what was pending is drained before the request is sent, so the reply read is the one that arrives
  after it.
\<close>

lemma late_answers_drained:
  assumes "tp_open ch" "tp_written env" "\<forall>p \<in> set (tp_pending env). p \<noteq> None \<and> p \<noteq> Some []"
  shows "readDid ch did env =
    (case tp_answer env of
       None \<Rightarrow> None
     | Some pdu \<Rightarrow> if pdu = [] then None else parseReadDidReply (take tp_buffer pdu) did)"
  using assms drain_all [OF assms(3)]
  by (simp add: readDid_def IsoTp_transact_def buildReadDid_def split: option.splits)

lemma late_answers_drained_witness:
  "readDid \<lparr> tp_open = True, tp_closed = 0 \<rparr> 0x0101
     \<lparr> tp_pending = [Some [0x62, 0x01, 0x02, 9]], tp_written = True, tp_answer = Some [0x62, 0x01, 0x01, 7] \<rparr> =
   Some \<lparr> u_positive = True, u_nrc = 0, u_data = [7] \<rparr>"
  by (subst late_answers_drained)
    (simp_all add: tp_buffer_def parseReadDidReply_def kUdsReadDataByIdentifier_def kUdsNegativeResponse_def)

end
