(* ===== verification/Emu_Records.thy ===== *)
theory Emu_Records
  imports Obd_J1979 Obd_Uds
begin

text \<open>
  The records of the emulator's battery ECU, \<^verbatim>\<open>plugins/emu-ev/EmuProfile.h\<close>. A decoder fills the
  structure it is given and says whether the record is acceptable; a record that is long enough but
  out of range is refused after the structure has been overwritten.
\<close>

section \<open>Identifiers and structures\<close>

definition kBmsRequestId :: u32 where [contract_consts]: "kBmsRequestId = 0x7E4"
definition kBmsResponseId :: u32 where [contract_consts]: "kBmsResponseId = 0x7EC"
definition kDidPack :: u16 where [contract_consts]: "kDidPack = 0x0101"
definition kDidRange :: u16 where [contract_consts]: "kDidRange = 0x0102"
definition kDidDrive :: u16 where [contract_consts]: "kDidDrive = 0x0103"
definition kDidAssist :: u16 where [contract_consts]: "kDidAssist = 0x0104"

record Pack =
  pk_voltageV :: f64
  pk_currentA :: f64
  pk_socPct :: f64
  pk_sohPct :: f64
  pk_charging :: int

record Range =
  rg_rangeKm :: int
  rg_consumptionWhKm :: int
  rg_odometerKm :: f64

record Drive =
  dr_gear :: int
  dr_powerState :: int
  dr_motorRpm :: int
  dr_motorPowerKw :: f64

record Assist =
  as_ecoScore :: int
  as_speedLimitKmh :: int
  as_collisionRisk :: int
  as_laneState :: u32
  as_leadGapM :: f64

section \<open>Decoders\<close>

definition decodePack :: "bytes \<Rightarrow> Pack \<Rightarrow> bool \<times> Pack" where
  "decodePack d out =
     (if length d < 7 then (False, out)
      else (
        let out = out\<lparr> pk_voltageV := of_long (uint (be16 d 0)) / dlit 10, pk_currentA := of_long (be16s d 2) / dlit 10,
              pk_socPct := double8 (d ! 4) / dlit 2, pk_sohPct := double8 (d ! 5) / dlit 2, pk_charging := uint (d ! 6) \<rparr>
        in (pk_charging out \<le> 3, out)))"

definition decodeRange :: "bytes \<Rightarrow> Range \<Rightarrow> bool \<times> Range" where
  "decodeRange d out =
     (if length d < 8 then (False, out)
      else (True, out\<lparr> rg_rangeKm := uint (be16 d 0), rg_consumptionWhKm := be16s d 2,
              rg_odometerKm := of_long (uint (be32 d 4)) / dlit 10 \<rparr>))"

definition decodeDrive :: "bytes \<Rightarrow> Drive \<Rightarrow> bool \<times> Drive" where
  "decodeDrive d out =
     (if length d < 6 then (False, out)
      else (
        let out = out\<lparr> dr_gear := uint (d ! 0), dr_powerState := uint (d ! 1), dr_motorRpm := uint (be16 d 2),
              dr_motorPowerKw := of_long (be16s d 4) / dlit 10 \<rparr>
        in (dr_gear out \<le> 4 \<and> dr_powerState out \<le> 3, out)))"

definition decodeAssist :: "bytes \<Rightarrow> Assist \<Rightarrow> bool \<times> Assist" where
  "decodeAssist d out =
     (if length d < 6 then (False, out)
      else (
        let out = out\<lparr> as_ecoScore := uint (d ! 0), as_speedLimitKmh := uint (d ! 1), as_collisionRisk := uint (d ! 2),
              as_laneState := ucast (d ! 3) AND 0x0F, as_leadGapM := of_long (uint (be16 d 4)) / dlit 10 \<rparr>
        in (as_ecoScore out \<le> 100 \<and> as_collisionRisk out \<le> 3, out)))"

section \<open>Facts\<close>

text \<open>A division of an exact number stays within whole bounds.\<close>

lemma scaled_f64:
  assumes "\<bar>i\<bar> \<le> 2 ^ 40" "1 \<le> d" "d \<le> 10"
  shows "of_long i / dlit (of_int d) = FNum (rd64 (of_int i / of_int d))"
proof -
  have i: "of_long i = FNum (of_int i)" using assms(1) by (intro of_long_FNum) simp
  have d: "dlit (of_int d) = FNum (of_int d)" using assms(2,3) by (intro int_to_f64) simp
  have "\<bar>rat_of_int i\<bar> \<le> of_int (2 ^ 40)" using assms(1) by (simp only: of_int_le_iff flip: of_int_abs)
  moreover have d1: "1 \<le> rat_of_int d" using assms(2) by simp
  then have "\<bar>rat_of_int i / of_int d\<bar> \<le> \<bar>rat_of_int i\<bar>"
    by (simp add: abs_divide divide_le_eq mult_le_cancel_left1)
  ultimately have "\<bar>rat_of_int i / of_int d\<bar> \<le> 2 ^ 60" by simp
  then show ?thesis using d1 by (simp add: i d f64_ops small_to_f64)
qed

lemma scaled_within:
  assumes "\<bar>i\<bar> \<le> 2 ^ 40" "1 \<le> d" "d \<le> 10"
  shows "\<bar>rd64 (rat_of_int i / of_int d)\<bar> \<le> 2 ^ 40"
proof -
  have "\<bar>rat_of_int i\<bar> \<le> of_int (2 ^ 40)" using assms(1) by (simp only: of_int_le_iff flip: of_int_abs)
  moreover have "\<bar>rat_of_int i / of_int d\<bar> \<le> \<bar>rat_of_int i\<bar>"
    using assms(2) by (simp add: abs_divide divide_le_eq mult_le_cancel_left1)
  ultimately have "\<bar>rat_of_int i / of_int d\<bar> \<le> of_int (2 ^ 40)" by (rule order_trans [rotated])
  then have "of_int (- (2 ^ 40)) \<le> rat_of_int i / of_int d" "rat_of_int i / of_int d \<le> of_int (2 ^ 40)"
    by (simp_all only: abs_le_iff of_int_minus minus_le_iff)
  then show ?thesis
    using rd64_between [of "- (2 ^ 40)" "rat_of_int i / of_int d" "2 ^ 40"] by (simp add: abs_le_iff)
qed

lemma u16_small: "\<bar>uint (w :: u16)\<bar> \<le> 2 ^ 40" "\<bar>sint (w :: u16)\<bar> \<le> 2 ^ 40"
proof -
  show "\<bar>uint w\<bar> \<le> 2 ^ 40" using uint_lt2p [of w] by simp
  have "- (2 ^ 15) \<le> sint w" "sint w < 2 ^ 15" using sint_ge [of w] sint_lt [of w] by simp_all
  then show "\<bar>sint w\<bar> \<le> 2 ^ 40" by simp
qed

lemma u16_bound: "uint (w :: u16) \<le> 1099511627776"
  using u16_small(1) [of w] by simp

lemma u32_small: "\<bar>uint (w :: u32)\<bar> \<le> 2 ^ 40"
  using uint_lt2p [of w] by simp

lemma u8_small: "\<bar>uint (w :: u8)\<bar> \<le> 2 ^ 40"
  using uint_lt2p [of w] by simp

lemma tenths:
  "of_long (uint (w :: u16)) / dlit 10 = FNum (rd64 (of_int (uint w) / 10))"
  "of_long (sint (w :: u16)) / dlit 10 = FNum (rd64 (of_int (sint w) / 10))"
  "of_long (uint (v :: u32)) / dlit 10 = FNum (rd64 (of_int (uint v) / 10))"
  using scaled_f64 [OF u16_small(1) [of w], of 10] scaled_f64 [OF u16_small(2) [of w], of 10] scaled_f64 [OF u32_small [of v], of 10]
  by simp_all

lemma halves: "double8 w / dlit 2 = FNum (rd64 (of_int (uint w) / 2))"
  using scaled_f64 [OF u8_small [of w], of 2] by simp

section \<open>The records of the profile\<close>

text \<open>The layouts of \<^verbatim>\<open>docs/emulator-ev-profile.md\<close>; signed fields are given by their bits.\<close>

definition split16 :: "u16 \<Rightarrow> bytes" where
  "split16 w = [ucast (drop_bit 8 w), ucast w]"

definition split32 :: "u32 \<Rightarrow> bytes" where
  "split32 w = [ucast (drop_bit 24 w), ucast (drop_bit 16 w), ucast (drop_bit 8 w), ucast w]"

definition pack_record :: "u16 \<Rightarrow> u16 \<Rightarrow> u8 \<Rightarrow> u8 \<Rightarrow> u8 \<Rightarrow> bytes" where
  "pack_record volt amp soc soh chg = split16 volt @ split16 amp @ [soc, soh, chg, 0]"

definition range_record :: "u16 \<Rightarrow> u16 \<Rightarrow> u32 \<Rightarrow> bytes" where
  "range_record km wh odo = split16 km @ split16 wh @ split32 odo"

definition drive_record :: "u8 \<Rightarrow> u8 \<Rightarrow> u16 \<Rightarrow> u16 \<Rightarrow> bytes" where
  "drive_record gr pw revs kw = [gr, pw] @ split16 revs @ split16 kw @ [0, 0]"

definition assist_record :: "u8 \<Rightarrow> u8 \<Rightarrow> u8 \<Rightarrow> u8 \<Rightarrow> u16 \<Rightarrow> bytes" where
  "assist_record eco limit risk lane gap = [eco, limit, risk, lane] @ split16 gap @ [0, 0]"

lemma joined16: "push_bit 8 (ucast (ucast (drop_bit 8 w) :: u8)) OR ucast (ucast w :: u8) = (w :: u16)"
  by (rule bit_word_eqI) (auto simp: bit_simps)

lemma joined32:
  "push_bit 24 (ucast (ucast (drop_bit 24 w) :: u8)) OR push_bit 16 (ucast (ucast (drop_bit 16 w) :: u8)) OR
   push_bit 8 (ucast (ucast (drop_bit 8 w) :: u8)) OR ucast (ucast w :: u8) = (w :: u32)"
proof (rule bit_word_eqI)
  fix n
  assume "n < LENGTH(32)"
  then consider "n < 8" | "8 \<le> n \<and> n < 16" | "16 \<le> n \<and> n < 24" | "24 \<le> n \<and> n < 32" by fastforce
  then show "bit (push_bit 24 (ucast (ucast (drop_bit 24 w) :: u8)) OR push_bit 16 (ucast (ucast (drop_bit 16 w) :: u8)) OR
      push_bit 8 (ucast (ucast (drop_bit 8 w) :: u8)) OR ucast (ucast w :: u8) :: u32) n = bit w n"
    by cases (auto simp: bit_simps)
qed

lemmas record_fields = split16_def split32_def be16_def be16s_def be32_def joined16 joined32 tenths halves

lemma pack_record_read:
  "decodePack (pack_record volt amp soc soh chg) p =
     (uint chg \<le> 3, \<lparr> pk_voltageV = FNum (rd64 (of_int (uint volt) / 10)), pk_currentA = FNum (rd64 (of_int (sint amp) / 10)),
        pk_socPct = FNum (rd64 (of_int (uint soc) / 2)), pk_sohPct = FNum (rd64 (of_int (uint soh) / 2)),
        pk_charging = uint chg \<rparr>)"
  by (simp add: decodePack_def pack_record_def record_fields)

text \<open>
  C39: A record laid out as the profile says is read back: its fields have the physical values the
  profile gives them, correctly rounded, and it is accepted exactly when its enumerated fields and the
  eco score are in range.
\<close>

theorem profile_records_read:
  "decodePack (pack_record volt amp soc soh chg) p =
     (uint chg \<le> 3, \<lparr> pk_voltageV = FNum (rd64 (of_int (uint volt) / 10)), pk_currentA = FNum (rd64 (of_int (sint amp) / 10)),
        pk_socPct = FNum (rd64 (of_int (uint soc) / 2)), pk_sohPct = FNum (rd64 (of_int (uint soh) / 2)),
        pk_charging = uint chg \<rparr>) \<and>
   decodeRange (range_record km wh odo) r =
     (True, \<lparr> rg_rangeKm = uint km, rg_consumptionWhKm = sint wh, rg_odometerKm = FNum (rd64 (of_int (uint odo) / 10)) \<rparr>) \<and>
   decodeDrive (drive_record gr pw revs kw) d =
     (uint gr \<le> 4 \<and> uint pw \<le> 3, \<lparr> dr_gear = uint gr, dr_powerState = uint pw, dr_motorRpm = uint revs,
        dr_motorPowerKw = FNum (rd64 (of_int (sint kw) / 10)) \<rparr>) \<and>
   decodeAssist (assist_record eco limit risk lane gap) a =
     (uint eco \<le> 100 \<and> uint risk \<le> 3, \<lparr> as_ecoScore = uint eco, as_speedLimitKmh = uint limit,
        as_collisionRisk = uint risk, as_laneState = ucast lane AND 0x0F,
        as_leadGapM = FNum (rd64 (of_int (uint gap) / 10)) \<rparr>)"
  by (simp add: pack_record_read decodeRange_def range_record_def decodeDrive_def drive_record_def decodeAssist_def
    assist_record_def record_fields)

text \<open>Whatever the record, the numbers a decoder leaves behind are ones the encoders can take.\<close>

definition small_number :: "f64 \<Rightarrow> bool" where
  "small_number v \<longleftrightarrow> (\<exists>q. v = FNum q \<and> \<bar>q\<bar> \<le> 2 ^ 40)"

lemma small_fields:
  "small_number (of_long (uint (w :: u16)) / dlit 10)" "small_number (of_long (sint (w :: u16)) / dlit 10)"
  "small_number (of_long (uint (v :: u32)) / dlit 10)" "small_number (double8 b / dlit 2)" "small_number (FNum 0)"
  using scaled_within [OF u16_small(1) [of w], of 10] scaled_within [OF u16_small(2) [of w], of 10]
    scaled_within [OF u32_small [of v], of 10] scaled_within [OF u8_small [of b], of 2]
  by (simp_all only: small_number_def tenths halves) auto

lemma small_of_long: "\<bar>i\<bar> \<le> 2 ^ 40 \<Longrightarrow> small_number (of_long i)"
proof -
  assume i: "\<bar>i\<bar> \<le> 2 ^ 40"
  then have "of_long i = FNum (of_int i)" by (intro of_long_FNum) simp
  moreover have "\<bar>rat_of_int i\<bar> \<le> of_int (2 ^ 40)" using i by (simp only: of_int_le_iff flip: of_int_abs)
  ultimately show ?thesis by (simp add: small_number_def)
qed

definition pack_small :: "Pack \<Rightarrow> bool" where
  "pack_small p \<longleftrightarrow> small_number (pk_voltageV p) \<and> small_number (pk_currentA p) \<and> small_number (pk_socPct p) \<and>
     small_number (pk_sohPct p) \<and> 0 \<le> pk_charging p"

definition range_small :: "Range \<Rightarrow> bool" where
  "range_small r \<longleftrightarrow> \<bar>rg_rangeKm r\<bar> \<le> 2 ^ 40 \<and> \<bar>rg_consumptionWhKm r\<bar> \<le> 2 ^ 40"

definition drive_small :: "Drive \<Rightarrow> bool" where
  "drive_small d \<longleftrightarrow> small_number (dr_motorPowerKw d) \<and> \<bar>dr_motorRpm d\<bar> \<le> 2 ^ 40 \<and> 0 \<le> dr_gear d \<and> 0 \<le> dr_powerState d"

definition assist_small :: "Assist \<Rightarrow> bool" where
  "assist_small a \<longleftrightarrow> small_number (as_leadGapM a)"

lemma decoded_small:
  "pack_small p \<Longrightarrow> pack_small (snd (decodePack d p))" "range_small r \<Longrightarrow> range_small (snd (decodeRange d r))"
  "drive_small v \<Longrightarrow> drive_small (snd (decodeDrive d v))" "assist_small a \<Longrightarrow> assist_small (snd (decodeAssist d a))"
  by (simp_all add: decodePack_def pack_small_def decodeRange_def range_small_def decodeDrive_def drive_small_def
    decodeAssist_def assist_small_def Let_def be16s_def small_fields u16_small [simplified] u16_bound)

end
