(* ===== verification/Emu_Ev.thy ===== *)
theory Emu_Ev
  imports Obd_Plugin Emu_Records
begin

text \<open>
  The emu-ev and emu-hybrid plugins, \<^verbatim>\<open>plugins/emu-ev/EmuPlugin.cpp\<close>: J1979 for what the OBD port
  offers, UDS records of the battery ECU for everything electric. One iteration of the thread takes
  the clock, what the bus does and what the battery ECU answers.
\<close>

section \<open>State\<close>

definition kKeyPack :: u8 where [contract_consts]: "kKeyPack = 0xF1"
definition kKeyRange :: u8 where [contract_consts]: "kKeyRange = 0xF2"
definition kKeyDrive :: u8 where [contract_consts]: "kKeyDrive = 0xF3"
definition kKeyAssist :: u8 where [contract_consts]: "kKeyAssist = 0xF4"

record Emu =
  e_hybrid :: bool
  e_vehicleIf :: string
  e_source :: int
  e_fastMs :: int
  e_recordPath :: string
  e_running :: bool
  e_client :: J1979Client
  e_bms :: IsoTpChannel
  e_poller :: Poller
  e_discovered :: bool
  e_bmsPresent :: bool
  e_assistPresent :: bool
  e_supported :: "u8 set"
  e_values :: "u8 \<rightharpoonup> f64"
  e_pack :: Pack
  e_range :: Range
  e_drive :: Drive
  e_assist :: Assist
  e_lamps :: u32
  e_lampsSeenMs :: int

definition Emu_new :: Emu where
  "Emu_new = \<lparr> e_hybrid = False, e_vehicleIf = [], e_source = CP_SOURCE_EMULATOR, e_fastMs = 100, e_recordPath = [],
     e_running = False, e_client = J1979Client_new, e_bms = \<lparr> tp_open = False, tp_closed = 0 \<rparr>, e_poller = Poller_new,
     e_discovered = False, e_bmsPresent = False, e_assistPresent = False, e_supported = {}, e_values = Map.empty,
     e_pack = \<lparr> pk_voltageV = FNum 0, pk_currentA = FNum 0, pk_socPct = FNum 0, pk_sohPct = FNum 0, pk_charging = 0 \<rparr>,
     e_range = \<lparr> rg_rangeKm = 0, rg_consumptionWhKm = 0, rg_odometerKm = FNum 0 \<rparr>,
     e_drive = \<lparr> dr_gear = 0, dr_powerState = 0, dr_motorRpm = 0, dr_motorPowerKw = FNum 0 \<rparr>,
     e_assist = \<lparr> as_ecoScore = 0, as_speedLimitKmh = 0, as_collisionRisk = 0, as_laneState = 0, as_leadGapM = FNum 0 \<rparr>,
     e_lamps = 0, e_lampsSeenMs = - 1 \<rparr>"

section \<open>Operations\<close>

definition emu_onTelltales :: "Frame \<times> int \<Rightarrow> Emu \<Rightarrow> Emu" where
  "emu_onTelltales ft x = (
     let f = fst ft
     in if f_dlc f < 2 then x
        else (
          let bits = ucast (f_data f ! 0) OR push_bit 8 (ucast (f_data f ! 1));
              bits = (if f_dlc f \<ge> 4 then bits OR push_bit 16 (ucast (f_data f ! 2)) OR push_bit 24 (ucast (f_data f ! 3))
                      else bits)
          in x\<lparr> e_lamps := bits, e_lampsSeenMs := snd ft \<rparr>))"

definition emu_want :: "bool \<Rightarrow> (u8 \<times> int) list" where
  "emu_want hybrid = [(PID_SPEED, 1)] @
     (if hybrid then [(PID_RPM, 1), (PID_COOLANT_TEMP, 5), (PID_FUEL_LEVEL, 20)] else []) @
     [(PID_MODULE_VOLTAGE, 20), (PID_AMBIENT_TEMP, 20), (PID_ODOMETER, 20)]"

text \<open>One iteration's surroundings: the battery ECU's answers beside those of the shared environment.\<close>

record emu_env = iter_env +
  em_pack :: tp_env
  em_assist :: tp_env
  em_did :: tp_env

definition did_positive :: "UdsReply option \<Rightarrow> bool" where
  "did_positive r = (case r of None \<Rightarrow> False | Some reply \<Rightarrow> u_positive reply)"

definition emu_probe :: "emu_env \<Rightarrow> Emu \<Rightarrow> Emu" where
  "emu_probe e x = (
     let x = x\<lparr> e_bmsPresent := tp_open (e_bms x) \<and> did_positive (readDid (e_bms x) kDidPack (em_pack e)) \<rparr>
     in if e_bmsPresent x then (
          let x = x\<lparr> e_poller := poller_add kKeyRange (e_fastMs x * 5) (poller_add kKeyPack (e_fastMs x)
                (poller_add kKeyDrive (e_fastMs x) (e_poller x))) \<rparr>;
              x = x\<lparr> e_assistPresent := did_positive (readDid (e_bms x) kDidAssist (em_assist e)) \<rparr>
          in if e_assistPresent x then x\<lparr> e_poller := poller_add kKeyAssist (e_fastMs x * 2) (e_poller x) \<rparr> else x)
        else x\<lparr> e_assistPresent := False \<rparr>)"

definition emu_discover :: "emu_env \<Rightarrow> Emu \<Rightarrow> bool wait \<times> Emu \<times> host_call list" where
  "emu_discover e x =
     (case discover 300 (it_discovery e) (e_client x) of
        (Waiting, c, bs) \<Rightarrow> (Waiting, fold emu_onTelltales bs (x\<lparr> e_client := c \<rparr>), [])
      | (Done ok, c, bs) \<Rightarrow> (
          let x = fold emu_onTelltales bs (x\<lparr> e_client := c \<rparr>)
          in if \<not> ok then (Done False, x, [])
             else (
               let x = x\<lparr> e_supported := c_supported c, e_poller := poller_clear (e_poller x), e_values := Map.empty \<rparr>;
                   add = (\<lambda>(pid, k) p. if pid \<in> e_supported x then poller_add pid (e_fastMs x * k) p else p);
                   x = x\<lparr> e_poller := fold add (emu_want (e_hybrid x)) (e_poller x) \<rparr>;
               x = emu_probe e x
               in (Done True, x, [logf CANPROXY_LOG_INFO
                 (''ECU 0x'' @ hex_text 3 (unat (c_primaryEcu c)) @ '' advertises '' @ int_text (int (card (e_supported x))) @
                  '' PIDs; battery ECU '' @ (if e_bmsPresent x then ''present'' else ''absent'') @
                  '', driver assist '' @ (if e_assistPresent x then ''present'' else ''absent''))]))))"

definition emu_did :: "u8 \<Rightarrow> u16" where
  "emu_did key = (if key = kKeyPack then kDidPack else if key = kKeyRange then kDidRange
     else if key = kKeyAssist then kDidAssist else kDidDrive)"

definition emu_pollDid :: "u8 \<Rightarrow> tp_env \<Rightarrow> Emu \<Rightarrow> bool \<times> Emu" where
  "emu_pollDid key env x =
     (case readDid (e_bms x) (emu_did key) env of
        None \<Rightarrow> (False, x)
      | Some r \<Rightarrow>
          if \<not> u_positive r then (False, x)
          else if key = kKeyPack then (let (ok, p) = decodePack (u_data r) (e_pack x) in (ok, x\<lparr> e_pack := p \<rparr>))
          else if key = kKeyRange then (let (ok, p) = decodeRange (u_data r) (e_range x) in (ok, x\<lparr> e_range := p \<rparr>))
          else if key = kKeyAssist then (let (ok, p) = decodeAssist (u_data r) (e_assist x) in (ok, x\<lparr> e_assist := p \<rparr>))
          else (let (ok, p) = decodeDrive (u_data r) (e_drive x) in (ok, x\<lparr> e_drive := p \<rparr>)))"

section \<open>What is published\<close>

definition emu_capPid :: "int \<Rightarrow> Emu \<Rightarrow> u8 \<Rightarrow> canproxy_signal \<Rightarrow> (f64 \<Rightarrow> canproxy_vehicle_state \<Rightarrow> canproxy_vehicle_state) \<Rightarrow>
    canproxy_vehicle_state \<Rightarrow> canproxy_vehicle_state" where
  "emu_capPid now x pid sig set_field s =
     (if pid \<notin> e_supported x then s
      else (
        let s = s\<lparr> s_capable := s_capable s OR CANPROXY_SIG_BIT sig \<rparr>
        in case e_values x pid of
             None \<Rightarrow> s
           | Some v \<Rightarrow>
               if poller_fresh (e_poller x) pid now then set_field v (s\<lparr> s_valid := s_valid s OR CANPROXY_SIG_BIT sig \<rparr>)
               else s))"

definition emu_caps :: "bool \<Rightarrow> (u8 \<times> canproxy_signal \<times> (f64 \<Rightarrow> canproxy_vehicle_state \<Rightarrow> canproxy_vehicle_state)) list" where
  "emu_caps hybrid =
    [(PID_SPEED, CANPROXY_SIG_SPEED, \<lambda>v s. s\<lparr> s_speed_kmh := v \<rparr>),
     (PID_MODULE_VOLTAGE, CANPROXY_SIG_AUX_BATTERY, \<lambda>v s. s\<lparr> s_aux_battery_v := v \<rparr>),
     (PID_AMBIENT_TEMP, CANPROXY_SIG_AMBIENT_TEMP, \<lambda>v s. s\<lparr> s_ambient_c := v \<rparr>),
     (PID_ODOMETER, CANPROXY_SIG_ODOMETER, \<lambda>v s. s\<lparr> s_odometer_km := v \<rparr>)] @
    (if hybrid then
      [(PID_RPM, CANPROXY_SIG_RPM, \<lambda>v s. s\<lparr> s_rpm := v \<rparr>),
       (PID_COOLANT_TEMP, CANPROXY_SIG_COOLANT_TEMP, \<lambda>v s. s\<lparr> s_coolant_c := v \<rparr>),
       (PID_FUEL_LEVEL, CANPROXY_SIG_FUEL_LEVEL, \<lambda>v s. s\<lparr> s_fuel_pct := v \<rparr>)] else [])"

definition packSigs :: u32 where
  "packSigs = CANPROXY_SIG_BIT CANPROXY_SIG_PACK_VOLTAGE OR CANPROXY_SIG_BIT CANPROXY_SIG_PACK_CURRENT OR
     CANPROXY_SIG_BIT CANPROXY_SIG_SOC OR CANPROXY_SIG_BIT CANPROXY_SIG_SOH OR CANPROXY_SIG_BIT CANPROXY_SIG_CHARGING_STATE"

definition rangeSigs :: u32 where
  "rangeSigs = CANPROXY_SIG_BIT CANPROXY_SIG_RANGE OR CANPROXY_SIG_BIT CANPROXY_SIG_CONSUMPTION"

definition driveSigs :: "bool \<Rightarrow> u32" where
  "driveSigs hybrid = (
     let sigs = CANPROXY_SIG_BIT CANPROXY_SIG_GEAR OR CANPROXY_SIG_BIT CANPROXY_SIG_POWER_STATE OR
           CANPROXY_SIG_BIT CANPROXY_SIG_MOTOR_POWER
     in if \<not> hybrid then sigs OR CANPROXY_SIG_BIT CANPROXY_SIG_RPM else sigs)"

definition assistSigs :: u32 where
  "assistSigs = CANPROXY_SIG_BIT CANPROXY_SIG_ECO_SCORE OR CANPROXY_SIG_BIT CANPROXY_SIG_SPEED_LIMIT OR
     CANPROXY_SIG_BIT CANPROXY_SIG_COLLISION_RISK OR CANPROXY_SIG_BIT CANPROXY_SIG_LANE_STATE OR
     CANPROXY_SIG_BIT CANPROXY_SIG_LEAD_GAP"

definition emu_pack_fields :: "int \<Rightarrow> Emu \<Rightarrow> canproxy_vehicle_state \<Rightarrow> canproxy_vehicle_state" where
  "emu_pack_fields now x s =
     (if poller_fresh (e_poller x) kKeyPack now then
        s\<lparr> s_valid := s_valid s OR packSigs, s_pack_voltage_v := pk_voltageV (e_pack x),
          s_pack_current_a := pk_currentA (e_pack x), s_soc_pct := pk_socPct (e_pack x), s_soh_pct := pk_sohPct (e_pack x),
          s_charging_state := pk_charging (e_pack x) \<rparr>
      else s)"

definition emu_range_fields :: "int \<Rightarrow> Emu \<Rightarrow> canproxy_vehicle_state \<Rightarrow> canproxy_vehicle_state" where
  "emu_range_fields now x s =
     (if poller_fresh (e_poller x) kKeyRange now then
        s\<lparr> s_valid := s_valid s OR rangeSigs, s_range_km := of_long (rg_rangeKm (e_range x)),
          s_consumption_wh_km := of_long (rg_consumptionWhKm (e_range x)) \<rparr>
      else s)"

definition emu_drive_fields :: "int \<Rightarrow> Emu \<Rightarrow> canproxy_vehicle_state \<Rightarrow> canproxy_vehicle_state" where
  "emu_drive_fields now x s =
     (if poller_fresh (e_poller x) kKeyDrive now then (
        let s = s\<lparr> s_valid := s_valid s OR driveSigs (e_hybrid x), s_gear := dr_gear (e_drive x),
              s_power_state := dr_powerState (e_drive x), s_motor_power_kw := dr_motorPowerKw (e_drive x) \<rparr>
        in if \<not> e_hybrid x then s\<lparr> s_rpm := of_long (dr_motorRpm (e_drive x)) \<rparr> else s)
      else s)"

definition emu_battery :: "int \<Rightarrow> Emu \<Rightarrow> canproxy_vehicle_state \<Rightarrow> canproxy_vehicle_state" where
  "emu_battery now x s =
     (if e_bmsPresent x then
        emu_drive_fields now x (emu_range_fields now x (emu_pack_fields now x
          (s\<lparr> s_capable := s_capable s OR (packSigs OR rangeSigs OR driveSigs (e_hybrid x)) \<rparr>)))
      else s)"

definition emu_assist :: "int \<Rightarrow> Emu \<Rightarrow> canproxy_vehicle_state \<Rightarrow> canproxy_vehicle_state" where
  "emu_assist now x s =
     (if e_assistPresent x then (
        let s = s\<lparr> s_capable := s_capable s OR assistSigs \<rparr>
        in if poller_fresh (e_poller x) kKeyAssist now then
             s\<lparr> s_valid := s_valid s OR assistSigs, s_eco_score := as_ecoScore (e_assist x),
               s_speed_limit_kmh := as_speedLimitKmh (e_assist x), s_collision_risk := as_collisionRisk (e_assist x),
               s_lane_state := as_laneState (e_assist x), s_lead_gap_m := as_leadGapM (e_assist x) \<rparr>
           else s)
      else s)"

definition emu_lamps :: "int \<Rightarrow> Emu \<Rightarrow> canproxy_vehicle_state \<Rightarrow> u32" where
  "emu_lamps now x s = (
     let l = (if e_lampsSeenMs x \<ge> 0 \<and> now - e_lampsSeenMs x \<le> 500 then e_lamps x else 0);
         l = (if s_valid s AND CANPROXY_SIG_BIT CANPROXY_SIG_POWER_STATE \<noteq> 0 \<and> \<not> e_hybrid x \<and>
                s_power_state s = CP_POWER_READY then l OR CANPROXY_LAMP_BIT CANPROXY_LAMP_EV_READY else l);
         l = (if s_valid s AND CANPROXY_SIG_BIT CANPROXY_SIG_CHARGING_STATE \<noteq> 0 \<and>
                (s_charging_state s = CP_CHARGING_AC \<or> s_charging_state s = CP_CHARGING_DC)
              then l OR CANPROXY_LAMP_BIT CANPROXY_LAMP_CHARGING else l)
     in if s_valid s AND CANPROXY_SIG_BIT CANPROXY_SIG_SOC \<noteq> 0 \<and> s_soc_pct s < dlit 10
        then l OR CANPROXY_LAMP_BIT CANPROXY_LAMP_LOW_TRACTION_BATTERY else l)"

definition emu_state :: "int \<Rightarrow> Emu \<Rightarrow> canproxy_vehicle_state" where
  "emu_state now x = (
     let s = zero_vehicle_state\<lparr> s_drivetrain := (if e_hybrid x then CP_DRIVETRAIN_HEV else CP_DRIVETRAIN_BEV),
           s_source := e_source x,
           s_vehicle_id := canproxy_vehicle_id (Some (if e_hybrid x then ''emu-hybrid'' else ''emu-ev'')) None \<rparr>;
         s = fold (\<lambda>(pid, sig, set_field). emu_capPid now x pid sig set_field) (emu_caps (e_hybrid x)) s;
         s = emu_assist now x (emu_battery now x s)
     in s\<lparr> s_lamps := emu_lamps now x s \<rparr>)"

section \<open>The thread\<close>

definition emu_query :: "u8 \<Rightarrow> emu_env \<Rightarrow> Emu \<Rightarrow> bool wait \<times> Emu" where
  "emu_query key e x =
     (if key \<ge> 0xF0 then (let (ok, x) = emu_pollDid key (em_did e) x in (Done ok, x))
      else (case query key (e_fastMs x) (it_query e) (e_client x) of
              (Waiting, c, bs) \<Rightarrow> (Waiting, fold emu_onTelltales bs (x\<lparr> e_client := c \<rparr>))
            | (Done None, c, bs) \<Rightarrow> (Done False, fold emu_onTelltales bs (x\<lparr> e_client := c \<rparr>))
            | (Done (Some v), c, bs) \<Rightarrow> (
                let x = fold emu_onTelltales bs (x\<lparr> e_client := c \<rparr>)
                in (Done True, x\<lparr> e_values := (e_values x)(key \<mapsto> v) \<rparr>))))"

definition emu_poll :: "emu_env \<Rightarrow> Emu \<Rightarrow> bool wait \<times> Emu \<times> host_call list" where
  "emu_poll e x =
     (case nextDue (e_poller x) (it_now e) of
        Some key \<Rightarrow> (
          case emu_query key e (x\<lparr> e_poller := markRequested key (it_now e) (e_poller x) \<rparr>) of
            (Waiting, x) \<Rightarrow> (Waiting, x, [])
          | (Done True, x) \<Rightarrow> (Done False, x\<lparr> e_poller := markAnswered key (it_answered e) (e_poller x) \<rparr>, [])
          | (Done False, x) \<Rightarrow>
              if m_unanswered (e_poller x) \<ge> 8 then
                (Done True, x\<lparr> e_discovered := False \<rparr>, [logf CANPROXY_LOG_WARN ''no answers, vehicle gone'', SetLink 0])
              else (Done False, x, []))
      | None \<Rightarrow> (
          let (c, bs) = idle (it_idle e) (e_client x)
          in (Done False, fold emu_onTelltales bs (x\<lparr> e_client := c \<rparr>), [])))"

definition emu_iter :: "emu_env \<Rightarrow> Emu \<times> int \<Rightarrow> ((Emu \<times> int) \<times> host_call list) wait" where
  "emu_iter e xn = (
     let (x, nextPublish) = xn;
         (found, x, calls) = (if e_discovered x then (Done True, x, []) else emu_discover e x)
     in case found of
          Waiting \<Rightarrow> Waiting
        | Done False \<Rightarrow> (
            let x = x\<lparr> e_values := Map.empty \<rparr>
            in Done ((x, nextPublish), calls @ [SetLink 0, Publish (emu_state (it_now e) x)]))
        | Done True \<Rightarrow> (
            let calls = (if e_discovered x then calls else calls @ [SetLink 1]);
                (gone, x, polled) = emu_poll e (x\<lparr> e_discovered := True \<rparr>)
            in case gone of
                 Waiting \<Rightarrow> Waiting
               | Done True \<Rightarrow> Done ((x, nextPublish), calls @ polled)
               | Done False \<Rightarrow>
                   if it_check e \<ge> nextPublish then
                     Done ((x, it_after e + 50), calls @ polled @ [Publish (emu_state (it_publish e) x)])
                   else Done ((x, nextPublish), calls @ polled)))"

fun emu_run :: "emu_env list \<Rightarrow> Emu \<times> int \<Rightarrow> ((Emu \<times> int) \<times> host_call list) wait" where
  "emu_run [] xn = Done (xn, [])"
| "emu_run (e # es) xn =
     (case emu_iter e xn of
        Waiting \<Rightarrow> Waiting
      | Done (xn, calls) \<Rightarrow> (
          case emu_run es xn of Waiting \<Rightarrow> Waiting | Done (xn, calls') \<Rightarrow> Done (xn, calls @ calls')))"

section \<open>Life cycle\<close>

definition emu_create :: "canproxy_plugin_args \<Rightarrow> bool \<Rightarrow> Emu creation" where
  "emu_create args hybrid =
     (case vehicle_if args of
        None \<Rightarrow> refused ((if hybrid then ''emu-hybrid'' else ''emu-ev'') @ '' needs --vehicle-if'')
      | Some vif \<Rightarrow> (
          let p = Emu_new\<lparr> e_hybrid := hybrid, e_vehicleIf := vif \<rparr>;
              sourced = (case canproxy_arg args ''source'' of
                  None \<Rightarrow> Inr p
                | Some v \<Rightarrow> if v = ''emulator'' then Inr (p\<lparr> e_source := CP_SOURCE_EMULATOR \<rparr>)
                    else if v = ''replay'' then Inr (p\<lparr> e_source := CP_SOURCE_REPLAY \<rparr>)
                    else if v = ''live'' then Inr (p\<lparr> e_source := CP_SOURCE_LIVE \<rparr>)
                    else Inl (''unknown source '' @ quoted v))
          in case sourced of
               Inl why \<Rightarrow> refused why
             | Inr p \<Rightarrow> (
                 let timed = (case canproxy_arg args ''fast_ms'' of
                     None \<Rightarrow> Some (Inr p)
                   | Some f \<Rightarrow> (case c_atol f of
                       None \<Rightarrow> None
                     | Some n \<Rightarrow> if n < 20 \<or> n > 5000 then Some (Inl ''fast_ms out of range 20..5000'')
                         else Some (Inr (p\<lparr> e_fastMs := n \<rparr>))))
                 in case timed of
                      None \<Rightarrow> None
                    | Some (Inl why) \<Rightarrow> refused why
                    | Some (Inr p) \<Rightarrow> Some ([], Some (case canproxy_arg args ''record'' of
                          None \<Rightarrow> p | Some r \<Rightarrow> p\<lparr> e_recordPath := r \<rparr>)))))"

text \<open>The result of \<open>start\<close>; a battery ECU channel that does not open is only warned about.\<close>

definition emu_start :: "open_step \<Rightarrow> tp_open_step \<Rightarrow> string option \<Rightarrow> Emu \<Rightarrow> int \<times> Emu \<times> host_call list" where
  "emu_start opened bms_opened failure p =
     (if e_running p then (0, p, [])
      else (
        let p = p\<lparr> e_running := True, e_client := client_setBroadcastSink 0x420 True (e_client p) \<rparr>;
            (e, c) = client_open (e_vehicleIf p) opened (e_client p);
            p = p\<lparr> e_client := c \<rparr>
        in if e \<noteq> [] then (1, p\<lparr> e_running := False \<rparr>, [logf CANPROXY_LOG_ERROR e])
           else (
             let (e, bms) = IsoTp_open (e_vehicleIf p) bms_opened (e_bms p);
                 p = p\<lparr> e_bms := bms \<rparr>;
                 warned = (if e \<noteq> [] then [logf CANPROXY_LOG_WARN (''battery ECU channel unavailable: '' @ e)] else [])
             in if e_recordPath p = [] then (0, p, warned)
                else (
                  let (e, ch) = channel_startRecording (e_recordPath p) failure (c_ch (e_client p));
                      p = p\<lparr> e_client := (e_client p)\<lparr> c_ch := ch \<rparr> \<rparr>
                  in if e \<noteq> [] then (1, p\<lparr> e_running := False \<rparr>, warned @ [logf CANPROXY_LOG_ERROR e])
                     else (0, p, warned @ [logf CANPROXY_LOG_INFO (''recording raw vehicle side to '' @ e_recordPath p @
                       '' (ISO-TP transfers are not captured)'')])))))"

definition emu_stop :: "Emu \<Rightarrow> Emu" where
  "emu_stop p =
     (if \<not> e_running p then p
      else p\<lparr> e_running := False,
        e_client := client_close ((e_client p)\<lparr> c_ch := channel_stopRecording (c_ch (e_client p)) \<rparr>),
        e_bms := IsoTp_close (e_bms p) \<rparr>)"

section \<open>What the plugin knows and publishes\<close>

definition emu_knows :: "int \<Rightarrow> Emu \<Rightarrow> u8 \<Rightarrow> bool" where
  "emu_knows now x pid \<longleftrightarrow> pid \<in> e_supported x \<and> e_values x pid \<noteq> None \<and> poller_fresh (e_poller x) pid now"

definition emu_ok :: "Emu \<Rightarrow> bool" where
  "emu_ok x \<longleftrightarrow> 0 < e_fastMs x \<and>
     polls_within (e_poller x) (fst ` set (emu_want (e_hybrid x)) \<union> {kKeyPack, kKeyRange, kKeyDrive, kKeyAssist}) \<and>
     (\<forall>pid v. e_values x pid = Some v \<longrightarrow> pid_value pid v) \<and>
     pack_small (e_pack x) \<and> range_small (e_range x) \<and> drive_small (e_drive x) \<and> assist_small (e_assist x)"

text \<open>Which PID a signal comes from.\<close>

definition emu_source_pid :: "bool \<Rightarrow> canproxy_signal \<Rightarrow> u8 option" where
  "emu_source_pid hybrid sig = map_of
     ([(CANPROXY_SIG_SPEED, PID_SPEED), (CANPROXY_SIG_AUX_BATTERY, PID_MODULE_VOLTAGE),
       (CANPROXY_SIG_AMBIENT_TEMP, PID_AMBIENT_TEMP), (CANPROXY_SIG_ODOMETER, PID_ODOMETER)] @
      (if hybrid then [(CANPROXY_SIG_RPM, PID_RPM), (CANPROXY_SIG_COOLANT_TEMP, PID_COOLANT_TEMP),
         (CANPROXY_SIG_FUEL_LEVEL, PID_FUEL_LEVEL)] else [])) sig"

definition emu_measured :: "int \<Rightarrow> Emu \<Rightarrow> canproxy_vehicle_state" where
  "emu_measured now x = fold (\<lambda>(pid, sig, set_field). emu_capPid now x pid sig set_field) (emu_caps (e_hybrid x))
     (zero_vehicle_state\<lparr> s_drivetrain := (if e_hybrid x then CP_DRIVETRAIN_HEV else CP_DRIVETRAIN_BEV),
        s_source := e_source x,
        s_vehicle_id := canproxy_vehicle_id (Some (if e_hybrid x then ''emu-hybrid'' else ''emu-ev'')) None \<rparr>)"

lemma emu_state_eq:
  "emu_state now x = (let s = emu_assist now x (emu_battery now x (emu_measured now x)) in s\<lparr> s_lamps := emu_lamps now x s \<rparr>)"
  by (simp add: emu_state_def emu_measured_def Let_def)

lemma emu_cap_bits:
  assumes "number_field f"
  shows "valid_sig (emu_capPid now x pid a f s) sig \<longleftrightarrow> valid_sig s sig \<or> (sig = a \<and> emu_knows now x pid)"
    "capable_sig (emu_capPid now x pid a f s) sig \<longleftrightarrow> capable_sig s sig \<or> (sig = a \<and> pid \<in> e_supported x)"
  using assms
  by (auto simp: emu_capPid_def Let_def valid_sig_def capable_sig_def emu_knows_def number_field_def valid_sig_or bit_sig
      split: option.splits)

lemma emu_cap_honest:
  assumes "honest s" "number_field f" "emu_ok x" "\<And>s. enum_in_range s a"
  shows "honest (emu_capPid now x pid a f s)"
proof -
  have "encodable v" if "e_values x pid = Some v" for v
    using assms(3) that by (intro pid_value_encodable [of pid]) (simp add: emu_ok_def)
  then show ?thesis
    using honest_measured [OF assms(1,2) _ assms(4)] honest_capable [OF assms(1)] assms(1)
    by (auto simp: emu_capPid_def Let_def split: option.splits)
qed

lemma emu_measured_bits:
  "valid_sig (emu_measured now x) sig \<longleftrightarrow> (\<exists>pid. emu_source_pid (e_hybrid x) sig = Some pid \<and> emu_knows now x pid)"
  "capable_sig (emu_measured now x) sig \<longleftrightarrow> (\<exists>pid. emu_source_pid (e_hybrid x) sig = Some pid \<and> pid \<in> e_supported x)"
  unfolding emu_measured_def emu_caps_def
  by (cases "e_hybrid x"; cases sig; simp add: emu_cap_bits number_fields zero_bits emu_source_pid_def)+

lemma emu_measured_honest: "emu_ok x \<Longrightarrow> honest (emu_measured now x)"
  unfolding emu_measured_def emu_caps_def
  by (cases "e_hybrid x") (simp_all add: emu_cap_honest number_fields honest_zero)

text \<open>The signals of each record.\<close>

lemma record_sigs:
  "bit packSigs (sig_index sig) \<longleftrightarrow> sig \<in> {CANPROXY_SIG_PACK_VOLTAGE, CANPROXY_SIG_PACK_CURRENT, CANPROXY_SIG_SOC,
     CANPROXY_SIG_SOH, CANPROXY_SIG_CHARGING_STATE}"
  "bit rangeSigs (sig_index sig) \<longleftrightarrow> sig \<in> {CANPROXY_SIG_RANGE, CANPROXY_SIG_CONSUMPTION}"
  "bit (driveSigs hybrid) (sig_index sig) \<longleftrightarrow> sig \<in> {CANPROXY_SIG_GEAR, CANPROXY_SIG_POWER_STATE, CANPROXY_SIG_MOTOR_POWER} \<or>
     (\<not> hybrid \<and> sig = CANPROXY_SIG_RPM)"
  "bit assistSigs (sig_index sig) \<longleftrightarrow> sig \<in> {CANPROXY_SIG_ECO_SCORE, CANPROXY_SIG_SPEED_LIMIT, CANPROXY_SIG_COLLISION_RISK,
     CANPROXY_SIG_LANE_STATE, CANPROXY_SIG_LEAD_GAP}"
  by (auto simp: packSigs_def rangeSigs_def driveSigs_def assistSigs_def Let_def valid_sig_or bit_sig)

text \<open>Which record a signal of the battery ECU comes from, if it is there at all.\<close>

definition emu_record_key :: "Emu \<Rightarrow> canproxy_signal \<Rightarrow> u8 option" where
  "emu_record_key x sig =
     (if e_bmsPresent x \<and> bit packSigs (sig_index sig) then Some kKeyPack
      else if e_bmsPresent x \<and> bit rangeSigs (sig_index sig) then Some kKeyRange
      else if e_bmsPresent x \<and> bit (driveSigs (e_hybrid x)) (sig_index sig) then Some kKeyDrive
      else if e_assistPresent x \<and> bit assistSigs (sig_index sig) then Some kKeyAssist
      else None)"

lemma valid_update: "valid_sig (s\<lparr> s_valid := s_valid s OR w \<rparr>) sig \<longleftrightarrow> valid_sig s sig \<or> bit w (sig_index sig)"
  by (simp add: valid_sig_def bit_or_iff)

lemma field_bits:
  "valid_sig (emu_pack_fields now x s) sig \<longleftrightarrow> valid_sig s sig \<or> (poller_fresh (e_poller x) kKeyPack now \<and> bit packSigs (sig_index sig))"
  "valid_sig (emu_range_fields now x s) sig \<longleftrightarrow> valid_sig s sig \<or> (poller_fresh (e_poller x) kKeyRange now \<and> bit rangeSigs (sig_index sig))"
  "valid_sig (emu_drive_fields now x s) sig \<longleftrightarrow>
     valid_sig s sig \<or> (poller_fresh (e_poller x) kKeyDrive now \<and> bit (driveSigs (e_hybrid x)) (sig_index sig))"
  "capable_sig (emu_pack_fields now x s) sig = capable_sig s sig" "capable_sig (emu_range_fields now x s) sig = capable_sig s sig"
  "capable_sig (emu_drive_fields now x s) sig = capable_sig s sig"
  by (simp_all add: emu_pack_fields_def emu_range_fields_def emu_drive_fields_def Let_def valid_sig_def capable_sig_def bit_or_iff)

lemma battery_bits:
  "valid_sig (emu_battery now x s) sig \<longleftrightarrow> valid_sig s sig \<or> (e_bmsPresent x \<and>
     (poller_fresh (e_poller x) kKeyPack now \<and> bit packSigs (sig_index sig) \<or>
      poller_fresh (e_poller x) kKeyRange now \<and> bit rangeSigs (sig_index sig) \<or>
      poller_fresh (e_poller x) kKeyDrive now \<and> bit (driveSigs (e_hybrid x)) (sig_index sig)))"
  "capable_sig (emu_battery now x s) sig \<longleftrightarrow> capable_sig s sig \<or> (e_bmsPresent x \<and>
     (bit packSigs (sig_index sig) \<or> bit rangeSigs (sig_index sig) \<or> bit (driveSigs (e_hybrid x)) (sig_index sig)))"
proof -
  have c: "valid_sig (s\<lparr> s_capable := c \<rparr>) sig = valid_sig s sig"
    "capable_sig (s\<lparr> s_capable := s_capable s OR w \<rparr>) sig \<longleftrightarrow> capable_sig s sig \<or> bit w (sig_index sig)" for c w
    by (simp_all add: valid_sig_def capable_sig_def bit_or_iff)
  show "valid_sig (emu_battery now x s) sig \<longleftrightarrow> valid_sig s sig \<or> (e_bmsPresent x \<and>
     (poller_fresh (e_poller x) kKeyPack now \<and> bit packSigs (sig_index sig) \<or>
      poller_fresh (e_poller x) kKeyRange now \<and> bit rangeSigs (sig_index sig) \<or>
      poller_fresh (e_poller x) kKeyDrive now \<and> bit (driveSigs (e_hybrid x)) (sig_index sig)))"
    by (simp only: emu_battery_def field_bits c split: if_split) blast
  show "capable_sig (emu_battery now x s) sig \<longleftrightarrow> capable_sig s sig \<or> (e_bmsPresent x \<and>
     (bit packSigs (sig_index sig) \<or> bit rangeSigs (sig_index sig) \<or> bit (driveSigs (e_hybrid x)) (sig_index sig)))"
    by (simp only: emu_battery_def field_bits c bit_or_iff split: if_split) blast
qed

lemma assist_bits:
  "valid_sig (emu_assist now x s) sig \<longleftrightarrow> valid_sig s sig \<or>
     (e_assistPresent x \<and> poller_fresh (e_poller x) kKeyAssist now \<and> bit assistSigs (sig_index sig))"
  "capable_sig (emu_assist now x s) sig \<longleftrightarrow> capable_sig s sig \<or> (e_assistPresent x \<and> bit assistSigs (sig_index sig))"
  by (simp_all add: emu_assist_def Let_def valid_sig_def capable_sig_def bit_or_iff)

lemma record_bits:
  "valid_sig (emu_assist now x (emu_battery now x s)) sig \<longleftrightarrow>
     valid_sig s sig \<or> (\<exists>key. emu_record_key x sig = Some key \<and> poller_fresh (e_poller x) key now)"
  "capable_sig (emu_assist now x (emu_battery now x s)) sig \<longleftrightarrow> capable_sig s sig \<or> emu_record_key x sig \<noteq> None"
proof -
  have "\<not> (bit packSigs (sig_index sig) \<and> bit rangeSigs (sig_index sig))"
    "\<not> (bit packSigs (sig_index sig) \<and> bit (driveSigs (e_hybrid x)) (sig_index sig))"
    "\<not> (bit rangeSigs (sig_index sig) \<and> bit (driveSigs (e_hybrid x)) (sig_index sig))"
    "\<not> (bit assistSigs (sig_index sig) \<and> (bit packSigs (sig_index sig) \<or> bit rangeSigs (sig_index sig) \<or>
       bit (driveSigs (e_hybrid x)) (sig_index sig)))"
    unfolding record_sigs by blast+
  then show "valid_sig (emu_assist now x (emu_battery now x s)) sig \<longleftrightarrow>
     valid_sig s sig \<or> (\<exists>key. emu_record_key x sig = Some key \<and> poller_fresh (e_poller x) key now)"
    "capable_sig (emu_assist now x (emu_battery now x s)) sig \<longleftrightarrow> capable_sig s sig \<or> emu_record_key x sig \<noteq> None"
    by (simp_all only: assist_bits battery_bits emu_record_key_def split: if_split) auto
qed

text \<open>A signal the plugin may claim to know, and one it knows now.\<close>

definition emu_offers :: "Emu \<Rightarrow> canproxy_signal \<Rightarrow> bool" where
  "emu_offers x sig \<longleftrightarrow> (\<exists>pid. emu_source_pid (e_hybrid x) sig = Some pid \<and> pid \<in> e_supported x) \<or> emu_record_key x sig \<noteq> None"

lemma emu_state_bits:
  "valid_sig (emu_state now x) sig \<longleftrightarrow> (\<exists>pid. emu_source_pid (e_hybrid x) sig = Some pid \<and> emu_knows now x pid) \<or>
     (\<exists>key. emu_record_key x sig = Some key \<and> poller_fresh (e_poller x) key now)"
  "capable_sig (emu_state now x) sig \<longleftrightarrow> emu_offers x sig"
proof -
  have lamps: "valid_sig (s\<lparr> s_lamps := l \<rparr>) sig = valid_sig s sig" "capable_sig (s\<lparr> s_lamps := l \<rparr>) sig = capable_sig s sig" for s l
    by (simp_all add: valid_sig_def capable_sig_def)
  show "valid_sig (emu_state now x) sig \<longleftrightarrow> (\<exists>pid. emu_source_pid (e_hybrid x) sig = Some pid \<and> emu_knows now x pid) \<or>
     (\<exists>key. emu_record_key x sig = Some key \<and> poller_fresh (e_poller x) key now)"
    "capable_sig (emu_state now x) sig \<longleftrightarrow> emu_offers x sig"
    by (simp_all add: emu_state_eq Let_def lamps record_bits emu_measured_bits emu_offers_def)
qed

text \<open>The numbers of the records are ones the encoders can take.\<close>

lemma small_encodable: "small_number v \<Longrightarrow> encodable v"
  unfolding small_number_def using encodable_between [of "- (2 ^ 40)" _ "2 ^ 40"] by (auto simp: abs_le_iff)

lemma pack_fields_encodable: "emu_ok x \<Longrightarrow> all_encodable s \<Longrightarrow> all_encodable (emu_pack_fields now x s)"
  by (simp add: emu_pack_fields_def all_encodable_def canproxy_signals_def emu_ok_def pack_small_def small_encodable)

lemma range_fields_encodable: "emu_ok x \<Longrightarrow> all_encodable s \<Longrightarrow> all_encodable (emu_range_fields now x s)"
  using small_encodable [OF small_of_long [of "rg_rangeKm (e_range x)"]]
    small_encodable [OF small_of_long [of "rg_consumptionWhKm (e_range x)"]]
  by (simp add: emu_range_fields_def all_encodable_def canproxy_signals_def emu_ok_def range_small_def)

lemma drive_fields_encodable: "emu_ok x \<Longrightarrow> all_encodable s \<Longrightarrow> all_encodable (emu_drive_fields now x s)"
  using small_encodable [OF small_of_long [of "dr_motorRpm (e_drive x)"]]
  by (simp add: emu_drive_fields_def Let_def all_encodable_def canproxy_signals_def emu_ok_def drive_small_def small_encodable)

lemma capable_encodable: "all_encodable (s\<lparr> s_capable := c \<rparr>) = all_encodable s" "all_encodable (s\<lparr> s_lamps := l \<rparr>) = all_encodable s"
  by (simp_all add: all_encodable_def canproxy_signals_def)

lemma assist_encodable: "emu_ok x \<Longrightarrow> all_encodable s \<Longrightarrow> all_encodable (emu_assist now x s)"
  by (simp add: emu_assist_def Let_def all_encodable_def canproxy_signals_def emu_ok_def assist_small_def small_encodable)

lemma emu_state_sound:
  assumes "emu_ok x"
  shows "sound_state (emu_state now x)"
proof -
  have "all_encodable (emu_measured now x)" using emu_measured_honest [OF assms] by (simp add: honest_sound sound_state_def)
  then have "all_encodable (emu_assist now x (emu_battery now x (emu_measured now x)))"
    using assms by (simp add: assist_encodable emu_battery_def drive_fields_encodable range_fields_encodable
      pack_fields_encodable capable_encodable)
  then have "all_encodable (emu_state now x)" by (simp add: emu_state_eq Let_def capable_encodable)
  then show ?thesis by (auto simp: sound_state_def emu_state_bits emu_offers_def emu_knows_def)
qed

interpretation emu: sound_plugin "\<lambda>(now, x). emu_state now x" "\<lambda>(now, x). emu_ok x"
  by (rule sound_pluginI) (auto simp: emu_state_sound)

section \<open>What every iteration keeps\<close>

lemma emu_telltales_keep:
  "\<exists>l t. fold emu_onTelltales bs x = x\<lparr> e_lamps := l, e_lampsSeenMs := t \<rparr>"
proof (induction bs arbitrary: x)
  case Nil
  have "x = x\<lparr> e_lamps := e_lamps x, e_lampsSeenMs := e_lampsSeenMs x \<rparr>" by simp
  then show ?case by (simp only: fold.simps id_apply) blast
next
  case (Cons b bs)
  have "\<exists>l t. emu_onTelltales b x = x\<lparr> e_lamps := l, e_lampsSeenMs := t \<rparr>"
  proof (cases "f_dlc (fst b) < 2")
    case True
    then have "emu_onTelltales b x = x\<lparr> e_lamps := e_lamps x, e_lampsSeenMs := e_lampsSeenMs x \<rparr>"
      by (simp add: emu_onTelltales_def)
    then show ?thesis by blast
  next
    case False
    then show ?thesis by (simp only: emu_onTelltales_def Let_def if_False) blast
  qed
  then obtain l t where b: "emu_onTelltales b x = x\<lparr> e_lamps := l, e_lampsSeenMs := t \<rparr>" by blast
  then show ?case using Cons.IH [of "x\<lparr> e_lamps := l, e_lampsSeenMs := t \<rparr>"] by force
qed

lemma emu_ok_fields [simp]:
  "emu_ok (x\<lparr> e_client := c \<rparr>) = emu_ok x" "emu_ok (x\<lparr> e_discovered := d \<rparr>) = emu_ok x"
  "emu_ok (x\<lparr> e_source := i \<rparr>) = emu_ok x" "emu_ok (x\<lparr> e_recordPath := r \<rparr>) = emu_ok x"
  "emu_ok (x\<lparr> e_running := d \<rparr>) = emu_ok x" "emu_ok (x\<lparr> e_vehicleIf := r \<rparr>) = emu_ok x"
  "emu_ok (x\<lparr> e_bms := b \<rparr>) = emu_ok x" "emu_ok (x\<lparr> e_bmsPresent := d \<rparr>) = emu_ok x"
  "emu_ok (x\<lparr> e_assistPresent := d \<rparr>) = emu_ok x" "emu_ok (x\<lparr> e_supported := s \<rparr>) = emu_ok x"
  "emu_ok (x\<lparr> e_lamps := l \<rparr>) = emu_ok x" "emu_ok (x\<lparr> e_lampsSeenMs := i \<rparr>) = emu_ok x"
  by (simp_all add: emu_ok_def)

lemma emu_telltales_fields:
  "e_poller (fold emu_onTelltales bs x) = e_poller x" "e_discovered (fold emu_onTelltales bs x) = e_discovered x"
  "emu_ok (fold emu_onTelltales bs x) = emu_ok x"
proof -
  obtain l t where f: "fold emu_onTelltales bs x = x\<lparr> e_lamps := l, e_lampsSeenMs := t \<rparr>"
    using emu_telltales_keep [of bs x] by blast
  show "e_poller (fold emu_onTelltales bs x) = e_poller x" "e_discovered (fold emu_onTelltales bs x) = e_discovered x"
    "emu_ok (fold emu_onTelltales bs x) = emu_ok x"
    unfolding f by simp_all
qed

lemma emu_ok_no_values: "emu_ok x \<Longrightarrow> emu_ok (x\<lparr> e_values := Map.empty \<rparr>)"
  by (simp add: emu_ok_def)

abbreviation emu_keys :: "Emu \<Rightarrow> u8 set" where
  "emu_keys x \<equiv> fst ` set (emu_want (e_hybrid x)) \<union> {kKeyPack, kKeyRange, kKeyDrive, kKeyAssist}"

lemma emu_ok_poller: "emu_ok x \<Longrightarrow> polls_within p (emu_keys x) \<Longrightarrow> emu_ok (x\<lparr> e_poller := p \<rparr>)"
  by (simp add: emu_ok_def)

lemma emu_ok_polls: "emu_ok x \<Longrightarrow> polls_within (e_poller x) (emu_keys x)"
  unfolding emu_ok_def by blast

lemma emu_ok_add: "emu_ok x \<Longrightarrow> key \<in> emu_keys x \<Longrightarrow> 0 < i \<Longrightarrow> emu_ok (x\<lparr> e_poller := poller_add key i (e_poller x) \<rparr>)"
  by (intro emu_ok_poller polls_within_add emu_ok_polls)

lemma emu_ok_fast: "emu_ok x \<Longrightarrow> 0 < e_fastMs x"
  unfolding emu_ok_def by blast

lemma emu_probe_ok:
  assumes "emu_ok x"
  shows "emu_ok (emu_probe e x) \<and> e_discovered (emu_probe e x) = e_discovered x"
proof -
  have f: "0 < e_fastMs x" by (rule emu_ok_fast [OF assms])
  have "emu_ok (x\<lparr> e_poller := poller_add kKeyRange (e_fastMs x * 5) (poller_add kKeyPack (e_fastMs x)
                (poller_add kKeyDrive (e_fastMs x) (e_poller x))) \<rparr>)"
    using f by (intro emu_ok_poller polls_within_add emu_ok_polls assms) simp_all
  moreover have "emu_ok (x\<lparr> e_poller := poller_add kKeyAssist (e_fastMs x * 2) (poller_add kKeyRange (e_fastMs x * 5)
      (poller_add kKeyPack (e_fastMs x) (poller_add kKeyDrive (e_fastMs x) (e_poller x)))) \<rparr>)"
    using f by (intro emu_ok_poller polls_within_add emu_ok_polls assms) simp_all
  moreover have "emu_ok (x\<lparr> e_bmsPresent := b, e_poller := p \<rparr>) = emu_ok (x\<lparr> e_poller := p \<rparr>)"
    "emu_ok (x\<lparr> e_bmsPresent := b, e_assistPresent := a, e_poller := p \<rparr>) = emu_ok (x\<lparr> e_poller := p \<rparr>)" for a b p
    by (simp_all add: emu_ok_def)
  ultimately show ?thesis using assms by (simp add: emu_probe_def Let_def)
qed

lemma emu_discover_ok:
  assumes "emu_ok x" "emu_discover e x = (out, x', calls)"
  shows "emu_ok x' \<and> e_discovered x' = e_discovered x \<and> published_states calls = []"
proof -
  obtain r c bs where d: "discover 300 (it_discovery e) (e_client x) = (r, c, bs)" by (metis prod_cases3)
  define y where "y = fold emu_onTelltales bs (x\<lparr> e_client := c \<rparr>)"
  have y: "emu_ok y" "e_discovered y = e_discovered x" using assms(1) by (simp_all add: y_def emu_telltales_fields)
  show ?thesis
  proof (cases "r = Done True")
    case True
    define z where "z = y\<lparr> e_supported := c_supported c, e_poller := poller_clear (e_poller y), e_values := Map.empty \<rparr>"
    let ?p = "fold (\<lambda>(pid, k) p. if pid \<in> e_supported z then poller_add pid (e_fastMs z * k) p else p) (emu_want (e_hybrid z)) (e_poller z)"
    have z: "emu_ok z" unfolding z_def
      using y(1) by (intro emu_ok_no_values emu_ok_poller polls_within_clear) simp
    have "polls_within ?p (emu_keys z)"
      using emu_ok_polls [OF z] emu_ok_fast [OF z] by (intro polls_within_wanted) (auto simp: emu_want_def image_iff)
    then have "emu_ok (z\<lparr> e_poller := ?p \<rparr>)" by (rule emu_ok_poller [OF z])
    then have "emu_ok (emu_probe e (z\<lparr> e_poller := ?p \<rparr>)) \<and> e_discovered (emu_probe e (z\<lparr> e_poller := ?p \<rparr>)) = e_discovered x"
      using emu_probe_ok [of "z\<lparr> e_poller := ?p \<rparr>" e] by (simp add: z_def y)
    then show ?thesis
      using assms(2) by (auto simp: emu_discover_def d True Let_def z_def y_def cong: if_cong)
  next
    case False
    then show ?thesis
      using assms(2) y by (cases r) (auto simp: emu_discover_def d Let_def y_def split: if_splits)
  qed
qed

lemma emu_pollDid_ok:
  assumes "emu_ok x"
  shows "emu_ok (snd (emu_pollDid key env x)) \<and> e_discovered (snd (emu_pollDid key env x)) = e_discovered x \<and>
    e_poller (snd (emu_pollDid key env x)) = e_poller x"
proof -
  have r: "emu_ok (x\<lparr> e_pack := p \<rparr>) = pack_small p" "emu_ok (x\<lparr> e_range := r \<rparr>) = range_small r"
    "emu_ok (x\<lparr> e_drive := d \<rparr>) = drive_small d" "emu_ok (x\<lparr> e_assist := a \<rparr>) = assist_small a" for p r d a
    using assms by (simp_all add: emu_ok_def)
  have "pack_small (snd (decodePack d (e_pack x)))" "range_small (snd (decodeRange d (e_range x)))"
    "drive_small (snd (decodeDrive d (e_drive x)))" "assist_small (snd (decodeAssist d (e_assist x)))" for d
    using assms by (simp_all add: emu_ok_def decoded_small)
  then show ?thesis
    using assms by (simp add: emu_pollDid_def Let_def case_prod_unfold r split: option.split)
qed

lemma emu_query_ok:
  assumes "emu_ok x" "emu_query key e x = (r, x')"
  shows "emu_ok x' \<and> e_discovered x' = e_discovered x \<and> e_poller x' = e_poller x"
proof (cases "key \<ge> 0xF0")
  case True
  then show ?thesis
    using assms(2) emu_pollDid_ok [OF assms(1), of key "em_did e"] by (auto simp: emu_query_def case_prod_unfold Let_def)
next
  case False
  obtain q c bs where q: "query key (e_fastMs x) (it_query e) (e_client x) = (q, c, bs)" by (metis prod_cases3)
  define y where "y = fold emu_onTelltales bs (x\<lparr> e_client := c \<rparr>)"
  have y: "emu_ok y" "e_discovered y = e_discovered x" "e_poller y = e_poller x"
    using assms(1) by (simp_all add: y_def emu_telltales_fields)
  have "emu_ok (y\<lparr> e_values := (e_values y)(key \<mapsto> v) \<rparr>)" if "q = Done (Some v)" for v
    using y(1) query_value [OF q [unfolded that]] by (simp add: emu_ok_def)
  then show ?thesis
    using assms(2) False q y by (auto simp: emu_query_def Let_def simp flip: y_def split: wait.splits option.splits)
qed

lemma emu_poll_ok:
  assumes "emu_ok x" "iter_ok (iter_env.truncate e)" "emu_poll e x = (gone, x', calls)"
  shows "emu_ok x' \<and> published_states calls = []"
proof (cases "nextDue (e_poller x) (it_now e)")
  case None
  obtain c bs where "idle (it_idle e) (e_client x) = (c, bs)" by fastforce
  then show ?thesis using assms None by (auto simp: emu_poll_def emu_telltales_fields)
next
  case (Some key)
  have t: "0 \<le> it_now e" "0 \<le> it_answered e" using assms(2) by (simp_all add: iter_ok_def iter_env.truncate_def)
  define y where "y = x\<lparr> e_poller := markRequested key (it_now e) (e_poller x) \<rparr>"
  have y: "emu_ok y"
    unfolding y_def by (intro emu_ok_poller polls_within_requested emu_ok_polls assms t)
  obtain r z where q: "emu_query key e y = (r, z)" by fastforce
  have z: "emu_ok z" using emu_query_ok [OF y q] by blast
  moreover have "emu_ok (z\<lparr> e_poller := markAnswered key (it_answered e) (e_poller z) \<rparr>)"
    by (intro emu_ok_poller polls_within_answered emu_ok_polls z t)
  ultimately show ?thesis
    using assms(3) Some q by (auto simp: emu_poll_def simp flip: y_def split: wait.splits bool.splits if_splits)
qed

lemma emu_iter_ok:
  assumes "emu_ok x" "iter_ok (iter_env.truncate e)" "emu_iter e (x, n) = Done ((x', n'), calls)"
  shows "emu_ok x' \<and> (\<forall>s \<in> set (published_states calls). \<exists>now y. emu_ok y \<and> s = emu_state now y)"
proof -
  obtain found y c1 where d: "(if e_discovered x then (Done True, x, []) else emu_discover e x) = (found, y, c1)"
    by (metis prod_cases3)
  have y: "emu_ok y" "published_states c1 = []"
    using d emu_discover_ok [of x e found y c1] assms(1) by (auto split: if_splits)
  show ?thesis
  proof (cases found)
    case Waiting
    then show ?thesis using assms(3) by (simp add: emu_iter_def d)
  next
    case (Done ok)
    show ?thesis
    proof (cases ok)
      case True
      obtain gone z c2 where p: "emu_poll e (y\<lparr> e_discovered := True \<rparr>) = (gone, z, c2)" by (metis prod_cases3)
      have "emu_ok (y\<lparr> e_discovered := True \<rparr>)" using y by simp
      note z = emu_poll_ok [OF this assms(2) p]
      show ?thesis
        using assms(3) z y(2) True Done
        by (cases gone) (auto simp: emu_iter_def d p Let_def split: bool.splits if_splits intro!: exI)
    next
      case False
      then show ?thesis
        using assms(3) y(2) emu_ok_no_values [OF y(1)] Done by (clarsimp simp: emu_iter_def d Let_def) blast
    qed
  qed
qed

lemma emu_run_ok:
  "emu_ok x \<Longrightarrow> \<forall>e \<in> set es. iter_ok (iter_env.truncate e) \<Longrightarrow> emu_run es (x, n) = Done ((x', n'), calls) \<Longrightarrow>
    emu_ok x' \<and> (\<forall>s \<in> set (published_states calls). \<exists>now y. emu_ok y \<and> s = emu_state now y)"
proof (induction es arbitrary: x n calls)
  case (Cons e es)
  obtain y m c1 c2 where i: "emu_iter e (x, n) = Done ((y, m), c1)" "emu_run es (y, m) = Done ((x', n'), c2)" "calls = c1 @ c2"
    using Cons.prems(3) by (auto split: wait.splits)
  have 1: "emu_ok y \<and> (\<forall>s \<in> set (published_states c1). \<exists>now y. emu_ok y \<and> s = emu_state now y)"
    using emu_iter_ok [OF Cons.prems(1) _ i(1)] Cons.prems(2) by simp
  then have "emu_ok x' \<and> (\<forall>s \<in> set (published_states c2). \<exists>now y. emu_ok y \<and> s = emu_state now y)"
    using Cons.IH [OF _ _ i(2)] Cons.prems(2) by simp
  with 1 show ?case using i(3) by auto
qed simp

lemma emu_new_ok: "emu_ok (Emu_new\<lparr> e_hybrid := h \<rparr>)"
  by (simp add: emu_ok_def Emu_new_def polls_within_def poller_ok_def Poller_new_def pack_small_def range_small_def
      drive_small_def assist_small_def small_fields)

lemma emu_ok_set_fast: "emu_ok x \<Longrightarrow> 0 < n \<Longrightarrow> emu_ok (x\<lparr> e_fastMs := n \<rparr>)"
  by (simp add: emu_ok_def)

lemma emu_created_ok: "emu_create args hybrid = Some (said, Some x) \<Longrightarrow> emu_ok x"
  by (auto simp: emu_create_def Let_def emu_new_ok intro!: emu_ok_set_fast split: option.splits sum.splits if_splits)

lemma emu_started_ok: "emu_ok x \<Longrightarrow> emu_ok (fst (snd (emu_start opened bms_opened failure x)))"
  by (auto simp: emu_start_def Let_def split: prod.splits)

section \<open>Properties\<close>

text \<open>
  C17: Whatever the car, the battery ECU and the bus do, every state the plugin publishes, from its
  creation on, is one the daemon can put on the wire; a consumer sees a signal as valid exactly when
  the plugin said so and (for gear, power state and charging state) the value is one the contract
  knows, and then it holds the value the plugin published.
\<close>

theorem emu_signals_reach_consumer:
  assumes "emu_create args hybrid = Some (said, Some x)" "emu_start opened bms_opened failure x = (0, y, logs)"
    and "\<forall>e \<in> set es. iter_ok (iter_env.truncate e)"
    and "emu_run es (y, 0) = Done (xn, calls)" "s \<in> set (published_states calls)"
  shows "\<exists>f g. framesFrom s on ps cnt ma mi = Some f \<and> through_wire f = Some g \<and>
    (\<forall>sig. sig \<noteq> CANPROXY_SIG_COUNT \<longrightarrow>
       (wire_valid g sig \<longleftrightarrow> on \<and> valid_sig s sig \<and> enum_in_range s sig) \<and> (wire_valid g sig \<longrightarrow> carries s g sig))"
proof -
  have "emu_ok y" using emu_started_ok [OF emu_created_ok [OF assms(1)], of opened bms_opened failure] assms(2) by simp
  then obtain now z where "emu_ok z" "s = emu_state now z"
    using emu_run_ok [OF _ assms(3), of y 0 "fst xn" "snd xn" calls] assms(4,5) by auto
  then show ?thesis using emu.reaches_or_unknown [of "(now, z)"] by simp
qed

text \<open>A run in which nothing answers the discovery.\<close>

definition quiet_bms :: tp_env where
  "quiet_bms = \<lparr> tp_pending = [], tp_written = True, tp_answer = None \<rparr>"

definition sample_emu_iter :: emu_env where
  "sample_emu_iter = \<lparr> it_now = 10, it_discovery = [sample_env []\<lparr> e_written := False \<rparr>], it_query = sample_env [],
     it_answered = 10, it_idle = \<lparr> rd_now = 0, rd_arrived = None, rd_tv = (0, 0), rd_seen = 0 \<rparr>, it_check = 10,
     it_publish = 10, it_after = 10, em_pack = quiet_bms, em_assist = quiet_bms, em_did = quiet_bms \<rparr>"

lemma sample_emu_iteration:
  "\<not> e_discovered x \<Longrightarrow> \<exists>y s. emu_iter sample_emu_iter (x, n) = Done ((y, n), [SetLink 0, Publish s])"
proof -
  assume x: "\<not> e_discovered x"
  have "\<exists>c. discover 300 [sample_env []\<lparr> e_written := False \<rparr>] (e_client x) = (Done False, c, [])"
    by (simp add: discover_def request_closed sample_env_def eval_nat_numeral)
  then show ?thesis using x by (auto simp: emu_iter_def emu_discover_def sample_emu_iter_def Let_def)
qed

lemma sample_emu_started:
  "\<exists>x y. emu_create \<lparr> vehicle_if = Some ''can0'', plugin_args = [] \<rparr> True = Some ([], Some x) \<and>
    emu_start Opens TpOpens None x = (0, y, []) \<and> \<not> e_discovered y"
  by (simp add: emu_create_def canproxy_arg_def Emu_new_def emu_start_def Let_def client_open_def channel_open_def
      IsoTp_open_def IsoTp_close_def
      split: prod.splits)

theorem emu_signals_reach_consumer_witness:
  "\<exists>y z s f. emu_run [sample_emu_iter] (y, 0) = Done ((z, 0), [SetLink 0, Publish s]) \<and>
     framesFrom s True CANPROXY_STATE_OK 0 1 0 = Some f"
proof -
  obtain x y where y: "emu_create \<lparr> vehicle_if = Some ''can0'', plugin_args = [] \<rparr> True = Some ([], Some x)"
      "emu_start Opens TpOpens None x = (0, y, [])" "\<not> e_discovered y"
    using sample_emu_started by blast
  obtain z s where z: "emu_iter sample_emu_iter (y, 0) = Done ((z, 0), [SetLink 0, Publish s])"
    using sample_emu_iteration [OF y(3)] by blast
  have r: "emu_run [sample_emu_iter] (y, 0) = Done ((z, 0), [SetLink 0, Publish s])" by (simp add: z)
  then have "\<exists>f. framesFrom s True CANPROXY_STATE_OK 0 1 0 = Some f"
    using emu_signals_reach_consumer [OF y(1,2), of "[sample_emu_iter]" "(z, 0)" "[SetLink 0, Publish s]" s True
        CANPROXY_STATE_OK 0 1 0]
    by (auto simp: iter_ok_def sample_emu_iter_def iter_env.truncate_def)
  then show ?thesis using r by blast
qed



end
