(* ===== verification/Forza_Telemetry.thy ===== *)
theory Forza_Telemetry
  imports Obd_J1979
begin

text \<open>
  The game's telemetry packets, \<^verbatim>\<open>plugins/forza/ForzaTelemetry.h\<close>: reading a binary32 value off
  four little-endian bytes, the square root of a \<open>float\<close>, and the packet parser. Values of \<open>float\<close>
  and \<open>double\<close> share the type \<open>f64\<close>; a \<open>float\<close> operation rounds to 24 bits. Each operation
  rounds on its own (no contraction of a product and a sum).
\<close>

section \<open>Binary32\<close>

definition to_f32 :: "rat \<Rightarrow> f64" where
  "to_f32 q = (let r = rnd 24 (- 149) q in
     if bitlen \<lfloor>\<bar>r\<bar>\<rfloor> \<le> 128 then FNum r else FInf (r < 0))"

fun f32_add :: "f64 \<Rightarrow> f64 \<Rightarrow> f64" where
  "f32_add (FNum a) (FNum b) = to_f32 (a + b)"
| "f32_add x y = x + y"

fun f32_mul :: "f64 \<Rightarrow> f64 \<Rightarrow> f64" where
  "f32_mul (FNum a) (FNum b) = to_f32 (a * b)"
| "f32_mul x y = x * y"

text \<open>The value of a bit pattern.\<close>

definition f32_of_bits :: "u32 \<Rightarrow> f64" where
  "f32_of_bits w = (
     let neg = bit w 31; e = uint (drop_bit 23 w AND 0xFF); m = uint (w AND 0x7FFFFF)
     in if e = 255 then (if m = 0 then FInf neg else FNaN)
        else (
          let m = (if e = 0 then m else m + 2 ^ 23); e = (if e = 0 then 1 else e);
              v = (if e \<ge> 150 then of_int (m * 2 ^ nat (e - 150)) else of_int m / 2 ^ nat (150 - e))
          in FNum (if neg then - v else v)))"

text \<open>
  The integer square root, and the root of a \<open>float\<close> correctly rounded: the root is taken to 200
  binary places below the point, with one more bit that says whether it is exact.
\<close>

function isqrt :: "int \<Rightarrow> int" where
  "isqrt n = (if n \<le> 0 then 0 else let r = 2 * isqrt (n div 4) in if (r + 1) * (r + 1) \<le> n then r + 1 else r)"
  by auto
termination by (relation "measure nat") auto

declare isqrt.simps [simp del]

fun f32_sqrt :: "f64 \<Rightarrow> f64" where
  "f32_sqrt (FNum q) =
     (if q < 0 then FNaN
      else (
        let n = \<lfloor>q * 4 ^ 200\<rfloor>; r = isqrt n; exact = (of_int (r * r) = q * 4 ^ 200)
        in to_f32 (of_int (2 * r + (if exact then 0 else 1)) / 2 ^ 201)))"
| "f32_sqrt (FInf neg) = (if neg then FNaN else FInf False)"
| "f32_sqrt FNaN = FNaN"

section \<open>The parser\<close>

record ForzaFrame =
  t_raceOn :: bool
  t_timestampMs :: u32
  t_engineMaxRpm :: f64
  t_engineIdleRpm :: f64
  t_engineRpm :: f64
  t_speedMps :: f64
  t_hasDash :: bool
  t_powerW :: f64
  t_torqueNm :: f64
  t_boost :: f64
  t_fuel :: f64
  t_distanceM :: f64
  t_accel :: u8
  t_brake :: u8
  t_clutch :: u8
  t_handbrake :: u8
  t_gear :: u8
  t_steer :: int
  t_format :: string

definition ForzaFrame_new :: ForzaFrame where
  "ForzaFrame_new = \<lparr> t_raceOn = False, t_timestampMs = 0, t_engineMaxRpm = FNum 0, t_engineIdleRpm = FNum 0,
     t_engineRpm = FNum 0, t_speedMps = FNum 0, t_hasDash = False, t_powerW = FNum 0, t_torqueNm = FNum 0,
     t_boost = FNum 0, t_fuel = FNum 0, t_distanceM = FNum 0, t_accel = 0, t_brake = 0, t_clutch = 0, t_handbrake = 0,
     t_gear = 0, t_steer = 0, t_format = [] \<rparr>"

text \<open>The readers copy four bytes; the host is little-endian, as the packets are.\<close>

definition forza_u32 :: "bytes \<Rightarrow> nat \<Rightarrow> u32" where
  "forza_u32 p i = ucast (p ! i) OR push_bit 8 (ucast (p ! (i + 1))) OR push_bit 16 (ucast (p ! (i + 2))) OR
     push_bit 24 (ucast (p ! (i + 3)))"

definition forza_f32 :: "bytes \<Rightarrow> nat \<Rightarrow> f64" where
  "forza_f32 p i = f32_of_bits (forza_u32 p i)"

definition forza_s32 :: "bytes \<Rightarrow> nat \<Rightarrow> int" where
  "forza_s32 p i = sint (forza_u32 p i)"

definition dashOffset :: "nat \<Rightarrow> int" where
  "dashOffset n = (if n = 311 then 232 else if n = 324 then 244 else if n = 331 then 232 else - 1)"

definition forza_parse :: "bytes option \<Rightarrow> nat \<Rightarrow> ForzaFrame \<Rightarrow> bool \<times> ForzaFrame" where
  "forza_parse packet n out =
     (case packet of
        None \<Rightarrow> (False, out)
      | Some d \<Rightarrow>
          if n \<noteq> 232 \<and> dashOffset n < 0 then (False, out)
          else (
            let vx = forza_f32 d 32; vy = forza_f32 d 36; vz = forza_f32 d 40;
                out = ForzaFrame_new\<lparr> t_raceOn := forza_s32 d 0 \<noteq> 0, t_timestampMs := forza_u32 d 4,
                  t_engineMaxRpm := forza_f32 d 8, t_engineIdleRpm := forza_f32 d 12, t_engineRpm := forza_f32 d 16,
                  t_speedMps := f32_sqrt (f32_add (f32_add (f32_mul vx vx) (f32_mul vy vy)) (f32_mul vz vz)) \<rparr>;
                base = dashOffset n
            in if base < 0 then
                 (is_finite (t_engineRpm out) \<and> is_finite (t_speedMps out), out\<lparr> t_format := ''sled'' \<rparr>)
               else (
                 let h = nat base;
                     out = out\<lparr> t_hasDash := True, t_speedMps := forza_f32 d (h + 12), t_powerW := forza_f32 d (h + 16),
                       t_torqueNm := forza_f32 d (h + 20), t_boost := forza_f32 d (h + 40), t_fuel := forza_f32 d (h + 44),
                       t_distanceM := forza_f32 d (h + 48), t_accel := d ! (h + 71), t_brake := d ! (h + 72),
                       t_clutch := d ! (h + 73), t_handbrake := d ! (h + 74), t_gear := d ! (h + 75),
                       t_steer := sint (d ! (h + 76)),
                       t_format := (if n = 311 then ''fm7-dash'' else if n = 324 then ''fh4/fh5'' else ''fm2023'') \<rparr>
                 in (is_finite (t_engineRpm out) \<and> is_finite (t_speedMps out) \<and> is_finite (t_powerW out) \<and>
                     is_finite (t_fuel out) \<and> t_fuel out \<ge> FNum 0 \<and> t_fuel out \<le> FNum 1, out))))"

section \<open>Facts\<close>

lemma isqrt_step:
  assumes "0 < n" "0 \<le> q" "q * q \<le> n div 4" "n div 4 < (q + 1) * (q + 1)" "q = isqrt (n div 4)"
  shows "0 \<le> isqrt n \<and> isqrt n * isqrt n \<le> n \<and> n < (isqrt n + 1) * (isqrt n + 1)"
proof -
  have n: "isqrt n = (if (2 * q + 1) * (2 * q + 1) \<le> n then 2 * q + 1 else 2 * q)"
    using assms(1,5) by (subst isqrt.simps) (simp add: Let_def)
  have d: "n = 4 * (n div 4) + n mod 4" "0 \<le> n mod 4" "n mod 4 < 4" by simp_all
  have lo: "4 * (q * q) \<le> n" using assms(3) d by linarith
  have hi: "n < 4 * ((q + 1) * (q + 1))" using assms(4) d by linarith
  show ?thesis using assms(2) lo hi by (auto simp: n algebra_simps)
qed

lemma isqrt_bounds: "0 \<le> n \<Longrightarrow> 0 \<le> isqrt n \<and> isqrt n * isqrt n \<le> n \<and> n < (isqrt n + 1) * (isqrt n + 1)"
proof (induction "nat n" arbitrary: n rule: less_induct)
  case less
  show ?case
  proof (cases "n = 0")
    case True
    then show ?thesis by (simp add: isqrt.simps)
  next
    case False
    then have n: "0 < n" using less.prems by simp
    then have "nat (n div 4) < nat n" "0 \<le> n div 4" by simp_all
    then show ?thesis using less.hyps [of "n div 4"] isqrt_step [OF n] by blast
  qed
qed

text \<open>Only bytes of the packet are read.\<close>

lemma u32_within: "i + 3 < length d \<Longrightarrow> forza_u32 (d @ junk) i = forza_u32 d i"
  by (simp add: forza_u32_def nth_append)

lemma f32_within: "i + 3 < length d \<Longrightarrow> forza_f32 (d @ junk) i = forza_f32 d i"
  by (simp add: forza_f32_def u32_within)

lemma s32_within: "i + 3 < length d \<Longrightarrow> forza_s32 (d @ junk) i = forza_s32 d i"
  by (simp add: forza_s32_def u32_within)

lemma parse_within: "forza_parse (Some (d @ junk)) (length d) out = forza_parse (Some d) (length d) out"
proof (cases "length d \<in> {232, 311, 324, 331}")
  case True
  then show ?thesis
    by (auto simp: forza_parse_def Let_def dashOffset_def u32_within f32_within s32_within nth_append)
next
  case False
  then show ?thesis by (simp add: forza_parse_def dashOffset_def)
qed

end
