(* ===== verification/Forza.thy ===== *)
theory Forza
  imports Plugin_Contract Forza_Telemetry Text_Numbers
begin

text \<open>
  The forza plugin, \<^verbatim>\<open>plugins/forza/forza.cpp\<close>: what a telemetry packet is published as, the receive
  loop with its timeout, and the life cycle. One iteration of the loop takes the clock and the packet
  that \<open>poll\<close> and \<open>recv\<close> delivered, if any.
\<close>

section \<open>State and published values\<close>

record Forza =
  z_port :: int
  z_drivetrain :: int
  z_timeoutMs :: int
  z_open :: bool
  z_running :: bool

definition Forza_new :: Forza where
  "Forza_new = \<lparr> z_port = 1101, z_drivetrain = CP_DRIVETRAIN_ICE, z_timeoutMs = 1000, z_open = False, z_running = False \<rparr>"

definition forza_cap :: "ForzaFrame \<Rightarrow> u32" where
  "forza_cap f = (
     let cap = CANPROXY_SIG_BIT CANPROXY_SIG_SPEED OR CANPROXY_SIG_BIT CANPROXY_SIG_RPM OR
           CANPROXY_SIG_BIT CANPROXY_SIG_GEAR OR CANPROXY_SIG_BIT CANPROXY_SIG_POWER_STATE
     in if t_hasDash f then cap OR (CANPROXY_SIG_BIT CANPROXY_SIG_MOTOR_POWER OR CANPROXY_SIG_BIT CANPROXY_SIG_FUEL_LEVEL OR
          CANPROXY_SIG_BIT CANPROXY_SIG_ODOMETER) else cap)"

definition forza_state :: "Forza \<Rightarrow> ForzaFrame \<Rightarrow> canproxy_vehicle_state" where
  "forza_state p f = (
     let s = zero_vehicle_state\<lparr> s_drivetrain := z_drivetrain p, s_source := CP_SOURCE_SIMULATED,
           s_vehicle_id := canproxy_vehicle_id (Some ''forza'') None \<rparr>;
         s = s\<lparr> s_capable := forza_cap f, s_valid := forza_cap f \<rparr>;
         s = s\<lparr> s_speed_kmh := t_speedMps f * dlit (36 / 10), s_rpm := t_engineRpm f,
           s_power_state := (if t_raceOn f then CP_POWER_READY else CP_POWER_ON),
           s_gear := (if \<not> t_raceOn f then CP_GEAR_P else if t_hasDash f \<and> t_gear f = 0 then CP_GEAR_R else CP_GEAR_D) \<rparr>
     in if t_hasDash f then (
          let s = s\<lparr> s_motor_power_kw := t_powerW f / dlit 1000, s_fuel_pct := t_fuel f * dlit 100,
                s_odometer_km := t_distanceM f / dlit 1000 \<rparr>;
              s = (if t_handbrake f \<noteq> 0 then s\<lparr> s_lamps := s_lamps s OR CANPROXY_LAMP_BIT CANPROXY_LAMP_PARK_BRAKE \<rparr> else s)
          in if t_fuel f < to_f32 (1 / 10) then s\<lparr> s_lamps := s_lamps s OR CANPROXY_LAMP_BIT CANPROXY_LAMP_LOW_FUEL \<rparr> else s)
        else s)"

section \<open>The receive loop\<close>

record forza_loop =
  l_linked :: bool
  l_lastPacket :: int
  l_lastPublish :: int
  l_lastFormat :: string

definition forza_loop_new :: forza_loop where
  "forza_loop_new = \<lparr> l_linked = False, l_lastPacket = - 1, l_lastPublish = 0, l_lastFormat = [] \<rparr>"

definition forza_buf :: nat where [contract_consts]: "forza_buf = 512"

text \<open>
  \<open>None\<close> is no packet (a timeout of \<open>poll\<close> or a failing \<open>recv\<close>); a longer packet is cut to the buffer.
\<close>

definition forza_packet :: "Forza \<Rightarrow> int \<Rightarrow> bytes option \<Rightarrow> forza_loop \<Rightarrow> forza_loop \<times> host_call list" where
  "forza_packet p now packet l =
     (case packet of
        None \<Rightarrow> (l, [])
      | Some data \<Rightarrow> (
          let buf = take forza_buf data; n = length buf;
              (ok, f) = forza_parse (Some buf) n ForzaFrame_new
          in if n > 0 \<and> ok then (
               let c1 = (if l_linked l then [] else [SetLink 1]);
                   c2 = (if t_format f \<noteq> l_lastFormat l then [logf CANPROXY_LOG_INFO
                     (''telemetry format '' @ t_format f @ '' ('' @ int_text (int n) @ '' bytes)'')] else []);
                   l = l\<lparr> l_linked := True, l_lastFormat := t_format f, l_lastPacket := now \<rparr>
               in if now - l_lastPublish l \<ge> 20 then (l\<lparr> l_lastPublish := now \<rparr>, c1 @ c2 @ [Publish (forza_state p f)])
                  else (l, c1 @ c2))
             else if n > 0 \<and> l_lastPacket l < 0 then (l\<lparr> l_lastPacket := now \<rparr>, [logf CANPROXY_LOG_WARN
               (''ignoring '' @ int_text (int n) @ ''-byte packet: not a known Forza telemetry size'')])
             else (l, [])))"

definition forza_iter :: "Forza \<Rightarrow> int \<Rightarrow> bytes option \<Rightarrow> forza_loop \<Rightarrow> forza_loop \<times> host_call list" where
  "forza_iter p now packet l = (
     let (l, calls) = forza_packet p now packet l
     in if l_linked l \<and> now - l_lastPacket l > z_timeoutMs p then
          (l\<lparr> l_linked := False, l_lastFormat := [] \<rparr>, calls @ [logf CANPROXY_LOG_WARN
            (''no telemetry for '' @ int_text (z_timeoutMs p) @ '' ms, vehicle gone''), SetLink 0])
        else (l, calls))"

fun forza_run :: "Forza \<Rightarrow> (int \<times> bytes option) list \<Rightarrow> forza_loop \<Rightarrow> forza_loop \<times> host_call list" where
  "forza_run p [] l = (l, [])"
| "forza_run p ((now, packet) # es) l = (
     let (l, calls) = forza_iter p now packet l; (l, calls') = forza_run p es l in (l, calls @ calls'))"

section \<open>Life cycle\<close>

definition forza_create :: "canproxy_plugin_args \<Rightarrow> Forza creation" where
  "forza_create args = (
     let p = Forza_new;
         ported = (case canproxy_arg args ''port'' of
             None \<Rightarrow> Some (Inr p)
           | Some v \<Rightarrow> (case c_atoi v of
               None \<Rightarrow> None
             | Some n \<Rightarrow> if n < 1 \<or> n > 65535 then Some (Inl ''port out of range'') else Some (Inr (p\<lparr> z_port := n \<rparr>))))
     in case ported of
          None \<Rightarrow> None
        | Some (Inl why) \<Rightarrow> refused why
        | Some (Inr p) \<Rightarrow> (
            let driven = (case canproxy_arg args ''drivetrain'' of
                None \<Rightarrow> Inr p
              | Some v \<Rightarrow> if v = ''ice'' then Inr (p\<lparr> z_drivetrain := CP_DRIVETRAIN_ICE \<rparr>)
                  else if v = ''bev'' then Inr (p\<lparr> z_drivetrain := CP_DRIVETRAIN_BEV \<rparr>)
                  else if v = ''hev'' then Inr (p\<lparr> z_drivetrain := CP_DRIVETRAIN_HEV \<rparr>)
                  else Inl (''unknown drivetrain '' @ quoted v @ '' (ice|bev|hev)''))
            in case driven of
                 Inl why \<Rightarrow> refused why
               | Inr p \<Rightarrow> (case canproxy_arg args ''timeout_ms'' of
                   None \<Rightarrow> Some ([], Some p)
                 | Some v \<Rightarrow> (case c_atol v of
                     None \<Rightarrow> None
                   | Some n \<Rightarrow> if n < 100 then refused ''timeout_ms must be >= 100''
                       else Some ([], Some (p\<lparr> z_timeoutMs := n \<rparr>))))))"

text \<open>What the kernel answers, a failing call with the text of its \<open>errno\<close>.\<close>

datatype udp_open = UdpSocketFails string | UdpBindFails string | UdpOpens

definition forza_start :: "udp_open \<Rightarrow> Forza \<Rightarrow> int \<times> Forza \<times> host_call list" where
  "forza_start result p =
     (if z_running p then (0, p, [])
      else (case result of
              UdpSocketFails why \<Rightarrow> (1, p\<lparr> z_open := False, z_running := False \<rparr>,
                [logf CANPROXY_LOG_ERROR (''socket: '' @ why)])
            | UdpBindFails why \<Rightarrow> (1, p\<lparr> z_open := False, z_running := False \<rparr>,
                [logf CANPROXY_LOG_ERROR (''bind udp/'' @ int_text (z_port p) @ '': '' @ why)])
            | UdpOpens \<Rightarrow> (0, p\<lparr> z_open := True, z_running := True \<rparr>,
                [logf CANPROXY_LOG_INFO (''listening for Forza Data Out on udp/'' @ int_text (z_port p) @
                   ''; set the game'' @ [CHR 0x27] @ ''s Data Out IP to this host'')])))"

definition forza_stop :: "Forza \<Rightarrow> Forza" where
  "forza_stop p = (if \<not> z_running p then p else p\<lparr> z_running := False, z_open := False \<rparr>)"

section \<open>What is published\<close>

text \<open>A packet the loop takes, and what it says.\<close>

definition forza_read :: "bytes option \<Rightarrow> ForzaFrame option" where
  "forza_read packet =
     (case packet of
        None \<Rightarrow> None
      | Some data \<Rightarrow> (
          let (ok, f) = forza_parse (Some (take forza_buf data)) (length (take forza_buf data)) ForzaFrame_new
          in if data \<noteq> [] \<and> ok then Some f else None))"

text \<open>The messages about a packet.\<close>

definition forza_heard :: "bytes option \<Rightarrow> ForzaFrame \<Rightarrow> host_call" where
  "forza_heard packet f = logf CANPROXY_LOG_INFO
     (''telemetry format '' @ t_format f @ '' ('' @ int_text (int (length (take forza_buf (the packet)))) @ '' bytes)'')"

definition forza_ignores :: "bytes option \<Rightarrow> host_call" where
  "forza_ignores packet = logf CANPROXY_LOG_WARN
     (''ignoring '' @ int_text (int (length (take forza_buf (the packet)))) @
      ''-byte packet: not a known Forza telemetry size'')"

lemma forza_messages [simp]:
  "published_states (forza_heard packet f # cs) = published_states cs"
  "published_states (forza_ignores packet # cs) = published_states cs"
  by (simp_all add: forza_heard_def forza_ignores_def)

lemma forza_packet_eq:
  "forza_packet p now packet l =
     (case forza_read packet of
        Some f \<Rightarrow>
          (if now - l_lastPublish l \<ge> 20 then
             (l\<lparr> l_linked := True, l_lastFormat := t_format f, l_lastPacket := now, l_lastPublish := now \<rparr>,
              (if l_linked l then [] else [SetLink 1]) @ (if t_format f \<noteq> l_lastFormat l then [forza_heard packet f] else []) @
              [Publish (forza_state p f)])
           else (l\<lparr> l_linked := True, l_lastFormat := t_format f, l_lastPacket := now \<rparr>,
              (if l_linked l then [] else [SetLink 1]) @ (if t_format f \<noteq> l_lastFormat l then [forza_heard packet f] else [])))
      | None \<Rightarrow>
          if packet \<noteq> None \<and> packet \<noteq> Some [] \<and> l_lastPacket l < 0 then (l\<lparr> l_lastPacket := now \<rparr>, [forza_ignores packet])
          else (l, []))"
  by (auto simp: forza_packet_def forza_read_def forza_heard_def forza_ignores_def Let_def forza_buf_def split: option.split prod.split)

text \<open>The values a packet may have for its signals to be encodable; the parser does not check them.\<close>

definition sane_packet :: "ForzaFrame \<Rightarrow> bool" where
  "sane_packet f \<longleftrightarrow> lies (- (2 ^ 40)) (2 ^ 40) (t_speedMps f) \<and> lies (- (2 ^ 40)) (2 ^ 40) (t_engineRpm f) \<and>
     (t_hasDash f \<longrightarrow> lies (- (2 ^ 40)) (2 ^ 40) (t_powerW f) \<and> lies (- (2 ^ 40)) (2 ^ 40) (t_distanceM f) \<and>
        lies 0 1 (t_fuel f))"

lemma read_fuel: "forza_read packet = Some f \<Longrightarrow> t_hasDash f \<Longrightarrow> lies 0 1 (t_fuel f)"
proof -
  assume r: "forza_read packet = Some f" "t_hasDash f"
  then obtain d n where d: "forza_parse (Some d) n ForzaFrame_new = (True, f)"
    by (auto simp: forza_read_def Let_def split: option.splits prod.splits if_splits)
  then have "is_finite (t_fuel f) \<and> t_fuel f \<ge> FNum 0 \<and> t_fuel f \<le> FNum 1"
    using r(2) by (auto simp: forza_parse_def Let_def ForzaFrame_new_def split: if_splits)
  then show ?thesis by (cases "t_fuel f") (simp_all add: f64_ops)
qed

lemma sane_numbers:
  assumes "sane_packet f"
  shows "encodable (t_speedMps f * dlit (36 / 10))" "encodable (t_engineRpm f)"
    "t_hasDash f \<Longrightarrow> encodable (t_powerW f / dlit 1000)" "t_hasDash f \<Longrightarrow> encodable (t_distanceM f / dlit 1000)"
    "t_hasDash f \<Longrightarrow> encodable (t_fuel f * dlit 100)"
proof -
  have lit: "lies (- 4) 4 (dlit (36 / 10))" "lies 1 1000 (dlit 1000)" "lies 0 100 (dlit 100)"
    by (rule literal_lies; simp)+
  show "encodable (t_speedMps f * dlit (36 / 10))"
    using mul_lies [of "2 ^ 40" "t_speedMps f" 4] assms lit by (intro lies_encodable [of "- (2 ^ 40 * 4)" "2 ^ 40 * 4"]) (simp_all add: sane_packet_def)
  show "encodable (t_engineRpm f)"
    using assms by (intro lies_encodable [of "- (2 ^ 40)" "2 ^ 40"]) (simp_all add: sane_packet_def)
  show "t_hasDash f \<Longrightarrow> encodable (t_powerW f / dlit 1000)"
    using div_lies [of "2 ^ 40" "t_powerW f" 1000] assms lit by (intro lies_encodable [of "- (2 ^ 40)" "2 ^ 40"]) (simp_all add: sane_packet_def)
  show "t_hasDash f \<Longrightarrow> encodable (t_distanceM f / dlit 1000)"
    using div_lies [of "2 ^ 40" "t_distanceM f" 1000] assms lit by (intro lies_encodable [of "- (2 ^ 40)" "2 ^ 40"]) (simp_all add: sane_packet_def)
  show "t_hasDash f \<Longrightarrow> encodable (t_fuel f * dlit 100)"
    using mul_lies_pos [of 1 "t_fuel f" 100] assms lit by (intro lies_encodable [of 0 100]) (simp_all add: sane_packet_def)
qed

text \<open>The state without its lamps, written out.\<close>

lemma forza_state_fields:
  "s_valid (forza_state p f) = forza_cap f" "s_capable (forza_state p f) = forza_cap f"
  "s_gear (forza_state p f) = (if \<not> t_raceOn f then CP_GEAR_P else if t_hasDash f \<and> t_gear f = 0 then CP_GEAR_R else CP_GEAR_D)"
  "s_power_state (forza_state p f) = (if t_raceOn f then CP_POWER_READY else CP_POWER_ON)"
  "s_charging_state (forza_state p f) = 0"
  by (simp_all add: forza_state_def Let_def zero_vehicle_state_def)

lemma forza_state_honest:
  assumes "sane_packet f"
  shows "honest (forza_state p f)"
proof -
  have "all_encodable (forza_state p f)"
    using sane_numbers [OF assms] by (simp add: forza_state_def Let_def zero_vehicle_state_def all_encodable_def canproxy_signals_def)
  moreover have "enum_in_range (forza_state p f) sig" for sig
    by (cases sig) (simp_all add: forza_state_fields contract_consts)
  ultimately show ?thesis by (simp add: honest_def valid_sig_def capable_sig_def forza_state_fields)
qed

interpretation forza: source_plugin "\<lambda>(p, f). forza_state p f" "\<lambda>(p, f). sane_packet f"
  by (rule source_pluginI) (auto simp: forza_state_honest)

lemma forza_published:
  "s \<in> set (published_states (snd (forza_run p es l))) \<Longrightarrow>
    \<exists>now packet f. (now, packet) \<in> set es \<and> forza_read packet = Some f \<and> s = forza_state p f"
proof (induction es arbitrary: l)
  case (Cons e es)
  obtain now packet where e: "e = (now, packet)" by (cases e)
  obtain l1 c1 where i: "forza_iter p now packet l = (l1, c1)" by fastforce
  have c: "s \<in> set (published_states c1) \<Longrightarrow> \<exists>f. forza_read packet = Some f \<and> s = forza_state p f"
    using i by (auto simp: forza_iter_def forza_packet_eq Let_def split: option.splits if_splits)
  have "s \<in> set (published_states c1) \<or> s \<in> set (published_states (snd (forza_run p es l1)))"
    using Cons.prems by (auto simp: e i Let_def case_prod_unfold)
  then show ?case using c Cons.IH [of l1] e by fastforce
qed simp

section \<open>The link\<close>

text \<open>When the last readable packet came, and what came after it.\<close>

definition no_news :: "int \<times> bytes option \<Rightarrow> bool" where
  "no_news e \<longleftrightarrow> forza_read (snd e) = None"

definition last_heard :: "(int \<times> bytes option) list \<Rightarrow> int option" where
  "last_heard es = (case dropWhile no_news (rev es) of [] \<Rightarrow> None | e # _ \<Rightarrow> Some (fst e))"

definition heard_within :: "int \<Rightarrow> (int \<times> bytes option) list \<Rightarrow> bool" where
  "heard_within timeout es =
     (case last_heard es of
        None \<Rightarrow> False
      | Some t \<Rightarrow> \<forall>e \<in> set (takeWhile no_news (rev es)). fst e - t \<le> timeout)"

text \<open>What the host was last told about the link.\<close>

fun told :: "host_call list \<Rightarrow> int option" where
  "told [] = None"
| "told (c # cs) = (case told cs of Some n \<Rightarrow> Some n | None \<Rightarrow> (case c of SetLink n \<Rightarrow> Some n | _ \<Rightarrow> None))"

lemma told_append: "told (xs @ ys) = (case told ys of Some n \<Rightarrow> Some n | None \<Rightarrow> told xs)"
  by (induction xs) (auto split: option.splits)

lemma message_no_link [simp]:
  "(case logf l m of SetLink n \<Rightarrow> f n | _ \<Rightarrow> d) = d"
  "(case forza_heard packet h of SetLink n \<Rightarrow> f n | _ \<Rightarrow> d) = d"
  "(case forza_ignores packet of SetLink n \<Rightarrow> f n | _ \<Rightarrow> d) = d"
  by (simp_all add: logf_def forza_heard_def forza_ignores_def)

lemma forza_run_snoc:
  "forza_run p (es @ [(now, packet)]) l = (
     let (l, calls) = forza_run p es l; (l, calls') = forza_iter p now packet l in (l, calls @ calls'))"
  by (induction es arbitrary: l) (auto simp: Let_def case_prod_unfold)

lemma forza_run_link:
  assumes "0 \<le> z_timeoutMs p" "\<forall>e \<in> set es. 0 \<le> fst e" "forza_run p es forza_loop_new = (l, calls)"
  shows "(l_linked l \<longleftrightarrow> heard_within (z_timeoutMs p) es) \<and>
    (\<forall>t. last_heard es = Some t \<longrightarrow> l_lastPacket l = t \<and> 0 \<le> t) \<and>
    (l_linked l \<longrightarrow> told calls = Some 1) \<and> (\<not> l_linked l \<longrightarrow> told calls \<in> {None, Some 0})"
  using assms(2,3)
proof (induction es arbitrary: l calls rule: rev_induct)
  case Nil
  then show ?case by (auto simp: forza_loop_new_def last_heard_def heard_within_def)
next
  case (snoc e es)
  obtain now packet where e: "e = (now, packet)" by (cases e)
  obtain l1 c1 where r: "forza_run p es forza_loop_new = (l1, c1)" by fastforce
  obtain c2 where i: "forza_iter p now packet l1 = (l, c2)" "calls = c1 @ c2"
    using snoc.prems(2) by (auto simp: e forza_run_snoc r Let_def split: prod.splits)
  have now: "0 \<le> now" using snoc.prems(1) by (simp add: e)
  have IH: "l_linked l1 \<longleftrightarrow> heard_within (z_timeoutMs p) es" "\<And>t. last_heard es = Some t \<Longrightarrow> l_lastPacket l1 = t \<and> 0 \<le> t"
      "l_linked l1 \<Longrightarrow> told c1 = Some 1" "\<not> l_linked l1 \<Longrightarrow> told c1 \<in> {None, Some 0}"
    using snoc.IH [OF _ r] snoc.prems(1) by auto
  show ?case
  proof (cases "forza_read packet")
    case (Some f)
    have "no_news e = False" by (simp add: no_news_def e Some)
    then have "last_heard (es @ [e]) = Some now" "heard_within (z_timeoutMs p) (es @ [e])"
      by (simp_all add: last_heard_def heard_within_def e)
    moreover have "l_linked l \<and> l_lastPacket l = now \<and> told calls = Some 1"
      using i assms(1) IH(3) by (auto simp: forza_iter_def forza_packet_eq Some Let_def told_append split: if_splits)
    ultimately show ?thesis using now by simp
  next
    case None
    have "no_news e" by (simp add: no_news_def e None)
    then have h: "last_heard (es @ [e]) = last_heard es"
        "heard_within (z_timeoutMs p) (es @ [e]) \<longleftrightarrow> heard_within (z_timeoutMs p) es \<and>
           (\<exists>t. last_heard es = Some t \<and> now - t \<le> z_timeoutMs p)"
      by (auto simp: last_heard_def heard_within_def e split: option.splits list.splits)
    show ?thesis
    proof (cases "last_heard es")
      case N: None
      then have "\<not> l_linked l1" using IH(1) by (simp add: heard_within_def)
      then have "\<not> l_linked l \<and> told calls = told c1"
        using i by (auto simp: forza_iter_def forza_packet_eq None Let_def told_append split: if_splits)
      then show ?thesis using h N IH(4) \<open>\<not> l_linked l1\<close> by auto
    next
      case (Some t)
      then have t: "l_lastPacket l1 = t" "0 \<le> t" using IH(2) by auto
      then have f: "forza_packet p now packet l1 = (l1, [])" by (simp add: forza_packet_eq None)
      show ?thesis
      proof (cases "l_linked l1 \<and> now - t > z_timeoutMs p")
        case True
        then have "l = l1\<lparr> l_linked := False, l_lastFormat := [] \<rparr>" "told c2 = Some 0"
          using i(1) t by (auto simp: forza_iter_def f Let_def)
        then show ?thesis using h Some True t i(2) by (simp add: told_append)
      next
        case False
        then have "l = l1" "c2 = []" using i(1) t by (auto simp: forza_iter_def f Let_def split: if_splits)
        then show ?thesis using h Some False t i(2) IH by auto
      qed
    qed
  qed
qed

section \<open>Properties\<close>

text \<open>
  C19: The link follows the packets: after any run of the receive loop, the vehicle is linked exactly
  when a readable packet has come and, at every wake-up since the last one, no more than the timeout
  had passed; and the host has been told so.
\<close>

theorem forza_link_follows_packets:
  assumes "forza_create args = Some (said, Some p)" "\<forall>e \<in> set es. 0 \<le> fst e" "forza_run p es forza_loop_new = (l, calls)"
  shows "(l_linked l \<longleftrightarrow> heard_within (z_timeoutMs p) es) \<and>
    (if heard_within (z_timeoutMs p) es then told calls = Some 1 else told calls \<in> {None, Some 0})"
proof -
  have "0 \<le> z_timeoutMs p"
    using assms(1) by (auto simp: forza_create_def Forza_new_def Let_def split: option.splits sum.splits if_splits)
  then show ?thesis using forza_run_link [OF _ assms(2,3)] by auto
qed

text \<open>
  A sled packet of zeros, and one with a dash block whose distance is not a number.
\<close>

definition sled_packet :: bytes where
  "sled_packet = replicate 232 0"

definition nan_packet :: bytes where
  "nan_packet = replicate 280 0 @ [0, 0, 0xC0, 0x7F] @ replicate 27 0"

lemma f32_zero: "f32_of_bits 0 = FNum 0"
  by (simp add: f32_of_bits_def Let_def)

lemma isqrt_zero: "isqrt 0 = 0"
  by (subst isqrt.simps) simp

lemma f32_rounds_zero: "to_f32 0 = FNum 0"
  by (simp add: to_f32_def)

lemma sled_read: "\<exists>f. forza_read (Some sled_packet) = Some f \<and> sane_packet f"
proof -
  have r: "forza_u32 sled_packet i = 0" if "i + 3 < 232" for i
    using that by (simp add: forza_u32_def sled_packet_def)
  have "take forza_buf sled_packet = sled_packet" "length sled_packet = 232" "sled_packet \<noteq> []"
    by (simp_all add: sled_packet_def forza_buf_def)
  then show ?thesis
    by (simp add: forza_read_def forza_parse_def dashOffset_def Let_def forza_f32_def forza_s32_def r f32_zero f32_rounds_zero isqrt_zero
      sane_packet_def ForzaFrame_new_def)
qed

lemma nan_read: "\<exists>f. forza_read (Some nan_packet) = Some f \<and> t_hasDash f \<and> t_distanceM f = FNaN \<and> t_engineRpm f = FNum 0"
proof -
  have z: "forza_u32 nan_packet i = 0" if "i + 3 < 280 \<or> 284 \<le> i \<and> i + 3 < 311" for i
    using that by (auto simp: forza_u32_def nan_packet_def nth_append nth_Cons')
  have d: "forza_u32 nan_packet 280 = 0x7FC00000"
    by (simp add: forza_u32_def nan_packet_def nth_append)
  have n: "f32_of_bits 0x7FC00000 = FNaN"
    by (simp add: f32_of_bits_def Let_def)
  have "take forza_buf nan_packet = nan_packet" "length nan_packet = 311" "nan_packet \<noteq> []"
    by (simp_all add: nan_packet_def forza_buf_def)
  then show ?thesis
    by (simp add: forza_read_def forza_parse_def dashOffset_def Let_def forza_f32_def forza_s32_def z d n f32_zero f64_ops)
qed

lemma forza_default: "forza_create \<lparr> vehicle_if = None, plugin_args = [] \<rparr> = Some ([], Some Forza_new)"
  by (simp add: forza_create_def canproxy_arg_def Let_def)

theorem forza_link_follows_packets_witness:
  "\<exists>l calls. forza_run Forza_new [(100, Some sled_packet), (1000, None), (1101, None)] forza_loop_new = (l, calls) \<and> \<not> l_linked l"
proof -
  obtain l calls where r: "forza_run Forza_new [(100, Some sled_packet), (1000, None), (1101, None)] forza_loop_new = (l, calls)"
    by fastforce
  obtain f where "forza_read (Some sled_packet) = Some f" using sled_read by blast
  moreover have "forza_read None = None" by (simp add: forza_read_def)
  ultimately have "\<not> heard_within (z_timeoutMs Forza_new) [(100, Some sled_packet), (1000, None), (1101, None)]"
    by (simp add: heard_within_def last_heard_def no_news_def Forza_new_def)
  then show ?thesis using forza_link_follows_packets [OF forza_default _ r] r by simp
qed



text \<open>
  The parser checks every number it publishes except the distance: a dash packet whose distance is
  not a number is accepted and published, and putting it on the wire while the vehicle is on has
  undefined behaviour.
\<close>

lemma forza_unchecked_distance:
  assumes "forza_read packet = Some f" "t_hasDash f" "t_distanceM f = FNaN" "20 \<le> now"
    and "framesFrom (forza_state p f) True ps cnt ma mi = Some g"
  shows "forza_state p f \<in> set (published_states (snd (forza_iter p now packet forza_loop_new))) \<and> through_wire g = None"
proof -
  have "forza_state p f \<in> set (published_states (snd (forza_packet p now packet forza_loop_new)))"
    using assms(1,4) by (simp add: forza_packet_eq forza_loop_new_def)
  then have 1: "forza_state p f \<in> set (published_states (snd (forza_iter p now packet forza_loop_new)))"
    by (auto simp: forza_iter_def Let_def case_prod_unfold)
  have nan: "s_odometer_km (forza_state p f) = FNaN" using assms(2,3) by (simp add: forza_state_def Let_def f64_ops)
  have "bit (forza_cap f) (sig_index CANPROXY_SIG_ODOMETER)"
    using assms(2) by (simp add: forza_cap_def Let_def valid_sig_or bit_sig del: sig_index.simps)
  then have "odometer_valid (f_trip g)"
    using frames_flags [OF assms(5)] by (simp add: has_signal_bits valid_sig_def capable_sig_def forza_state_fields del: sig_index.simps)
  then have "canproxy_pack_trip (f_trip g) = None"
    using frames_copied(7) [OF assms(5)] nan
    by (simp add: canproxy_pack_trip_def canproxy_enc_u32_def canproxy_round_def f64_ops lsb_values)
  then have "through_wire g = None" by (auto simp: through_wire_def split: bind_splits)
  with 1 show ?thesis by simp
qed

lemma forza_unchecked_distance_witness:
  "\<exists>f g. forza_read (Some nan_packet) = Some f \<and> framesFrom (forza_state Forza_new f) True CANPROXY_STATE_OK 0 1 0 = Some g \<and>
     through_wire g = None"
proof -
  obtain f where f: "forza_read (Some nan_packet) = Some f" "t_hasDash f" "t_distanceM f = FNaN" "t_engineRpm f = FNum 0"
    using nan_read by blast
  have "state_convertible (forza_state Forza_new f)"
    by (simp add: state_convertible_def forza_state_def Let_def f(4) zero_vehicle_state_def)
  then obtain g where g: "framesFrom (forza_state Forza_new f) True CANPROXY_STATE_OK 0 1 0 = Some g"
    by (rule framesFrom_defined)
  then show ?thesis using forza_unchecked_distance [OF f(1-3) _ g, of 100] f(1) by auto
qed

end
