(* ===== verification/Sim.thy ===== *)
theory Sim
  imports Plugin_Contract Text_Numbers
begin

text \<open>
  The sim plugin, \<^verbatim>\<open>plugins/sim/sim.cpp\<close>: a scripted drive cycle. One step of the cycle is a function
  of the tick and the simulator's state; each \<open>double\<close> operation rounds on its own (no contraction
  of a product and a sum).
\<close>

section \<open>The drive cycle\<close>

record Phase =
  durMs :: int
  spd0 :: int
  spd1 :: int
  rpm0 :: int
  rpm1 :: int
  tmp0 :: int
  tmp1 :: int
  ph_set :: u32
  ph_clr :: u32
  ph_limit :: int

abbreviation sim_L :: "canproxy_lamp \<Rightarrow> u32" where "sim_L \<equiv> CANPROXY_LAMP_BIT"

definition kPhases :: "Phase list" where
  "kPhases =
    [\<lparr> durMs = 2000, spd0 = 0, spd1 = 40, rpm0 = 800, rpm1 = 2500, tmp0 = 70, tmp1 = 75,
       ph_set = sim_L CANPROXY_LAMP_TURN_LEFT OR sim_L CANPROXY_LAMP_SEATBELT, ph_clr = 0, ph_limit = 50 \<rparr>,
     \<lparr> durMs = 2000, spd0 = 40, spd1 = 80, rpm0 = 2500, rpm1 = 3500, tmp0 = 75, tmp1 = 80,
       ph_set = 0, ph_clr = sim_L CANPROXY_LAMP_TURN_LEFT OR sim_L CANPROXY_LAMP_SEATBELT, ph_limit = 80 \<rparr>,
     \<lparr> durMs = 3000, spd0 = 80, spd1 = 120, rpm0 = 2000, rpm1 = 3500, tmp0 = 80, tmp1 = 85,
       ph_set = sim_L CANPROXY_LAMP_ENGINE, ph_clr = 0, ph_limit = 120 \<rparr>,
     \<lparr> durMs = 8000, spd0 = 120, spd1 = 120, rpm0 = 2500, rpm1 = 2500, tmp0 = 85, tmp1 = 90,
       ph_set = sim_L CANPROXY_LAMP_HIGH_BEAM, ph_clr = sim_L CANPROXY_LAMP_ENGINE, ph_limit = 120 \<rparr>,
     \<lparr> durMs = 3000, spd0 = 120, spd1 = 160, rpm0 = 2500, rpm1 = 4500, tmp0 = 90, tmp1 = 90,
       ph_set = sim_L CANPROXY_LAMP_TPMS, ph_clr = sim_L CANPROXY_LAMP_HIGH_BEAM, ph_limit = 0 \<rparr>,
     \<lparr> durMs = 6000, spd0 = 160, spd1 = 160, rpm0 = 3200, rpm1 = 3200, tmp0 = 90, tmp1 = 90,
       ph_set = sim_L CANPROXY_LAMP_ABS, ph_clr = sim_L CANPROXY_LAMP_TPMS, ph_limit = 0 \<rparr>,
     \<lparr> durMs = 3000, spd0 = 160, spd1 = 200, rpm0 = 3200, rpm1 = 5500, tmp0 = 90, tmp1 = 92,
       ph_set = sim_L CANPROXY_LAMP_TRACTION, ph_clr = sim_L CANPROXY_LAMP_ABS, ph_limit = 0 \<rparr>,
     \<lparr> durMs = 4000, spd0 = 200, spd1 = 200, rpm0 = 4000, rpm1 = 4000, tmp0 = 92, tmp1 = 92,
       ph_set = sim_L CANPROXY_LAMP_OIL OR sim_L CANPROXY_LAMP_BATTERY, ph_clr = sim_L CANPROXY_LAMP_TRACTION, ph_limit = 0 \<rparr>,
     \<lparr> durMs = 4000, spd0 = 200, spd1 = 80, rpm0 = 4000, rpm1 = 1800, tmp0 = 92, tmp1 = 88,
       ph_set = sim_L CANPROXY_LAMP_BRAKE, ph_clr = sim_L CANPROXY_LAMP_OIL OR sim_L CANPROXY_LAMP_BATTERY, ph_limit = 100 \<rparr>,
     \<lparr> durMs = 3000, spd0 = 80, spd1 = 40, rpm0 = 1800, rpm1 = 1200, tmp0 = 88, tmp1 = 86,
       ph_set = sim_L CANPROXY_LAMP_TURN_RIGHT OR sim_L CANPROXY_LAMP_DOOR, ph_clr = 0, ph_limit = 50 \<rparr>,
     \<lparr> durMs = 3000, spd0 = 40, spd1 = 0, rpm0 = 1200, rpm1 = 800, tmp0 = 86, tmp1 = 85,
       ph_set = 0, ph_clr = sim_L CANPROXY_LAMP_TURN_RIGHT OR sim_L CANPROXY_LAMP_DOOR, ph_limit = 50 \<rparr>,
     \<lparr> durMs = 3000, spd0 = 0, spd1 = 0, rpm0 = 800, rpm1 = 800, tmp0 = 85, tmp1 = 80,
       ph_set = 0, ph_clr = sim_L CANPROXY_LAMP_BRAKE, ph_limit = 50 \<rparr>]"

definition kPhaseCount :: nat where "kPhaseCount = length kPhases"

section \<open>State\<close>

record Sim =
  y_drivetrain :: int
  y_assist :: bool
  y_link :: bool
  y_stallAfterMs :: int
  y_tickMs :: int
  y_running :: bool
  y_phase :: nat
  y_phaseElapsedMs :: f64
  y_lampBits :: u32
  y_soc :: f64
  y_fuel :: f64
  y_odo :: f64
  y_powerFiltered :: f64
  y_tripWh :: f64
  y_tripKm :: f64
  y_lastSpeed :: f64
  y_elapsedMs :: f64

definition Sim_new :: Sim where
  "Sim_new = \<lparr> y_drivetrain = CP_DRIVETRAIN_BEV, y_assist = True, y_link = True, y_stallAfterMs = - 1, y_tickMs = 20, y_running = False,
     y_phase = 0, y_phaseElapsedMs = FNum 0, y_lampBits = 0, y_soc = dlit 80, y_fuel = dlit 75, y_odo = dlit 10568,
     y_powerFiltered = FNum 0, y_tripWh = dlit 150, y_tripKm = dlit 1, y_lastSpeed = FNum 0, y_elapsedMs = FNum 0 \<rparr>"

definition electric :: "Sim \<Rightarrow> bool" where
  "electric x \<longleftrightarrow> y_drivetrain x \<noteq> CP_DRIVETRAIN_ICE"

definition combustion :: "Sim \<Rightarrow> bool" where
  "combustion x \<longleftrightarrow> y_drivetrain x = CP_DRIVETRAIN_ICE \<or> y_drivetrain x = CP_DRIVETRAIN_HEV \<or> y_drivetrain x = CP_DRIVETRAIN_PHEV"

definition sim_capable :: "Sim \<Rightarrow> u32" where
  "sim_capable x = (
     let c = CANPROXY_SIG_BIT CANPROXY_SIG_SPEED OR CANPROXY_SIG_BIT CANPROXY_SIG_RPM OR
           CANPROXY_SIG_BIT CANPROXY_SIG_GEAR OR CANPROXY_SIG_BIT CANPROXY_SIG_POWER_STATE OR
           CANPROXY_SIG_BIT CANPROXY_SIG_ODOMETER OR CANPROXY_SIG_BIT CANPROXY_SIG_AMBIENT_TEMP OR
           CANPROXY_SIG_BIT CANPROXY_SIG_CABIN_TEMP OR CANPROXY_SIG_BIT CANPROXY_SIG_COOLANT_TEMP OR
           CANPROXY_SIG_BIT CANPROXY_SIG_AUX_BATTERY;
         c = (if combustion x then c OR CANPROXY_SIG_BIT CANPROXY_SIG_FUEL_LEVEL else c);
         c = (if electric x then c OR (CANPROXY_SIG_BIT CANPROXY_SIG_MOTOR_POWER OR CANPROXY_SIG_BIT CANPROXY_SIG_PACK_VOLTAGE OR
               CANPROXY_SIG_BIT CANPROXY_SIG_PACK_CURRENT OR CANPROXY_SIG_BIT CANPROXY_SIG_SOC OR
               CANPROXY_SIG_BIT CANPROXY_SIG_SOH OR CANPROXY_SIG_BIT CANPROXY_SIG_RANGE OR
               CANPROXY_SIG_BIT CANPROXY_SIG_CONSUMPTION OR CANPROXY_SIG_BIT CANPROXY_SIG_CHARGING_STATE) else c)
     in if y_assist x then c OR (CANPROXY_SIG_BIT CANPROXY_SIG_ECO_SCORE OR CANPROXY_SIG_BIT CANPROXY_SIG_SPEED_LIMIT OR
          CANPROXY_SIG_BIT CANPROXY_SIG_COLLISION_RISK OR CANPROXY_SIG_BIT CANPROXY_SIG_LANE_STATE OR
          CANPROXY_SIG_BIT CANPROXY_SIG_LEAD_GAP) else c)"

section \<open>One step\<close>

text \<open>The phase and its lamps; \<open>dt\<close> is the tick as a \<open>double\<close>.\<close>

definition sim_clock :: "f64 \<Rightarrow> Sim \<Rightarrow> Sim" where
  "sim_clock dt x = (
     let p = kPhases ! y_phase x;
         x = x\<lparr> y_phaseElapsedMs := y_phaseElapsedMs x + dt, y_elapsedMs := y_elapsedMs x + dt \<rparr>
     in if y_phaseElapsedMs x \<ge> of_long (durMs p) then
          x\<lparr> y_phaseElapsedMs := y_phaseElapsedMs x - of_long (durMs p), y_phase := (y_phase x + 1) mod kPhaseCount \<rparr>
        else x)"

definition sim_enter :: "f64 \<Rightarrow> Sim \<Rightarrow> Sim" where
  "sim_enter dt x = (
     let q = kPhases ! y_phase x
     in if y_phaseElapsedMs x < dt + dlit (1 / 10 ^ 9) then
          x\<lparr> y_lampBits := (y_lampBits x OR ph_set q) AND NOT (ph_clr q) \<rparr>
        else x)"

definition interpolate :: "int \<Rightarrow> int \<Rightarrow> f64 \<Rightarrow> f64" where
  "interpolate a b t = of_long a + (of_long b - of_long a) * t"

text \<open>Tractive force in N, and power in kW, from the speed and the acceleration, within its limits.\<close>

definition sim_force :: "f64 \<Rightarrow> f64 \<Rightarrow> f64" where
  "sim_force v accel = dlit 1500 * accel + dlit (1 / 2) * dlit (12 / 10) * dlit (29 / 100) * dlit (23 / 10) * v * v +
     dlit (12 / 1000) * dlit 1500 * dlit (981 / 100) * of_long (if v > dlit (1 / 10) then 1 else 0)"

definition sim_limit :: "f64 \<Rightarrow> f64" where
  "sim_limit kw = (
     let kw = (if kw < FNum 0 then kw * dlit (6 / 10) else kw);
         kw = (if kw < dlit (- 60) then dlit (- 60) else kw)
     in if kw > dlit 120 then dlit 120 else kw)"

definition sim_power :: "f64 \<Rightarrow> f64 \<Rightarrow> f64" where
  "sim_power speed accel = (
     let v = speed / dlit (36 / 10);
         power = sim_limit (sim_force v accel * v / dlit 1000)
     in if speed < dlit (1 / 2) then dlit (3 / 10) else power)"

text \<open>Charge, fuel, trip and odometer.\<close>

definition sim_charge :: "f64 \<Rightarrow> f64 \<Rightarrow> Sim \<Rightarrow> Sim" where
  "sim_charge dtH speed x =
     (if electric x then (
        let soc = y_soc x - y_powerFiltered x * dtH / dlit 64 * dlit 100
        in x\<lparr> y_soc := (if soc < dlit 5 then dlit 80 else soc),
             y_tripWh := y_tripWh x + y_powerFiltered x * dlit 1000 * dtH, y_tripKm := y_tripKm x + speed * dtH \<rparr>)
      else x)"

definition sim_burn :: "f64 \<Rightarrow> Sim \<Rightarrow> Sim" where
  "sim_burn dt x =
     (if combustion x then (
        let fuel = y_fuel x - (dlit (1 / 2) + (if y_powerFiltered x > FNum 0 then y_powerFiltered x else FNum 0) * dlit (5 / 100)) *
              dt / dlit 60000
        in x\<lparr> y_fuel := (if fuel < dlit 3 then dlit 75 else fuel) \<rparr>)
      else x)"

definition sim_consume :: "f64 \<Rightarrow> f64 \<Rightarrow> Sim \<Rightarrow> Sim" where
  "sim_consume dt speed x = (
     let dtH = dt / dlit 3600000
     in sim_burn dt (sim_charge dtH speed (x\<lparr> y_odo := y_odo x + speed * dtH \<rparr>)))"

text \<open>\<open>static_cast<int>\<close>, undefined out of range.\<close>

definition f64_to_int :: "f64 \<Rightarrow> int option" where
  "f64_to_int v = (case f64_to_long v of
     None \<Rightarrow> None | Some i \<Rightarrow> if - (2 ^ 31) \<le> i \<and> i < 2 ^ 31 then Some i else None)"

definition sim_lamps :: "f64 \<Rightarrow> Sim \<Rightarrow> u32" where
  "sim_lamps speed x = (
     let lamps = y_lampBits x;
         lamps = (if y_drivetrain x = CP_DRIVETRAIN_BEV then lamps OR sim_L CANPROXY_LAMP_EV_READY else lamps);
         lamps = (if combustion x \<and> y_fuel x < dlit 12 then lamps OR sim_L CANPROXY_LAMP_LOW_FUEL else lamps);
         lamps = (if electric x \<and> y_soc x < dlit 15 then lamps OR sim_L CANPROXY_LAMP_LOW_TRACTION_BATTERY else lamps)
     in if speed < dlit (1 / 2) \<and> y_phase x = kPhaseCount - 1 then lamps OR sim_L CANPROXY_LAMP_PARK_BRAKE else lamps)"

definition sim_eco :: "Sim \<Rightarrow> int option" where
  "sim_eco x = (
     let absP = (if y_powerFiltered x < FNum 0 then - y_powerFiltered x else y_powerFiltered x)
     in f64_to_int (dlit 100 - (if absP > dlit 100 then dlit 100 else absP)))"

definition sim_state :: "f64 \<Rightarrow> f64 \<Rightarrow> f64 \<Rightarrow> Sim \<Rightarrow> canproxy_vehicle_state option" where
  "sim_state speed accel t x = (
     let q = kPhases ! y_phase x;
         consumption = y_tripWh x / y_tripKm x;
         s = zero_vehicle_state\<lparr> s_capable := sim_capable x, s_valid := sim_capable x, s_drivetrain := y_drivetrain x,
           s_source := CP_SOURCE_SIMULATED, s_vehicle_id := canproxy_vehicle_id (Some ''sim'') None \<rparr>;
         s = s\<lparr> s_speed_kmh := speed,
           s_rpm := (if electric x \<and> y_drivetrain x = CP_DRIVETRAIN_BEV then speed * dlit 75 else interpolate (rpm0 q) (rpm1 q) t),
           s_gear := (if speed > dlit (1 / 2) then CP_GEAR_D else CP_GEAR_P), s_power_state := CP_POWER_READY,
           s_motor_power_kw := y_powerFiltered x, s_pack_voltage_v := dlit 340 + y_soc x * dlit (6 / 10) \<rparr>;
         s = s\<lparr> s_pack_current_a := y_powerFiltered x * dlit 1000 / s_pack_voltage_v s, s_soc_pct := y_soc x, s_soh_pct := dlit 97,
           s_consumption_wh_km := consumption,
           s_range_km := y_soc x / dlit 100 * dlit 64000 / (if consumption > dlit 80 then consumption else dlit 80),
           s_charging_state := CP_CHARGING_NONE, s_odometer_km := y_odo x, s_ambient_c := dlit 23, s_cabin_c := dlit (215 / 10),
           s_coolant_c := (if electric x \<and> \<not> combustion x then dlit 35 + speed * dlit (5 / 100)
             else interpolate (tmp0 q) (tmp1 q) t),
           s_fuel_pct := y_fuel x,
           s_aux_battery_v := dlit (126 / 10) + (if speed > dlit (1 / 2) then dlit (16 / 10) else FNum 0),
           s_lamps := sim_lamps speed x \<rparr>
     in case sim_eco x of
          None \<Rightarrow> None
        | Some eco \<Rightarrow> Some (s\<lparr> s_eco_score := eco, s_speed_limit_kmh := ph_limit q,
            s_collision_risk := (if accel < dlit (- 3) then CP_RISK_HIGH else if accel < dlit (- 15 / 10) then CP_RISK_MEDIUM
              else if accel < dlit (- 1 / 2) then CP_RISK_LOW else CP_RISK_NONE),
            s_lane_state := (if speed > dlit 30 then CP_LANE_LEFT_SEEN OR CP_LANE_RIGHT_SEEN else 0),
            s_lead_gap_m := dlit 25 + speed * dlit (6 / 10) \<rparr>))"

definition sim_step :: "f64 \<Rightarrow> Sim \<Rightarrow> (canproxy_vehicle_state \<times> Sim) option" where
  "sim_step dt x = (
     let x = sim_enter dt (sim_clock dt x);
         q = kPhases ! y_phase x;
         t = y_phaseElapsedMs x / of_long (durMs q);
         speed = interpolate (spd0 q) (spd1 q) t;
         accel = (speed - y_lastSpeed x) / dlit (36 / 10) / (dt / dlit 1000);
         x = x\<lparr> y_lastSpeed := speed \<rparr>;
         power = sim_power speed accel;
         x = x\<lparr> y_powerFiltered := y_powerFiltered x + (power - y_powerFiltered x) * dlit (15 / 100) \<rparr>;
         x = sim_consume dt speed x
     in map_option (\<lambda>s. (s, x)) (sim_state speed accel t x))"

section \<open>The thread\<close>

text \<open>The loop for a number of ticks, the flag says that the stall has been logged.\<close>

definition stalls :: "Sim \<Rightarrow> bool" where
  "stalls x \<longleftrightarrow> y_stallAfterMs x \<ge> 0 \<and> y_elapsedMs x \<ge> of_long (y_stallAfterMs x)"

fun sim_loop :: "nat \<Rightarrow> bool \<Rightarrow> Sim \<Rightarrow> (Sim \<times> host_call list) option" where
  "sim_loop 0 stalled x = Some (x, [])"
| "sim_loop (Suc n) stalled x =
     (case sim_step (of_long (y_tickMs x)) x of
        None \<Rightarrow> None
      | Some (s, x) \<Rightarrow> (
          let calls = (if stalls x then (if stalled then [] else [logf CANPROXY_LOG_WARN ''stall_after_ms reached: no more publishes'']) else [Publish s])
          in map_option (\<lambda>(x, calls'). (x, calls @ calls')) (sim_loop n (stalled \<or> stalls x) x)))"

definition sim_run :: "nat \<Rightarrow> Sim \<Rightarrow> (Sim \<times> host_call list) option" where
  "sim_run n x =
     (if \<not> y_link x then Some (x, [SetLink 0, logf CANPROXY_LOG_INFO ''link=0: reporting no vehicle''])
      else map_option (\<lambda>(x, calls). (x, SetLink 1 # calls)) (sim_loop n False x))"

section \<open>Life cycle\<close>

definition set_drivetrain :: "string option \<Rightarrow> Sim \<Rightarrow> string + Sim" where
  "set_drivetrain d x = (case d of
     None \<Rightarrow> Inr x
   | Some v \<Rightarrow> if v = ''ice'' then Inr (x\<lparr> y_drivetrain := CP_DRIVETRAIN_ICE \<rparr>)
       else if v = ''bev'' then Inr (x\<lparr> y_drivetrain := CP_DRIVETRAIN_BEV \<rparr>)
       else if v = ''hev'' then Inr (x\<lparr> y_drivetrain := CP_DRIVETRAIN_HEV \<rparr>)
       else if v = ''phev'' then Inr (x\<lparr> y_drivetrain := CP_DRIVETRAIN_PHEV \<rparr>)
       else Inl (''unknown drivetrain '' @ quoted v @ '' (ice|bev|hev|phev)''))"

definition sim_names :: "string list" where
  "sim_names = [''unknown'', ''ice'', ''bev'', ''hev'', ''phev'', ''fcev'']"

text \<open>An integer argument, or the given value without one; \<open>None\<close> is undefined behaviour.\<close>

definition number_arg :: "canproxy_plugin_args \<Rightarrow> string \<Rightarrow> (string \<Rightarrow> int option) \<Rightarrow> int \<Rightarrow> int option" where
  "number_arg args key conv dflt = (case canproxy_arg args key of None \<Rightarrow> Some dflt | Some v \<Rightarrow> conv v)"

definition simCreate :: "canproxy_plugin_args \<Rightarrow> Sim creation" where
  "simCreate args =
     (case set_drivetrain (canproxy_arg args ''drivetrain'') Sim_new of
        Inl why \<Rightarrow> refused why
      | Inr x \<Rightarrow> do {
          a \<leftarrow> number_arg args ''assist'' c_atoi 1;
          l \<leftarrow> number_arg args ''link'' c_atoi 1;
          st \<leftarrow> number_arg args ''stall_after_ms'' c_atol (y_stallAfterMs x);
          t \<leftarrow> number_arg args ''tick_ms'' c_atoi (y_tickMs x);
          let x = x\<lparr> y_assist := a \<noteq> 0, y_link := l \<noteq> 0, y_stallAfterMs := st, y_tickMs := t \<rparr>;
          if canproxy_arg args ''tick_ms'' \<noteq> None \<and> (t < 5 \<or> t > 1000) then refused ''tick_ms out of range 5..1000''
          else Some ([logf CANPROXY_LOG_INFO
            (''drivetrain='' @ sim_names ! nat (y_drivetrain x) @ '' assist='' @ (if y_assist x then ''1'' else ''0'') @
             '' tick='' @ int_text (y_tickMs x) @ ''ms'')], Some x)
        })"

definition simStart :: "Sim \<Rightarrow> int \<times> Sim \<times> host_call list" where
  "simStart x = (0, x\<lparr> y_running := True \<rparr>, [])"

definition simStop :: "Sim \<Rightarrow> Sim" where
  "simStop x = x\<lparr> y_running := False \<rparr>"

section \<open>Bounds\<close>

lemma phase_facts:
  assumes "i < kPhaseCount"
  shows "2000 \<le> durMs (kPhases ! i) \<and> durMs (kPhases ! i) \<le> 8000 \<and>
    0 \<le> spd0 (kPhases ! i) \<and> spd0 (kPhases ! i) \<le> 200 \<and> 0 \<le> spd1 (kPhases ! i) \<and> spd1 (kPhases ! i) \<le> 200 \<and>
    0 \<le> rpm0 (kPhases ! i) \<and> rpm0 (kPhases ! i) \<le> 5500 \<and> 0 \<le> rpm1 (kPhases ! i) \<and> rpm1 (kPhases ! i) \<le> 5500 \<and>
    0 \<le> tmp0 (kPhases ! i) \<and> tmp0 (kPhases ! i) \<le> 100 \<and> 0 \<le> tmp1 (kPhases ! i) \<and> tmp1 (kPhases ! i) \<le> 100"
proof -
  have "\<forall>q \<in> set kPhases. 2000 \<le> durMs q \<and> durMs q \<le> 8000 \<and> 0 \<le> spd0 q \<and> spd0 q \<le> 200 \<and> 0 \<le> spd1 q \<and> spd1 q \<le> 200 \<and>
      0 \<le> rpm0 q \<and> rpm0 q \<le> 5500 \<and> 0 \<le> rpm1 q \<and> rpm1 q \<le> 5500 \<and> 0 \<le> tmp0 q \<and> tmp0 q \<le> 100 \<and> 0 \<le> tmp1 q \<and> tmp1 q \<le> 100"
    by (simp add: kPhases_def)
  moreover have "kPhases ! i \<in> set kPhases" using assms by (simp add: kPhaseCount_def)
  ultimately show ?thesis by blast
qed

lemma interpolate_lies:
  assumes "0 \<le> a" "a \<le> m" "0 \<le> b" "b \<le> m" "m \<le> 2 ^ 50" "lies 0 1 t"
  shows "lies 0 m (interpolate a b t)"
proof -
  obtain r where r: "t = FNum r" "0 \<le> r" "r \<le> 1" using assms(6) by (auto elim!: liesE)
  have ab: "of_long a = FNum (of_int a)" "of_long b = FNum (of_int b)" using assms by (simp_all add: of_long_FNum)
  have "FNum (rat_of_int b) - FNum (of_int a) = to_f64 (of_int (b - a))" by (simp add: f64_ops)
  also have "\<dots> = FNum (of_int (b - a))" using assms by (intro int_to_f64) simp
  finally have d: "of_long b - of_long a = FNum (of_int (b - a))" by (simp only: ab)
  have "lies (min 0 (b - a)) (max 0 (b - a)) (to_f64 (of_int (b - a) * r))"
  proof (rule rounded_lies)
    show "of_int (min 0 (b - a)) \<le> of_int (b - a) * r" "of_int (b - a) * r \<le> of_int (max 0 (b - a))"
    proof -
      show "of_int (min 0 (b - a)) \<le> of_int (b - a) * r"
      proof (cases "a \<le> b")
        case True
        then show ?thesis using r by simp
      next
        case False
        then have "rat_of_int (b - a) \<le> 0" by simp
        then have "rat_of_int (b - a) * 1 \<le> of_int (b - a) * r" using r by (intro mult_left_mono_neg) simp_all
        then show ?thesis using False by simp
      qed
      show "of_int (b - a) * r \<le> of_int (max 0 (b - a))"
      proof (cases "a \<le> b")
        case True
        then have "0 \<le> rat_of_int (b - a)" by simp
        then have "of_int (b - a) * r \<le> rat_of_int (b - a) * 1" using r by (intro mult_left_mono) simp_all
        then show ?thesis using True by simp
      next
        case False
        then have "rat_of_int (b - a) \<le> 0" by simp
        then show ?thesis using False r by (simp add: mult_nonpos_nonneg)
      qed
    qed
  qed (use assms in auto)
  moreover have "(of_long b - of_long a) * t = to_f64 (of_int (b - a) * r)" unfolding d r(1) by (simp add: f64_ops)
  ultimately have l: "lies (min 0 (b - a)) (max 0 (b - a)) ((of_long b - of_long a) * t)" by (simp only:)
  show ?thesis
    unfolding interpolate_def
    by (rule add_to [OF of_long_lies l]) (use assms in auto)
qed

text \<open>What holds after \<open>n\<close> steps.\<close>

definition sim_ok :: "int \<Rightarrow> Sim \<Rightarrow> bool" where
  "sim_ok n x \<longleftrightarrow> 5 \<le> y_tickMs x \<and> y_tickMs x \<le> 1000 \<and> y_phase x < kPhaseCount \<and>
     (\<exists>k. y_phaseElapsedMs x = FNum (of_int k) \<and> 0 \<le> k \<and> k < durMs (kPhases ! y_phase x)) \<and>
     y_elapsedMs x = FNum (of_int (n * y_tickMs x)) \<and>
     lies 5 (80 + n) (y_soc x) \<and> lies 3 75 (y_fuel x) \<and> lies 0 (10568 + n) (y_odo x) \<and> lies (- 61) 121 (y_powerFiltered x) \<and>
     lies (- (150 + 300 * n)) (150 + 300 * n) (y_tripWh x) \<and> lies 1 (1 + n) (y_tripKm x) \<and> lies 0 200 (y_lastSpeed x)"

text \<open>The parts of the state the steps between leave alone.\<close>

lemma exact_sum: "\<bar>i + j\<bar> \<le> 2 ^ 53 \<Longrightarrow> FNum (of_int i) + FNum (of_int j) = FNum (of_int (i + j))"
  using int_to_f64 [of "i + j"] by (simp add: f64_ops)

lemma exact_difference: "\<bar>i - j\<bar> \<le> 2 ^ 53 \<Longrightarrow> FNum (of_int i) - FNum (of_int j) = FNum (of_int (i - j))"
  using int_to_f64 [of "i - j"] by (simp add: f64_ops)

lemma enter_keeps:
  "y_phase (sim_enter dt x) = y_phase x" "y_phaseElapsedMs (sim_enter dt x) = y_phaseElapsedMs x"
  "y_elapsedMs (sim_enter dt x) = y_elapsedMs x" "y_tickMs (sim_enter dt x) = y_tickMs x"
  "y_soc (sim_enter dt x) = y_soc x" "y_fuel (sim_enter dt x) = y_fuel x" "y_odo (sim_enter dt x) = y_odo x"
  "y_powerFiltered (sim_enter dt x) = y_powerFiltered x" "y_tripWh (sim_enter dt x) = y_tripWh x"
  "y_tripKm (sim_enter dt x) = y_tripKm x" "y_lastSpeed (sim_enter dt x) = y_lastSpeed x"
  "y_drivetrain (sim_enter dt x) = y_drivetrain x" "y_assist (sim_enter dt x) = y_assist x"
  "y_stallAfterMs (sim_enter dt x) = y_stallAfterMs x"
  by (simp_all add: sim_enter_def Let_def)

lemma clock_keeps:
  "y_tickMs (sim_clock dt x) = y_tickMs x" "y_soc (sim_clock dt x) = y_soc x" "y_fuel (sim_clock dt x) = y_fuel x"
  "y_odo (sim_clock dt x) = y_odo x" "y_powerFiltered (sim_clock dt x) = y_powerFiltered x"
  "y_tripWh (sim_clock dt x) = y_tripWh x" "y_tripKm (sim_clock dt x) = y_tripKm x" "y_lastSpeed (sim_clock dt x) = y_lastSpeed x"
  "y_drivetrain (sim_clock dt x) = y_drivetrain x" "y_assist (sim_clock dt x) = y_assist x"
  "y_stallAfterMs (sim_clock dt x) = y_stallAfterMs x"
  by (simp_all add: sim_clock_def Let_def)

lemma clock_ok:
  assumes "sim_ok n x" "0 \<le> n" "n \<le> 2 ^ 33" "dt = FNum (of_int (y_tickMs x))"
  shows "y_phase (sim_clock dt x) < kPhaseCount \<and>
    (\<exists>k. y_phaseElapsedMs (sim_clock dt x) = FNum (of_int k) \<and> 0 \<le> k \<and> k < durMs (kPhases ! y_phase (sim_clock dt x))) \<and>
    y_elapsedMs (sim_clock dt x) = FNum (of_int ((n + 1) * y_tickMs x))"
proof -
  let ?t = "y_tickMs x" and ?dur = "durMs (kPhases ! y_phase x)"
  obtain k where k: "y_phaseElapsedMs x = FNum (of_int k)" "0 \<le> k" "k < ?dur"
    using assms(1) by (auto simp: sim_ok_def)
  have t: "5 \<le> ?t" "?t \<le> 1000" "y_phase x < kPhaseCount" using assms(1) by (auto simp: sim_ok_def)
  have dur: "2000 \<le> ?dur" "?dur \<le> 8000" using phase_facts [OF t(3)] by simp_all
  have e1: "y_phaseElapsedMs x + dt = FNum (of_int (k + ?t))"
    unfolding k(1) assms(4) using k dur t by (intro exact_sum) simp
  have "n * ?t \<le> 2 ^ 33 * 1000" using assms(2,3) t by (intro mult_mono) simp_all
  moreover have "0 \<le> n * ?t" using assms(2) t by simp
  ultimately have "\<bar>n * ?t + ?t\<bar> \<le> 2 ^ 53" using t by simp
  then have e2: "y_elapsedMs x + dt = FNum (of_int ((n + 1) * ?t))"
    using exact_sum [of "n * ?t" ?t] assms(1) by (simp add: assms(4) sim_ok_def algebra_simps)
  have d: "of_long ?dur = FNum (of_int ?dur)" using dur by (intro of_long_FNum) simp
  have e3: "y_phaseElapsedMs x + dt - of_long ?dur = FNum (of_int (k + ?t - ?dur))"
    unfolding e1 d using k dur t by (intro exact_difference) simp
  have le: "of_long ?dur \<le> y_phaseElapsedMs x + dt \<longleftrightarrow> ?dur \<le> k + ?t"
    unfolding e1 d by (simp only: less_eq_f64_def f64_leq.simps of_int_le_iff)
  have e: "y_elapsedMs (sim_clock dt x) = FNum (of_int ((n + 1) * ?t))"
    by (simp only: e2 [symmetric]) (simp add: sim_clock_def Let_def)
  show ?thesis
  proof (cases "?dur \<le> k + ?t")
    case True
    let ?p = "(y_phase x + 1) mod kPhaseCount"
    have p: "?p < kPhaseCount" using t(3) by simp
    have "y_phase (sim_clock dt x) = ?p" "y_phaseElapsedMs (sim_clock dt x) = FNum (of_int (k + ?t - ?dur))"
      unfolding e3 [symmetric] using True by (simp_all add: sim_clock_def Let_def le)
    moreover have "0 \<le> k + ?t - ?dur \<and> k + ?t - ?dur < durMs (kPhases ! ?p)"
      using phase_facts [OF p] True k dur t by linarith
    ultimately show ?thesis using p e by (intro conjI exI [of _ "k + ?t - ?dur"]) simp_all
  next
    case False
    have "y_phase (sim_clock dt x) = y_phase x" "y_phaseElapsedMs (sim_clock dt x) = FNum (of_int (k + ?t))"
      unfolding e1 [symmetric] using False by (simp_all add: sim_clock_def Let_def le)
    moreover have "0 \<le> k + ?t \<and> k + ?t < ?dur" using False k t by linarith
    ultimately show ?thesis using t(3) e by (intro conjI exI [of _ "k + ?t"]) simp_all
  qed
qed

text \<open>The tick in milliseconds, hours and seconds.\<close>

lemma tick_hours:
  assumes "5 \<le> k" "k \<le> 1000"
  obtains h where "FNum (of_int k) / dlit 3600000 = FNum h" "0 \<le> h" "h \<le> 1 / 1800"
proof -
  have k: "\<bar>rat_of_int k\<bar> \<le> 1000" using assms by simp
  have d: "dlit 3600000 = FNum 3600000" using int_to_f64 [of 3600000] by simp
  obtain h where "FNum (of_int k) / FNum 3600000 = FNum h" "\<bar>h\<bar> \<le> 2 * (1000 / 3600000)" "0 \<le> rat_of_int k \<Longrightarrow> 0 \<le> h"
    using small_quotient [OF k, of 3600000] by auto
  then show thesis using assms(1) by (intro that [of h]) (simp_all add: d)
qed

lemma tick_seconds:
  assumes "5 \<le> k" "k \<le> 1000"
  obtains h where "FNum (of_int k) / dlit 1000 = FNum h" "1 / 256 \<le> h"
proof -
  have "rat_of_int 5 \<le> of_int k" using assms(1) by (simp only: of_int_le_iff)
  then have "1 / 256 \<le> rat_of_int k / 1000" by simp
  then have "rd64 (1 / 256) \<le> rd64 (of_int k / 1000)" by (intro b64.rd_mono)
  moreover have "rd64 (1 / 256) = 1 / 256" using rnd_exact [of 1 53 "- 1074" "- 8"] by (simp add: powi_neg_nat)
  moreover have "FNum (of_int k) / dlit 1000 = FNum (rd64 (of_int k / 1000))"
    using assms by (simp add: lit_to_f64 div_f64)
  ultimately show thesis using that by simp
qed

lemma acceleration_lies:
  assumes "lies 0 200 speed" "lies 0 200 before" "5 \<le> k" "k \<le> 1000"
  shows "lies (- 51200) 51200 ((speed - before) / dlit (36 / 10) / (FNum (of_int k) / dlit 1000))"
proof -
  have "lies (- 200) 200 (speed - before)" by (rule sub_to [OF assms(1,2)]) simp_all
  then have "lies (- 200) 200 ((speed - before) / dlit (36 / 10))"
    by (rule div_to [where d = 4 and m = 200]) (simp_all add: literal_lies)
  then obtain q where q: "(speed - before) / dlit (36 / 10) = FNum q" "\<bar>q\<bar> \<le> 200" by (auto elim!: liesE)
  obtain h where h: "FNum (of_int k) / dlit 1000 = FNum h" "1 / 256 \<le> h" by (rule tick_seconds [OF assms(3,4)])
  have "\<bar>q\<bar> / h \<le> 200 / (1 / 256)" using q(2) h(2) by (intro frac_le) simp_all
  moreover have "\<bar>q / h\<bar> = \<bar>q\<bar> / h" using h(2) by (simp add: abs_divide)
  ultimately have "\<bar>q / h\<bar> \<le> 51200" by (simp only:) simp
  then have "of_int (- 51200) \<le> q / h" "q / h \<le> of_int 51200" using abs_le_D1 abs_le_D2 [of "q / h"] by fastforce+
  then have "lies (- 51200) 51200 (to_f64 (q / h))" by (rule rounded_lies) simp_all
  moreover have "h \<noteq> 0" using h(2) by auto
  ultimately show ?thesis unfolding q(1) h(1) by (simp add: f64_ops)
qed

lemma force_lies:
  assumes v: "lies 0 200 v" and "lies (- 51200) 51200 accel"
  shows "lies (- 77055000) 77055000 (sim_force v accel)"
proof -
  have lits: "lies 0 1500 (dlit 1500)" "lies 0 1 (dlit (1 / 2))" "lies 0 2 (dlit (12 / 10))"
    "lies 0 1 (dlit (29 / 100))" "lies 0 3 (dlit (23 / 10))" "lies 0 1 (dlit (12 / 1000))" "lies 0 10 (dlit (981 / 100))"
    by (rule literal_lies; simp)+
  have f1: "lies (- 76800000) 76800000 (dlit 1500 * accel)"
    by (rule mul_to [OF lits(1) assms(2), where m = 1500 and k = 51200]) simp_all
  have "lies 0 2 (dlit (1 / 2) * dlit (12 / 10))" by (rule mul_to_pos [OF lits(2,3)]) simp_all
  then have "lies 0 2 (dlit (1 / 2) * dlit (12 / 10) * dlit (29 / 100))" by (rule mul_to_pos [OF _ lits(4)]) simp_all
  then have "lies 0 6 (dlit (1 / 2) * dlit (12 / 10) * dlit (29 / 100) * dlit (23 / 10))" by (rule mul_to_pos [OF _ lits(5)]) simp_all
  then have "lies 0 1200 (dlit (1 / 2) * dlit (12 / 10) * dlit (29 / 100) * dlit (23 / 10) * v)" by (rule mul_to_pos [OF _ v]) simp_all
  then have f2: "lies 0 240000 (dlit (1 / 2) * dlit (12 / 10) * dlit (29 / 100) * dlit (23 / 10) * v * v)"
    by (rule mul_to_pos [OF _ v]) simp_all
  have "lies 0 1500 (dlit (12 / 1000) * dlit 1500)" by (rule mul_to_pos [OF lits(6,1)]) simp_all
  then have "lies 0 15000 (dlit (12 / 1000) * dlit 1500 * dlit (981 / 100))" by (rule mul_to_pos [OF _ lits(7)]) simp_all
  moreover have "lies 0 1 (of_long (if v > dlit (1 / 10) then 1 else 0))" by (simp add: of_long_FNum)
  ultimately have f3: "lies 0 15000 (dlit (12 / 1000) * dlit 1500 * dlit (981 / 100) * of_long (if v > dlit (1 / 10) then 1 else 0))"
    by (rule mul_to_pos) simp_all
  show ?thesis
    unfolding sim_force_def by (rule add_to [OF add_to [OF f1 f2 order.refl order.refl] f3]) simp_all
qed

lemma limit_lies:
  assumes "lies (- 15411000000) 15411000000 v"
  shows "lies (- 60) 120 (sim_limit v)"
proof -
  have six: "lies 0 1 (dlit (6 / 10))" by (rule literal_lies) simp_all
  have "lies (- 15411000000) 15411000000 (if v < FNum 0 then v * dlit (6 / 10) else v)"
    by (intro if_lies assms mul_to [OF assms six, where m = 15411000000 and k = 1]) simp_all
  then obtain q where q: "(if v < FNum 0 then v * dlit (6 / 10) else v) = FNum q" by (auto elim!: liesE)
  have d: "dlit (- 60) = FNum (- 60)" "dlit 120 = FNum 120" using int_to_f64 [of "- 60"] int_to_f64 [of 120] by simp_all
  show ?thesis unfolding sim_limit_def q Let_def by (simp add: d f64_ops)
qed

lemma power_lies:
  assumes "lies 0 200 speed" "lies (- 51200) 51200 accel"
  shows "lies (- 60) 120 (sim_power speed accel)"
proof -
  have lits: "lies 1 4 (dlit (36 / 10))" "lies 1 1000 (dlit 1000)" "lies (- 60) 120 (dlit (3 / 10))"
    by (rule literal_lies; simp)+
  define v where "v = speed / dlit (36 / 10)"
  have v: "lies 0 200 v" unfolding v_def by (rule div_lies_pos [OF assms(1) lits(1)]) simp
  have "lies (- 15411000000) 15411000000 (sim_force v accel * v)"
    by (rule mul_to [OF force_lies [OF v assms(2)] v, where m = 77055000 and k = 200]) simp_all
  then have "lies (- 15411000000) 15411000000 (sim_force v accel * v / dlit 1000)"
    by (rule div_to [OF _ lits(2), where m = 15411000000]) simp_all
  then have "lies (- 60) 120 (sim_limit (sim_force v accel * v / dlit 1000))" by (rule limit_lies)
  then show ?thesis using lits(3) unfolding sim_power_def Let_def v_def by (intro if_lies)
qed

text \<open>The filter moves towards its input, and the rounding cannot carry it far beyond.\<close>

lemma filter_lies:
  assumes "lies (- 60) 120 p" "lies (- 61) 121 f"
  shows "lies (- 61) 121 (f + (p - f) * dlit (15 / 100))"
proof -
  obtain a b where v: "p = FNum a" "- 60 \<le> a" "a \<le> 120" "f = FNum b" "- 61 \<le> b" "b \<le> 121"
    using assms by (auto elim!: liesE)
  define c where "c = rd64 (15 / 100)"
  have c: "dlit (15 / 100) = FNum c" "1 / 8 \<le> c" "c \<le> 1 / 4"
  proof -
    show "dlit (15 / 100) = FNum c" by (simp add: c_def small_to_f64)
    have "rd64 (1 / 8) = 1 / 8" "rd64 (1 / 4) = 1 / 4"
      using rnd_exact [of 1 53 "- 1074" "- 3"] rnd_exact [of 1 53 "- 1074" "- 2"] by (simp_all add: powi_neg_nat)
    then show "1 / 8 \<le> c" "c \<le> 1 / 4"
      using b64.rd_mono [of "1 / 8" "15 / 100"] b64.rd_mono [of "15 / 100" "1 / 4"] by (simp_all add: c_def)
  qed
  define d where "d = rd64 (a - b)"
  have ab: "\<bar>a - b\<bar> \<le> 241" using v by (simp add: abs_le_iff)
  have d: "p - f = FNum d" "\<bar>d - (a - b)\<bar> \<le> 1 / 2 ^ 40"
  proof -
    show "p - f = FNum d" using ab by (simp add: v d_def f64_ops small_to_f64)
    have "\<bar>a - b\<bar> / 2 ^ 53 \<le> 241 / 2 ^ 53" using ab by (intro divide_right_mono) simp_all
    moreover have "241 / 2 ^ 53 + 1 / 2 ^ 200 \<le> 1 / (2 :: rat) ^ 40" by simp
    ultimately show "\<bar>d - (a - b)\<bar> \<le> 1 / 2 ^ 40" using rd64_error [of "a - b"] unfolding d_def by linarith
  qed
  define m where "m = rd64 (d * c)"
  have dc: "\<bar>d * c\<bar> \<le> 61"
  proof -
    have "\<bar>d\<bar> \<le> \<bar>a - b\<bar> + \<bar>d - (a - b)\<bar>" by linarith
    moreover have "1 / 2 ^ 40 \<le> (1 :: rat)" by simp
    ultimately have "\<bar>d\<bar> \<le> 242" using ab d(2) by linarith
    then have "\<bar>d\<bar> * \<bar>c\<bar> \<le> 242 * (1 / 4)" using c by (intro mult_mono) simp_all
    then show ?thesis by (simp add: abs_mult)
  qed
  have m: "(p - f) * dlit (15 / 100) = FNum m" "\<bar>m - d * c\<bar> \<le> 1 / 2 ^ 40"
  proof -
    show "(p - f) * dlit (15 / 100) = FNum m" using dc by (simp only: d(1) c(1)) (simp add: m_def f64_ops small_to_f64)
    have "\<bar>d * c\<bar> / 2 ^ 53 \<le> 61 / 2 ^ 53" using dc by (intro divide_right_mono) simp_all
    moreover have "61 / 2 ^ 53 + 1 / 2 ^ 200 \<le> 1 / (2 :: rat) ^ 40" by simp
    ultimately show "\<bar>m - d * c\<bar> \<le> 1 / 2 ^ 40" using rd64_error [of "d * c"] unfolding m_def by linarith
  qed
  have "- 61 \<le> b + m \<and> b + m \<le> 121"
  proof -
    have e: "\<bar>d * c - (a - b) * c\<bar> \<le> 1 / 2 ^ 40"
    proof -
      have "\<bar>d - (a - b)\<bar> * \<bar>c\<bar> \<le> 1 / 2 ^ 40 * 1" using d(2) c by (intro mult_mono) simp_all
      then show ?thesis by (simp add: abs_mult left_diff_distrib [symmetric])
    qed
    have up: "(a - b) * c \<le> (120 - b) * c" "(- 60 - b) * c \<le> (a - b) * c" using v c by (intro mult_right_mono; simp)+
    have "b + (120 - b) * c \<le> 120 + (1 - 1 / 8)"
    proof (cases "b \<le> 120")
      case True
      then have "(120 - b) * c \<le> (120 - b) * 1" using c by (intro mult_left_mono) simp_all
      then show ?thesis by simp
    next
      case False
      then have "(120 - b) * c \<le> (120 - b) * (1 / 8)" using c by (intro mult_left_mono_neg) simp_all
      then show ?thesis using v by simp
    qed
    moreover have "- 60 - (1 - 1 / 8) \<le> b + (- 60 - b) * c"
    proof (cases "- 60 \<le> b")
      case True
      then have "(- 60 - b) * 1 \<le> (- 60 - b) * c" using c by (intro mult_left_mono_neg) simp_all
      then show ?thesis by simp
    next
      case False
      then have "(- 60 - b) * (1 / 8) \<le> (- 60 - b) * c" using c by (intro mult_left_mono) simp_all
      then show ?thesis using v by simp
    qed
    moreover have "1 / 2 ^ 40 \<le> (1 / 32 :: rat)" by simp
    ultimately show ?thesis using up e m(2) by linarith
  qed
  then have "lies (- 61) 121 (to_f64 (b + m))" by (intro rounded_lies) simp_all
  then show ?thesis unfolding m(1) by (simp add: v f64_ops)
qed

section \<open>Consumption\<close>

lemma distance_lies:
  assumes "lies 0 200 speed" "5 \<le> k" "k \<le> 1000"
  shows "lies 0 1 (speed * (FNum (of_int k) / dlit 3600000))"
proof -
  obtain h where h: "FNum (of_int k) / dlit 3600000 = FNum h" "0 \<le> h" "h \<le> 1 / 1800" by (rule tick_hours [OF assms(2,3)])
  obtain s where s: "speed = FNum s" "0 \<le> s" "s \<le> 200" using assms(1) by (auto elim!: liesE)
  obtain q where "FNum s * FNum h = FNum q" "\<bar>q\<bar> \<le> 2 * (200 * (1 / 1800))" "0 \<le> s * h \<Longrightarrow> 0 \<le> q"
    using small_product [of s 200 h "1 / 1800"] s h by auto
  then show ?thesis using s h by (simp add: abs_le_iff)
qed

lemma charge_lies:
  assumes "lies (- 61) 121 f" "5 \<le> k" "k \<le> 1000"
  shows "lies (- 1) 1 (f * (FNum (of_int k) / dlit 3600000) / dlit 64 * dlit 100)"
proof -
  obtain h where h: "FNum (of_int k) / dlit 3600000 = FNum h" "0 \<le> h" "h \<le> 1 / 1800" by (rule tick_hours [OF assms(2,3)])
  obtain p where p: "f = FNum p" "\<bar>p\<bar> \<le> 121" using assms(1) by (auto elim!: liesE simp: abs_le_iff)
  have d: "dlit 64 = FNum 64" "dlit 100 = FNum 100" using int_to_f64 [of 64] int_to_f64 [of 100] by simp_all
  obtain q where q: "FNum p * FNum h = FNum q" "\<bar>q\<bar> \<le> 2 * (121 * (1 / 1800))"
    using small_product [of p 121 h "1 / 1800"] p h by auto
  then obtain r where r: "FNum q / FNum 64 = FNum r" "\<bar>r\<bar> \<le> 2 * (242 / 1800 / 64)"
    using small_quotient [of q "242 / 1800" 64] by auto
  then obtain u where u: "FNum r * FNum 100 = FNum u" "\<bar>u\<bar> \<le> 2 * (484 / 1800 / 64 * 100)"
    using small_product [of r "484 / 1800 / 64" 100 100] by auto
  have "- 1 \<le> u \<and> u \<le> 1" using u(2) by linarith
  then show ?thesis by (simp add: p(1) h(1) d q(1) r(1) u(1))
qed

lemma energy_lies:
  assumes "lies (- 61) 121 f" "5 \<le> k" "k \<le> 1000"
  shows "lies (- 300) 300 (f * dlit 1000 * (FNum (of_int k) / dlit 3600000))"
proof -
  obtain h where h: "FNum (of_int k) / dlit 3600000 = FNum h" "0 \<le> h" "h \<le> 1 / 1800" by (rule tick_hours [OF assms(2,3)])
  have "lies 0 1000 (dlit 1000)" by (rule literal_lies) simp_all
  then have "lies (- 121000) 121000 (f * dlit 1000)" by (rule mul_to [OF assms(1), where m = 121 and k = 1000]) simp_all
  then obtain p where p: "f * dlit 1000 = FNum p" "\<bar>p\<bar> \<le> 121000" by (auto elim!: liesE simp: abs_le_iff)
  obtain q where q: "FNum p * FNum h = FNum q" "\<bar>q\<bar> \<le> 2 * (121000 * (1 / 1800))"
    using small_product [of p 121000 h "1 / 1800"] p h by auto
  have "- 300 \<le> q \<and> q \<le> 300" using q(2) by linarith
  then show ?thesis by (simp add: p(1) h(1) q(1))
qed

lemma burn_lies:
  assumes "lies (- 61) 121 f" "5 \<le> k" "k \<le> 1000"
  shows "lies 0 5 ((dlit (1 / 2) + (if f > FNum 0 then f else FNum 0) * dlit (5 / 100)) * FNum (of_int k) / dlit 60000)"
proof -
  have lits: "lies 0 1 (dlit (1 / 2))" "lies 0 1 (dlit (5 / 100))" by (rule literal_lies; simp)+
  have d: "dlit 60000 = FNum 60000" using int_to_f64 [of 60000] by simp
  have "lies 0 121 (if f > FNum 0 then f else FNum 0)"
    using assms(1) by (auto elim!: liesE simp: f64_ops)
  then have "lies 0 121 ((if f > FNum 0 then f else FNum 0) * dlit (5 / 100))" by (rule mul_to_pos [OF _ lits(2)]) simp_all
  then have s: "lies 0 122 (dlit (1 / 2) + (if f > FNum 0 then f else FNum 0) * dlit (5 / 100))"
    by (rule add_to [OF lits(1)]) simp_all
  have "lies 0 1000 (FNum (of_int k))" using assms(2,3) by simp
  then have "lies 0 122000 ((dlit (1 / 2) + (if f > FNum 0 then f else FNum 0) * dlit (5 / 100)) * FNum (of_int k))"
    by (rule mul_to_pos [OF s]) simp_all
  then obtain p where p: "(dlit (1 / 2) + (if f > FNum 0 then f else FNum 0) * dlit (5 / 100)) * FNum (of_int k) = FNum p"
      "0 \<le> p" "p \<le> 122000" by (auto elim!: liesE)
  obtain q where "FNum p / FNum 60000 = FNum q" "\<bar>q\<bar> \<le> 2 * (122000 / 60000)" "0 \<le> p \<Longrightarrow> 0 \<le> q"
    using small_quotient [of p 122000 60000] p by auto
  then show ?thesis using p(2) unfolding p(1) d by (simp add: abs_le_iff)
qed

lemma refill_lies:
  assumes "lies a b v" "of_int lo \<le> (m :: rat)" "m \<le> of_int b" "dlit c = FNum m" "dlit (of_int lo) = FNum (of_int lo)"
  shows "lies lo b (if v < dlit (of_int lo) then dlit c else v)"
  using assms by (elim liesE) (simp add: f64_ops not_less)

lemma consume_fields:
  "y_odo (sim_consume dt speed x) = y_odo x + speed * (dt / dlit 3600000)"
  "y_soc (sim_consume dt speed x) =
     (if electric x then (let s = y_soc x - y_powerFiltered x * (dt / dlit 3600000) / dlit 64 * dlit 100
        in if s < dlit 5 then dlit 80 else s) else y_soc x)"
  "y_tripWh (sim_consume dt speed x) =
     (if electric x then y_tripWh x + y_powerFiltered x * dlit 1000 * (dt / dlit 3600000) else y_tripWh x)"
  "y_tripKm (sim_consume dt speed x) = (if electric x then y_tripKm x + speed * (dt / dlit 3600000) else y_tripKm x)"
  "y_fuel (sim_consume dt speed x) =
     (if combustion x then (let f = y_fuel x - (dlit (1 / 2) + (if y_powerFiltered x > FNum 0 then y_powerFiltered x else FNum 0) *
          dlit (5 / 100)) * dt / dlit 60000 in if f < dlit 3 then dlit 75 else f) else y_fuel x)"
  "y_phase (sim_consume dt speed x) = y_phase x" "y_phaseElapsedMs (sim_consume dt speed x) = y_phaseElapsedMs x"
  "y_elapsedMs (sim_consume dt speed x) = y_elapsedMs x" "y_tickMs (sim_consume dt speed x) = y_tickMs x"
  "y_powerFiltered (sim_consume dt speed x) = y_powerFiltered x" "y_lastSpeed (sim_consume dt speed x) = y_lastSpeed x"
  "y_drivetrain (sim_consume dt speed x) = y_drivetrain x" "y_assist (sim_consume dt speed x) = y_assist x"
  "y_stallAfterMs (sim_consume dt speed x) = y_stallAfterMs x"
  by (simp_all add: sim_consume_def sim_charge_def sim_burn_def Let_def electric_def combustion_def)

lemma consume_ok:
  assumes "lies 5 (80 + n) (y_soc x)" "lies 3 75 (y_fuel x)" "lies 0 (10568 + n) (y_odo x)" "lies (- 61) 121 (y_powerFiltered x)"
    "lies (- (150 + 300 * n)) (150 + 300 * n) (y_tripWh x)" "lies 1 (1 + n) (y_tripKm x)" "lies 0 200 speed"
    "5 \<le> k" "k \<le> 1000" "0 \<le> n" "n \<le> 2 ^ 33" "y = sim_consume (FNum (of_int k)) speed x"
  shows "lies 5 (80 + (n + 1)) (y_soc y) \<and> lies 3 75 (y_fuel y) \<and> lies 0 (10568 + (n + 1)) (y_odo y) \<and>
    lies (- (150 + 300 * (n + 1))) (150 + 300 * (n + 1)) (y_tripWh y) \<and> lies 1 (1 + (n + 1)) (y_tripKm y)"
proof (intro conjI)
  have n: "n \<le> 8589934592" using assms(11) by simp
  note far = distance_lies [OF assms(7-9)]
  note d = int_to_f64 [of 5, simplified] int_to_f64 [of 80, simplified] int_to_f64 [of 3, simplified] int_to_f64 [of 75, simplified]
  show "lies 0 (10568 + (n + 1)) (y_odo y)"
    unfolding assms(12) consume_fields by (rule add_to [OF assms(3) far]) (use n assms(10) in simp_all)
  show "lies 1 (1 + (n + 1)) (y_tripKm y)"
    unfolding assms(12) consume_fields
    by (intro if_lies add_to [OF assms(6) far] lies_weaken [OF assms(6)]) (use n assms(10) in simp_all)
  show "lies (- (150 + 300 * (n + 1))) (150 + 300 * (n + 1)) (y_tripWh y)"
    unfolding assms(12) consume_fields
    by (intro if_lies add_to [OF assms(5) energy_lies [OF assms(4,8,9)]] lies_weaken [OF assms(5)]) (use n assms(10) in simp_all)
  have "lies 4 (80 + (n + 1)) (y_soc x - y_powerFiltered x * (FNum (of_int k) / dlit 3600000) / dlit 64 * dlit 100)"
    by (rule sub_to [OF assms(1) charge_lies [OF assms(4,8,9)]]) (use n assms(10) in simp_all)
  then have soc: "lies 5 (80 + (n + 1)) (if y_soc x - y_powerFiltered x * (FNum (of_int k) / dlit 3600000) / dlit 64 * dlit 100 < dlit 5
      then dlit 80 else y_soc x - y_powerFiltered x * (FNum (of_int k) / dlit 3600000) / dlit 64 * dlit 100)"
    using refill_lies [of 4 "80 + (n + 1)" _ 5 80 80] assms(10) by (simp add: d)
  show "lies 5 (80 + (n + 1)) (y_soc y)"
    unfolding assms(12) consume_fields Let_def
    by (rule if_lies [OF soc]) (rule lies_weaken [OF assms(1)], simp_all)
  have "lies (- 2) 75 (y_fuel x - (dlit (1 / 2) + (if y_powerFiltered x > FNum 0 then y_powerFiltered x else FNum 0) *
      dlit (5 / 100)) * FNum (of_int k) / dlit 60000)"
    by (rule sub_to [OF assms(2) burn_lies [OF assms(4,8,9)]]) simp_all
  then have "lies 3 75 (if y_fuel x - (dlit (1 / 2) + (if y_powerFiltered x > FNum 0 then y_powerFiltered x else FNum 0) *
      dlit (5 / 100)) * FNum (of_int k) / dlit 60000 < dlit 3 then dlit 75 else
      y_fuel x - (dlit (1 / 2) + (if y_powerFiltered x > FNum 0 then y_powerFiltered x else FNum 0) *
      dlit (5 / 100)) * FNum (of_int k) / dlit 60000)"
    using refill_lies [of "- 2" 75 _ 3 75 75] by (simp only: of_int_numeral d order.refl)
  then show "lies 3 75 (y_fuel y)"
    unfolding assms(12) consume_fields Let_def by (rule if_lies) (rule assms(2))
qed

section \<open>What is published\<close>

text \<open>The bounds of the state that is published after a step.\<close>

definition sim_bounds :: "int \<Rightarrow> Sim \<Rightarrow> bool" where
  "sim_bounds n x \<longleftrightarrow> y_phase x < kPhaseCount \<and> lies 5 (80 + n) (y_soc x) \<and> lies 3 75 (y_fuel x) \<and> lies 0 (10568 + n) (y_odo x) \<and>
     lies (- 61) 121 (y_powerFiltered x) \<and> lies (- (150 + 300 * n)) (150 + 300 * n) (y_tripWh x) \<and> lies 1 (1 + n) (y_tripKm x)"

lemma eco_defined:
  assumes "lies (- 61) 121 (y_powerFiltered x)"
  shows "\<exists>eco. sim_eco x = Some eco \<and> 0 \<le> eco \<and> eco \<le> 100"
proof -
  obtain p where p: "y_powerFiltered x = FNum p" "- 61 \<le> p" "p \<le> 121" using assms by (auto elim!: liesE)
  have d: "dlit 100 = FNum 100" using int_to_f64 [of 100] by simp
  define a where "a = (if \<bar>p\<bar> > 100 then 100 else \<bar>p\<bar>)"
  have a: "0 \<le> a" "a \<le> 100" by (simp_all add: a_def)
  have "sim_eco x = f64_to_int (FNum 100 - FNum a)"
    by (simp add: sim_eco_def Let_def p(1) d a_def f64_ops abs_if)
  moreover have "FNum 100 - FNum a = FNum (rd64 (100 - a))" "0 \<le> rd64 (100 - a)" "rd64 (100 - a) \<le> 100"
    using a rd64_between [of 0 "100 - a" 100] by (simp_all add: f64_ops small_to_f64)
  ultimately show ?thesis
    by (simp add: f64_to_int_def rat_trunc_nonneg in_long_def floor_le_iff)
qed

lemma range_divisor:
  assumes "lies (- m) m c" "80 \<le> m"
  shows "lies 1 m (if c > dlit 80 then c else dlit 80)"
proof -
  have d: "dlit 80 = FNum 80" using int_to_f64 [of 80] by simp
  have "rat_of_int 80 \<le> of_int m" using assms(2) by (simp only: of_int_le_iff)
  then show ?thesis using assms(1) by (elim liesE) (simp add: d f64_ops)
qed

lemma sim_numbers:
  assumes "sim_bounds n x" "0 \<le> n" "n \<le> 2 ^ 33" "lies 0 200 speed" "lies 0 1 t"
  shows "encodable speed" "encodable (speed * dlit 75)" "encodable (interpolate (rpm0 (kPhases ! y_phase x)) (rpm1 (kPhases ! y_phase x)) t)"
    "encodable (interpolate (tmp0 (kPhases ! y_phase x)) (tmp1 (kPhases ! y_phase x)) t)"
    "encodable (y_powerFiltered x)" "encodable (dlit 340 + y_soc x * dlit (6 / 10))"
    "encodable (y_powerFiltered x * dlit 1000 / (dlit 340 + y_soc x * dlit (6 / 10)))" "encodable (y_soc x)" "encodable (dlit 97)"
    "encodable (y_tripWh x / y_tripKm x)"
    "encodable (y_soc x / dlit 100 * dlit 64000 / (if y_tripWh x / y_tripKm x > dlit 80 then y_tripWh x / y_tripKm x else dlit 80))"
    "encodable (y_odo x)" "encodable (dlit 23)" "encodable (dlit (215 / 10))" "encodable (dlit 35 + speed * dlit (5 / 100))"
    "encodable (y_fuel x)" "encodable (dlit (126 / 10) + dlit (16 / 10))" "encodable (dlit (126 / 10) + FNum 0)"
    "encodable (dlit 25 + speed * dlit (6 / 10))"
proof -
  have n: "n \<le> 8589934592" using assms(3) by simp
  have b: "y_phase x < kPhaseCount" "lies 5 (80 + n) (y_soc x)" "lies 3 75 (y_fuel x)" "lies 0 (10568 + n) (y_odo x)"
     "lies (- 61) 121 (y_powerFiltered x)" "lies (- (150 + 300 * n)) (150 + 300 * n) (y_tripWh x)" "lies 1 (1 + n) (y_tripKm x)"
    using assms(1) by (simp_all add: sim_bounds_def)
  have lits: "lies 0 75 (dlit 75)" "lies 340 340 (dlit 340)" "lies 0 1 (dlit (6 / 10))" "lies 0 1000 (dlit 1000)" "lies 0 100 (dlit 97)"
    "lies 1 100 (dlit 100)" "lies 0 64000 (dlit 64000)" "lies 0 23 (dlit 23)" "lies 0 22 (dlit (215 / 10))" "lies 0 35 (dlit 35)"
    "lies 0 1 (dlit (5 / 100))" "lies 0 13 (dlit (126 / 10))" "lies 0 2 (dlit (16 / 10))" "lies 0 25 (dlit 25)"
    by (rule literal_lies; simp)+
  note q = phase_facts [OF b(1)]
  show "encodable speed" by (rule lies_encodable [OF assms(4)]) simp_all
  show "encodable (speed * dlit 75)" by (rule lies_encodable [OF mul_to_pos [OF assms(4) lits(1) _ order.refl order.refl]]) simp_all
  show "encodable (interpolate (rpm0 (kPhases ! y_phase x)) (rpm1 (kPhases ! y_phase x)) t)"
    by (rule lies_encodable [OF interpolate_lies [of _ 5500]]) (use q assms(5) in simp_all)
  show "encodable (interpolate (tmp0 (kPhases ! y_phase x)) (tmp1 (kPhases ! y_phase x)) t)"
    by (rule lies_encodable [OF interpolate_lies [of _ 100]]) (use q assms(5) in simp_all)
  show "encodable (y_powerFiltered x)" by (rule lies_encodable [OF b(5)]) simp_all
  have s: "lies 0 (80 + n) (y_soc x)" by (rule lies_weaken [OF b(2)]) simp_all
  have "lies 0 (80 + n) (y_soc x * dlit (6 / 10))" by (rule mul_to_pos [OF s lits(3)]) (use n assms(2) in simp_all)
  then have v: "lies 340 (420 + n) (dlit 340 + y_soc x * dlit (6 / 10))" by (rule add_to [OF lits(2)]) (use n assms(2) in simp_all)
  show "encodable (dlit 340 + y_soc x * dlit (6 / 10))" by (rule lies_encodable [OF v]) (use n in simp_all)
  have a: "lies (- 121000) 121000 (y_powerFiltered x * dlit 1000)" by (rule mul_to [OF b(5) lits(4), where m = 121 and k = 1000]) simp_all
  have v1: "lies 1 (420 + n) (dlit 340 + y_soc x * dlit (6 / 10))" by (rule lies_weaken [OF v]) simp_all
  show "encodable (y_powerFiltered x * dlit 1000 / (dlit 340 + y_soc x * dlit (6 / 10)))"
    by (rule lies_encodable [OF div_to [OF a v1, where m = 121000, OF _ _ _ _ order.refl order.refl]]) simp_all
  show "encodable (y_soc x)" by (rule lies_encodable [OF b(2)]) (use n in simp_all)
  show "encodable (dlit 97)" by (rule lies_encodable [OF lits(5)]) simp_all
  have c: "lies (- (150 + 300 * n)) (150 + 300 * n) (y_tripWh x / y_tripKm x)"
    by (rule div_to [OF b(6,7), where m = "150 + 300 * n"]) (use n assms(2) in simp_all)
  show "encodable (y_tripWh x / y_tripKm x)" by (rule lies_encodable [OF c]) (use n assms(2) in simp_all)
  have "lies 0 (80 + n) (y_soc x / dlit 100)" by (rule div_lies_pos [OF s lits(6)]) (use n in simp)
  then have "lies 0 ((80 + n) * 64000) (y_soc x / dlit 100 * dlit 64000)" by (rule mul_to_pos [OF _ lits(7)]) (use n in simp_all)
  then have "lies 0 ((80 + n) * 64000) (y_soc x / dlit 100 * dlit 64000 / (if y_tripWh x / y_tripKm x > dlit 80 then y_tripWh x / y_tripKm x else dlit 80))"
    by (rule div_lies_pos [OF _ range_divisor [OF c]]) (use n assms(2) in simp_all)
  then show "encodable (y_soc x / dlit 100 * dlit 64000 / (if y_tripWh x / y_tripKm x > dlit 80 then y_tripWh x / y_tripKm x else dlit 80))"
    by (rule lies_encodable) (use n in simp_all)
  show "encodable (y_odo x)" by (rule lies_encodable [OF b(4)]) (use n in simp_all)
  show "encodable (dlit 23)" "encodable (dlit (215 / 10))" using lies_encodable [OF lits(8)] lies_encodable [OF lits(9)] by simp_all
  have "lies 0 200 (speed * dlit (5 / 100))" by (rule mul_to_pos [OF assms(4) lits(11)]) simp_all
  then show "encodable (dlit 35 + speed * dlit (5 / 100))"
    by (rule lies_encodable [OF add_to [OF lits(10) _ order.refl order.refl]]) simp_all
  show "encodable (y_fuel x)" by (rule lies_encodable [OF b(3)]) simp_all
  show "encodable (dlit (126 / 10) + dlit (16 / 10))"
    by (rule lies_encodable [OF add_to [OF lits(12,13) order.refl order.refl]]) simp_all
  show "encodable (dlit (126 / 10) + FNum 0)"
    by (rule lies_encodable [OF add_to [OF lits(12), of 0 0 _ 0 13]]) simp_all
  have "lies 0 200 (speed * dlit (6 / 10))" by (rule mul_to_pos [OF assms(4) lits(3)]) simp_all
  then show "encodable (dlit 25 + speed * dlit (6 / 10))"
    by (rule lies_encodable [OF add_to [OF lits(14) _ order.refl order.refl]]) simp_all
qed

lemma sim_state_ok:
  assumes "sim_bounds n x" "0 \<le> n" "n \<le> 2 ^ 33" "lies 0 200 speed" "lies 0 1 t"
  shows "\<exists>s. sim_state speed accel t x = Some s \<and> honest s \<and> s_valid s = sim_capable x \<and> s_capable s = sim_capable x"
proof -
  obtain eco where eco: "sim_eco x = Some eco" using eco_defined [of x] assms(1) by (auto simp: sim_bounds_def)
  then obtain s where s: "sim_state speed accel t x = Some s" by (simp add: sim_state_def Let_def)
  have bits: "s_valid s = sim_capable x" "s_capable s = sim_capable x"
    using s eco by (auto simp: sim_state_def Let_def)
  have enums: "s_gear s = CP_GEAR_D \<or> s_gear s = CP_GEAR_P" "s_power_state s = CP_POWER_READY" "s_charging_state s = CP_CHARGING_NONE"
    using s eco by (auto simp: sim_state_def Let_def)
  have "all_encodable s"
    using s eco sim_numbers [OF assms]
    by (auto simp: sim_state_def Let_def all_encodable_def canproxy_signals_def zero_vehicle_state_def simp del: encodable.simps)
  moreover have "enum_in_range s sig" for sig
    using enums by (cases sig) (auto simp: contract_consts)
  ultimately have "honest s" by (simp add: honest_def valid_sig_def capable_sig_def bits)
  then show ?thesis using s bits by blast
qed

text \<open>What one call of \<open>publish\<close> sends, if the conversion of the eco score is defined.\<close>

definition sim_published :: "f64 \<times> f64 \<times> f64 \<times> Sim \<Rightarrow> canproxy_vehicle_state" where
  "sim_published p = (case p of (speed, accel, t, x) \<Rightarrow>
     (case sim_state speed accel t x of Some s \<Rightarrow> s | None \<Rightarrow> zero_vehicle_state))"

definition sim_fit :: "f64 \<times> f64 \<times> f64 \<times> Sim \<Rightarrow> bool" where
  "sim_fit p \<longleftrightarrow> (case p of (speed, accel, t, x) \<Rightarrow>
     lies 0 200 speed \<and> lies 0 1 t \<and> (\<exists>n. sim_bounds n x \<and> 0 \<le> n \<and> n \<le> 2 ^ 33))"

lemma sim_fit_honest: "sim_fit p \<Longrightarrow> honest (sim_published p)"
proof -
  assume f: "sim_fit p"
  obtain speed accel t x where p: "p = (speed, accel, t, x)" by (metis prod_cases4)
  obtain n where "sim_bounds n x" "0 \<le> n" "n \<le> 2 ^ 33" "lies 0 200 speed" "lies 0 1 t" using f by (auto simp: p sim_fit_def)
  then obtain s where "sim_state speed accel t x = Some s" "honest s" using sim_state_ok by blast
  then show ?thesis by (simp add: p sim_published_def)
qed

interpretation sim: source_plugin sim_published sim_fit
  by (rule source_pluginI) (rule sim_fit_honest)

section \<open>Steps and runs\<close>

lemma sim_step_ok:
  assumes "sim_ok n x" "0 \<le> n" "n < 2 ^ 33"
  shows "\<exists>p y. sim_step (of_long (y_tickMs x)) x = Some (sim_published p, y) \<and> sim_fit p \<and>
    s_valid (sim_published p) = sim_capable x \<and> sim_ok (n + 1) y \<and> sim_capable y = sim_capable x \<and>
    y_tickMs y = y_tickMs x \<and> y_stallAfterMs y = y_stallAfterMs x"
proof -
  let ?k = "y_tickMs x" and ?dt = "FNum (of_int (y_tickMs x))"
  have k: "5 \<le> ?k" "?k \<le> 1000" using assms(1) by (simp_all add: sim_ok_def)
  have n: "n \<le> 2 ^ 33" "n + 1 \<le> 2 ^ 33" using assms(3) by simp_all
  have dt: "of_long ?k = ?dt" using k by (intro of_long_FNum) simp
  define a where "a = sim_enter ?dt (sim_clock ?dt x)"
  have clock: "y_phase a < kPhaseCount" "y_elapsedMs a = FNum (of_int ((n + 1) * ?k))"
      "\<exists>e. y_phaseElapsedMs a = FNum (of_int e) \<and> 0 \<le> e \<and> e < durMs (kPhases ! y_phase a)"
    using clock_ok [OF assms(1,2) n(1) refl] by (simp_all add: a_def enter_keeps)
  note kept = enter_keeps clock_keeps
  define t where "t = y_phaseElapsedMs a / of_long (durMs (kPhases ! y_phase a))"
  note q = phase_facts [OF clock(1)]
  have t: "lies 0 1 t"
  proof -
    obtain e where e: "y_phaseElapsedMs a = FNum (of_int e)" "0 \<le> e" "e < durMs (kPhases ! y_phase a)" using clock(3) by blast
    let ?d = "durMs (kPhases ! y_phase a)"
    have d: "of_long ?d = FNum (of_int ?d)" using q by (intro of_long_FNum) simp
    have "0 \<le> rat_of_int e / of_int ?d" "rat_of_int e / of_int ?d \<le> 1" using e q by (simp_all add: divide_le_eq)
    then have "lies 0 1 (to_f64 (of_int e / of_int ?d))" by (intro rounded_lies) simp_all
    then show ?thesis using q by (simp add: t_def e(1) d f64_ops)
  qed
  define speed where "speed = interpolate (spd0 (kPhases ! y_phase a)) (spd1 (kPhases ! y_phase a)) t"
  have speed: "lies 0 200 speed" unfolding speed_def by (rule interpolate_lies [OF _ _ _ _ _ t]) (use q in simp_all)
  define accel where "accel = (speed - y_lastSpeed a) / dlit (36 / 10) / (?dt / dlit 1000)"
  have accel: "lies (- 51200) 51200 accel"
    unfolding accel_def by (rule acceleration_lies [OF speed _ k]) (use assms(1) in \<open>simp add: a_def kept sim_ok_def\<close>)
  define b where "b = a\<lparr> y_lastSpeed := speed,
    y_powerFiltered := y_powerFiltered a + (sim_power speed accel - y_powerFiltered a) * dlit (15 / 100) \<rparr>"
  have pf: "lies (- 61) 121 (y_powerFiltered b)"
    unfolding b_def using filter_lies [OF power_lies [OF speed accel], of "y_powerFiltered a"] assms(1) by (simp add: a_def kept sim_ok_def)
  define y where "y = sim_consume ?dt speed b"
  have bx: "y_soc b = y_soc x" "y_fuel b = y_fuel x" "y_odo b = y_odo x" "y_tripWh b = y_tripWh x" "y_tripKm b = y_tripKm x"
    "y_tickMs b = ?k" "y_drivetrain b = y_drivetrain x" "y_assist b = y_assist x" "y_stallAfterMs b = y_stallAfterMs x"
    "y_phase b = y_phase a" "y_phaseElapsedMs b = y_phaseElapsedMs a" "y_elapsedMs b = y_elapsedMs a" "y_lastSpeed b = speed"
    by (simp_all add: b_def a_def kept)
  have c: "lies 5 (80 + (n + 1)) (y_soc y) \<and> lies 3 75 (y_fuel y) \<and> lies 0 (10568 + (n + 1)) (y_odo y) \<and>
    lies (- (150 + 300 * (n + 1))) (150 + 300 * (n + 1)) (y_tripWh y) \<and> lies 1 (1 + (n + 1)) (y_tripKm y)"
    by (rule consume_ok [OF _ _ _ pf _ _ speed k assms(2) n(1) y_def]) (use assms(1) in \<open>simp_all add: bx sim_ok_def\<close>)
  have bounds: "sim_bounds (n + 1) y" using c pf clock(1) by (simp add: sim_bounds_def y_def consume_fields bx)
  obtain s where s: "sim_state speed accel t y = Some s" "s_valid s = sim_capable y"
    using sim_state_ok [OF bounds _ n(2) speed t, of accel] assms(2) by auto
  have "sim_step (of_long ?k) x = map_option (\<lambda>s. (s, y)) (sim_state speed accel t y)"
    unfolding sim_step_def Let_def dt a_def [symmetric] t_def [symmetric] speed_def [symmetric] accel_def [symmetric]
    by (simp add: y_def b_def)
  then have step: "sim_step (of_long ?k) x = Some (s, y)" by (simp add: s(1))
  have same: "sim_capable y = sim_capable x"
    by (simp add: sim_capable_def electric_def combustion_def y_def consume_fields bx)
  have "sim_fit (speed, accel, t, y)" using bounds speed t assms(2) n(2) by (auto simp: sim_fit_def intro!: exI [of _ "n + 1"])
  moreover have "sim_published (speed, accel, t, y) = s" by (simp add: sim_published_def s(1))
  moreover have "sim_ok (n + 1) y"
    using c pf clock speed k by (simp add: sim_ok_def y_def consume_fields bx)
  ultimately show ?thesis using step same s(2) by (auto simp: y_def consume_fields bx intro!: exI [of _ "(speed, accel, t, y)"])
qed

text \<open>After how many of the first steps the state is published.\<close>

definition sim_publishes :: "Sim \<Rightarrow> int \<Rightarrow> bool" where
  "sim_publishes x i \<longleftrightarrow> y_stallAfterMs x < 0 \<or> i * y_tickMs x < y_stallAfterMs x"

lemma stalls_iff:
  assumes "sim_ok n x" "0 \<le> n" "y_stallAfterMs x \<le> 2 ^ 53"
  shows "stalls x \<longleftrightarrow> \<not> sim_publishes x n"
proof (cases "y_stallAfterMs x < 0")
  case False
  then have "of_long (y_stallAfterMs x) = FNum (of_int (y_stallAfterMs x))" using assms(3) by (intro of_long_FNum) simp
  moreover have "y_elapsedMs x = FNum (of_int (n * y_tickMs x))" using assms(1) by (simp add: sim_ok_def)
  ultimately have "stalls x \<longleftrightarrow> y_stallAfterMs x \<le> n * y_tickMs x"
    using False by (simp only: stalls_def less_eq_f64_def f64_leq.simps of_int_le_iff) simp
  then show ?thesis using False by (simp add: sim_publishes_def not_less)
qed (simp add: stalls_def sim_publishes_def)

definition sim_sent :: "Sim \<Rightarrow> canproxy_vehicle_state \<Rightarrow> bool" where
  "sim_sent x s \<longleftrightarrow> (\<exists>p. sim_fit p \<and> s = sim_published p \<and> s_valid s = sim_capable x)"

lemma sim_loop_ok:
  assumes "sim_ok n x" "0 \<le> n" "n + int m \<le> 2 ^ 33" "y_stallAfterMs x \<le> 2 ^ 53"
  shows "\<exists>y calls. sim_loop m stalled x = Some (y, calls) \<and>
    length (published_states calls) = length (filter (sim_publishes x) [n + 1..n + int m]) \<and>
    (\<forall>s \<in> set (published_states calls). sim_sent x s)"
  using assms
proof (induction m arbitrary: n x stalled)
  case (Suc m)
  obtain p z where z: "sim_step (of_long (y_tickMs x)) x = Some (sim_published p, z)" "sim_fit p" "s_valid (sim_published p) = sim_capable x"
      "sim_ok (n + 1) z" "sim_capable z = sim_capable x" "y_tickMs z = y_tickMs x" "y_stallAfterMs z = y_stallAfterMs x"
    using sim_step_ok [OF Suc.prems(1,2)] Suc.prems(3) by auto
  have same: "sim_publishes z = sim_publishes x" "sim_sent z = sim_sent x"
    by (rule ext, simp add: sim_publishes_def sim_sent_def z)+
  have sent: "sim_sent x (sim_published p)" using z(2,3) by (auto simp only: sim_sent_def)
  have st: "stalls z \<longleftrightarrow> \<not> sim_publishes x (n + 1)"
    using stalls_iff [OF z(4)] Suc.prems(2,4) by (simp add: same z(7))
  obtain y calls where y: "sim_loop m (stalled \<or> stalls z) z = Some (y, calls)"
      "length (published_states calls) = length (filter (sim_publishes x) [n + 1 + 1..n + 1 + int m])"
      "\<forall>s \<in> set (published_states calls). sim_sent x s"
    using Suc.IH [OF z(4), of "stalled \<or> stalls z"] Suc.prems(2-4) by (auto simp: same z(5,7))
  have u: "[n + 1..n + int (Suc m)] = (n + 1) # [n + 1 + 1..n + 1 + int m]"
    using upto_rec1 [of "n + 1" "n + int (Suc m)"] by (simp add: algebra_simps)
  show ?case
  proof (cases "stalls z")
    case True
    then show ?thesis unfolding u using y st by (simp add: z(1))
  next
    case False
    then show ?thesis unfolding u using y st sent by (simp add: z(1))
  qed
qed simp

lemma sim_created_ok:
  assumes "simCreate args = Some (said, Some x)"
  shows "sim_ok 0 x"
proof -
  have base: "sim_ok 0 (Sim_new\<lparr> y_drivetrain := d, y_assist := a, y_link := l, y_stallAfterMs := st, y_tickMs := t \<rparr>)"
    if "5 \<le> t" "t \<le> 1000" for d a l st t
    using that int_to_f64 [of 80] int_to_f64 [of 75] int_to_f64 [of 10568] int_to_f64 [of 150] int_to_f64 [of 1]
    by (simp add: sim_ok_def Sim_new_def kPhaseCount_def kPhases_def)
  obtain y a l st t where x: "set_drivetrain (canproxy_arg args ''drivetrain'') Sim_new = Inr y"
      "number_arg args ''tick_ms'' c_atoi (y_tickMs y) = Some t" "\<not> (canproxy_arg args ''tick_ms'' \<noteq> None \<and> (t < 5 \<or> t > 1000))"
      "x = y\<lparr> y_assist := a, y_link := l, y_stallAfterMs := st, y_tickMs := t \<rparr>"
    using assms by (auto simp: simCreate_def Let_def split: option.splits sum.splits bind_splits if_splits)
  obtain d where d: "y = Sim_new\<lparr> y_drivetrain := d \<rparr>"
  proof -
    have "Sim_new = Sim_new\<lparr> y_drivetrain := CP_DRIVETRAIN_BEV \<rparr>" by (simp add: Sim_new_def)
    then show thesis using x(1) that by (auto simp: set_drivetrain_def split: option.splits if_splits)
  qed
  have "5 \<le> t \<and> t \<le> 1000"
    using x(2,3) by (cases "canproxy_arg args ''tick_ms''") (auto simp: number_arg_def d Sim_new_def)
  then show ?thesis using base by (simp add: x(4) d)
qed

section \<open>Properties\<close>

text \<open>
  C20: The simulated drive never fails: for the first 2^33 ticks (five years at the default tick) no step
  is undefined, a state is published at every tick before the stall, and a consumer sees exactly the
  signals of the chosen drivetrain as valid, with the values the simulator computed.
\<close>

theorem sim_always_published:
  assumes "simCreate args = Some (said, Some x)" "y_link x" "y_stallAfterMs x \<le> 2 ^ 53" "int m \<le> 2 ^ 33"
  shows "\<exists>y calls. sim_run m x = Some (y, SetLink 1 # calls) \<and>
    length (published_states calls) = length (filter (sim_publishes x) [1..int m]) \<and>
    (\<forall>s \<in> set (published_states calls). \<exists>f g. framesFrom s on ps cnt ma mi = Some f \<and> through_wire f = Some g \<and>
       (\<forall>sig. sig \<noteq> CANPROXY_SIG_COUNT \<longrightarrow>
          (wire_valid g sig \<longleftrightarrow> on \<and> bit (sim_capable x) (sig_index sig)) \<and> (wire_valid g sig \<longrightarrow> carries s g sig)))"
proof -
  obtain y calls where r: "sim_loop m False x = Some (y, calls)"
      "length (published_states calls) = length (filter (sim_publishes x) [0 + 1..0 + int m])"
      "\<forall>s \<in> set (published_states calls). sim_sent x s"
    using sim_loop_ok [OF sim_created_ok [OF assms(1)] order.refl, of m False] assms(3,4) by auto
  have wire: "\<exists>f g. framesFrom s on ps cnt ma mi = Some f \<and> through_wire f = Some g \<and>
       (\<forall>sig. sig \<noteq> CANPROXY_SIG_COUNT \<longrightarrow>
          (wire_valid g sig \<longleftrightarrow> on \<and> bit (sim_capable x) (sig_index sig)) \<and> (wire_valid g sig \<longrightarrow> carries s g sig))"
    if "s \<in> set (published_states calls)" for s
  proof -
    have "sim_sent x s" using r(3) that by (rule bspec)
    then obtain p where p: "sim_fit p \<and> s = sim_published p \<and> s_valid s = sim_capable x" unfolding sim_sent_def ..
    note e = p [THEN conjunct2, THEN conjunct1] and v = p [THEN conjunct2, THEN conjunct2]
    show ?thesis
      using sim.reaches_consumer [OF p [THEN conjunct1], of on ps cnt ma mi] unfolding v [symmetric] valid_sig_def e [symmetric] .
  qed
  show ?thesis
  proof (rule exI [of _ y], rule exI [of _ calls], intro conjI ballI)
    show "sim_run m x = Some (y, SetLink 1 # calls)" by (simp add: sim_run_def r(1) assms(2))
    show "length (published_states calls) = length (filter (sim_publishes x) [1..int m])" using r(2) by (simp only: add_0)
  qed (rule wire)
qed

theorem sim_always_published_witness:
  "\<exists>x y calls. simCreate \<lparr> vehicle_if = None, plugin_args = [] \<rparr> =
       Some ([Log CANPROXY_LOG_INFO ''drivetrain=bev assist=1 tick=20ms''], Some x) \<and>
     sim_run 3 x = Some (y, SetLink 1 # calls) \<and> length (published_states calls) = 3"
proof -
  have x: "simCreate \<lparr> vehicle_if = None, plugin_args = [] \<rparr> =
      Some ([Log CANPROXY_LOG_INFO ''drivetrain=bev assist=1 tick=20ms''], Some Sim_new)"
    by code_simp
  have f: "filter (sim_publishes Sim_new) [1..int 3] = [1, 2, 3]"
    by (simp add: sim_publishes_def Sim_new_def upto.simps)
  have l: "y_link Sim_new" "y_stallAfterMs Sim_new \<le> 2 ^ 53" "int 3 \<le> 2 ^ 33" by (simp_all add: Sim_new_def)
  obtain y calls where "sim_run 3 Sim_new = Some (y, SetLink 1 # calls)"
      "length (published_states calls) = length (filter (sim_publishes Sim_new) [1..int 3])"
    using sim_always_published [OF x l, of True CANPROXY_STATE_OK 0 1 0] by blast
  then have "sim_run 3 Sim_new = Some (y, SetLink 1 # calls)" "length (published_states calls) = 3" unfolding f by simp_all
  with x show ?thesis by blast
qed

end
