(* ===== verification/Shipped_Plugins.thy ===== *)
theory Shipped_Plugins
  imports Proxy_System Obd2_Ice Emu_Ev Forza Sim
begin

text \<open>
  The five plugins of the repository behind the plugin interface: their descriptors, the functions
  the descriptors point to, dispatched on what \<open>self\<close> is, and what their threads do. \<open>plugin_object\<close> is
  the contract of a plugin's life (\<^verbatim>\<open>include/canproxy/plugin.h\<close>), interpreted on these functions; the
  properties join the daemon, its host and the plugins.
\<close>

section \<open>Descriptors\<close>

definition obd2_ice_kPlugin :: canproxy_plugin where
  "obd2_ice_kPlugin = \<lparr> abi_version = CANPROXY_PLUGIN_ABI_VERSION, p_name = Some ''obd2-ice'', version_major = 1,
     version_minor = 0, p_create = True, p_start = True, p_stop = True, p_destroy = True \<rparr>"

definition kEv :: canproxy_plugin where
  "kEv = \<lparr> abi_version = CANPROXY_PLUGIN_ABI_VERSION, p_name = Some ''emu-ev'', version_major = 1,
     version_minor = 0, p_create = True, p_start = True, p_stop = True, p_destroy = True \<rparr>"

definition kHybrid :: canproxy_plugin where
  "kHybrid = \<lparr> abi_version = CANPROXY_PLUGIN_ABI_VERSION, p_name = Some ''emu-hybrid'', version_major = 1,
     version_minor = 0, p_create = True, p_start = True, p_stop = True, p_destroy = True \<rparr>"

definition emuPluginDescriptor :: "bool \<Rightarrow> canproxy_plugin" where
  "emuPluginDescriptor hybrid = (if hybrid then kHybrid else kEv)"

definition forza_kPlugin :: canproxy_plugin where
  "forza_kPlugin = \<lparr> abi_version = CANPROXY_PLUGIN_ABI_VERSION, p_name = Some ''forza'', version_major = 1,
     version_minor = 0, p_create = True, p_start = True, p_stop = True, p_destroy = True \<rparr>"

definition sim_kPlugin :: canproxy_plugin where
  "sim_kPlugin = \<lparr> abi_version = CANPROXY_PLUGIN_ABI_VERSION, p_name = Some ''sim'', version_major = 1,
     version_minor = 0, p_create = True, p_start = True, p_stop = True, p_destroy = True \<rparr>"

datatype shipped = Obd2_Ice_So | Emu_Ev_So | Emu_Hybrid_So | Forza_So | Sim_So

text \<open>The entry function of each library.\<close>

fun canproxy_plugin_entry :: "shipped \<Rightarrow> canproxy_plugin" where
  "canproxy_plugin_entry Obd2_Ice_So = obd2_ice_kPlugin"
| "canproxy_plugin_entry Emu_Ev_So = emuPluginDescriptor False"
| "canproxy_plugin_entry Emu_Hybrid_So = emuPluginDescriptor True"
| "canproxy_plugin_entry Forza_So = forza_kPlugin"
| "canproxy_plugin_entry Sim_So = sim_kPlugin"

lemmas descriptors = obd2_ice_kPlugin_def kEv_def kHybrid_def emuPluginDescriptor_def forza_kPlugin_def sim_kPlugin_def

lemma shipped_accepted:
  "fst (host_load path (Descriptor (canproxy_plugin_entry v)) h) = []"
  "m_plugin (snd (host_load path (Descriptor (canproxy_plugin_entry v)) h)) = Some (canproxy_plugin_entry v)"
  by (cases v; simp add: host_load_def descriptors complete_descriptor_def Let_def)+

section \<open>The functions of the descriptors\<close>

datatype plugin_self = SelfIce Ice | SelfEmu Emu | SelfForza Forza | SelfSim Sim

definition createEv :: "canproxy_plugin_args \<Rightarrow> Emu creation" where
  "createEv args = emu_create args False"

definition createHybrid :: "canproxy_plugin_args \<Rightarrow> Emu creation" where
  "createHybrid args = emu_create args True"

definition as_self :: "('p \<Rightarrow> plugin_self) \<Rightarrow> 'p creation \<Rightarrow> plugin_self creation" where
  "as_self self = map_option (map_prod id (map_option self))"

fun plugin_create :: "shipped \<Rightarrow> canproxy_plugin_args \<Rightarrow> plugin_self creation" where
  "plugin_create Obd2_Ice_So args = as_self SelfIce (ice_create args)"
| "plugin_create Emu_Ev_So args = as_self SelfEmu (createEv args)"
| "plugin_create Emu_Hybrid_So args = as_self SelfEmu (createHybrid args)"
| "plugin_create Forza_So args = as_self SelfForza (forza_create args)"
| "plugin_create Sim_So args = as_self SelfSim (simCreate args)"

lemma as_self_Some:
  "as_self self c = Some (said, obj) \<longleftrightarrow> (\<exists>p. c = Some (said, p) \<and> map_option self p = obj)"
  by (auto simp: as_self_def)

text \<open>What the kernel and the file system answer when a plugin starts.\<close>

record surroundings =
  w_bus :: open_step
  w_bms :: tp_open_step
  w_log :: "string option"
  w_udp :: udp_open

fun plugin_start :: "surroundings \<Rightarrow> plugin_self \<Rightarrow> int \<times> plugin_self \<times> host_call list" where
  "plugin_start w (SelfIce x) = map_prod id (map_prod SelfIce id) (ice_start (w_bus w) (w_log w) x)"
| "plugin_start w (SelfEmu x) = map_prod id (map_prod SelfEmu id) (emu_start (w_bus w) (w_bms w) (w_log w) x)"
| "plugin_start w (SelfForza x) = map_prod id (map_prod SelfForza id) (forza_start (w_udp w) x)"
| "plugin_start w (SelfSim x) = map_prod id (map_prod SelfSim id) (simStart x)"

fun plugin_stop :: "plugin_self \<Rightarrow> plugin_self" where
  "plugin_stop (SelfIce x) = SelfIce (ice_stop x)"
| "plugin_stop (SelfEmu x) = SelfEmu (emu_stop x)"
| "plugin_stop (SelfForza x) = SelfForza (forza_stop x)"
| "plugin_stop (SelfSim x) = SelfSim (simStop x)"

text \<open>\<open>delete\<close>: the destructors of the members run; \<open>forza\<close> and \<open>sim\<close> have none that release anything.\<close>

definition client_destroy :: "J1979Client \<Rightarrow> J1979Client" where
  "client_destroy c = c\<lparr> c_ch := channel_destroy (c_ch c) \<rparr>"

fun plugin_destroy :: "plugin_self \<Rightarrow> plugin_self" where
  "plugin_destroy (SelfIce x) = SelfIce (x\<lparr> x_client := client_destroy (x_client x) \<rparr>)"
| "plugin_destroy (SelfEmu x) = SelfEmu (x\<lparr> e_client := client_destroy (e_client x), e_bms := IsoTp_destroy (e_bms x) \<rparr>)"
| "plugin_destroy (SelfForza x) = SelfForza x"
| "plugin_destroy (SelfSim x) = SelfSim x"

section \<open>The threads\<close>

text \<open>What a plugin's thread meets, for each plugin the list its own run takes.\<close>

datatype thread_input =
    IceInput "iter_env list"
  | EmuInput "emu_env list"
  | ForzaInput "(int \<times> bytes option) list"
  | SimInput nat

text \<open>The object after a run of its thread, and the calls on the host; \<open>None\<close> where the run waits.\<close>

fun plugin_thread :: "thread_input \<Rightarrow> plugin_self \<Rightarrow> (plugin_self \<times> host_call list) option" where
  "plugin_thread (IceInput es) (SelfIce x) =
     (case ice_run es (x, 0) of Done ((y, n), calls) \<Rightarrow> Some (SelfIce y, calls) | Waiting \<Rightarrow> None)"
| "plugin_thread (EmuInput es) (SelfEmu x) =
     (case emu_run es (x, 0) of Done ((y, n), calls) \<Rightarrow> Some (SelfEmu y, calls) | Waiting \<Rightarrow> None)"
| "plugin_thread (ForzaInput es) (SelfForza x) = Some (SelfForza x, snd (forza_run x es forza_loop_new))"
| "plugin_thread (SimInput m) (SelfSim x) = map_option (map_prod SelfSim id) (sim_run m x)"
| "plugin_thread _ _ = None"

text \<open>
  The surroundings a plugin can rely on: clocks do not run below zero, a telemetry packet has numbers
  of the size a vehicle can have, and the simulator runs for less than the \<open>2 ^ 33\<close> steps its numbers
  are bounded for.
\<close>

fun fair_input :: "thread_input \<Rightarrow> plugin_self \<Rightarrow> bool" where
  "fair_input (IceInput es) _ \<longleftrightarrow> (\<forall>e \<in> set es. iter_ok e)"
| "fair_input (EmuInput es) _ \<longleftrightarrow> (\<forall>e \<in> set es. iter_ok (iter_env.truncate e))"
| "fair_input (ForzaInput es) _ \<longleftrightarrow> (\<forall>e \<in> set es. pred_option sane_packet (forza_read (snd e)))"
| "fair_input (SimInput m) (SelfSim x) \<longleftrightarrow> y_stallAfterMs x \<le> 2 ^ 53 \<and> int m \<le> 2 ^ 33"
| "fair_input (SimInput m) _ \<longleftrightarrow> False"

text \<open>The invariant of the object that its thread keeps, and with which everything it publishes can be packed.\<close>

fun plugin_fit :: "plugin_self \<Rightarrow> bool" where
  "plugin_fit (SelfIce x) \<longleftrightarrow> ice_ok x"
| "plugin_fit (SelfEmu x) \<longleftrightarrow> emu_ok x"
| "plugin_fit (SelfForza x) \<longleftrightarrow> True"
| "plugin_fit (SelfSim x) \<longleftrightarrow> sim_ok 0 x"

lemma created_fit: "plugin_create v args = Some (said, Some x) \<Longrightarrow> plugin_fit x"
  by (cases v) (auto simp: as_self_Some createEv_def createHybrid_def intro: ice_created_ok emu_created_ok sim_created_ok)

lemma started_fit: "plugin_fit x \<Longrightarrow> plugin_fit (fst (snd (plugin_start w x)))"
  by (cases x) (auto simp: ice_started_ok emu_started_ok simStart_def sim_ok_def)

lemma honest_encodable: "honest s \<Longrightarrow> all_encodable s"
  by (simp add: honest_def)

lemma sim_published_encodable:
  assumes "sim_ok 0 x" "fair_input (SimInput m) (SelfSim x)" "sim_run m x = Some (y, calls)" "s \<in> set (published_states calls)"
  shows "all_encodable s"
proof (cases "y_link x")
  case True
  obtain z calls' where "sim_loop m False x = Some (z, calls')" "\<forall>s \<in> set (published_states calls'). sim_sent x s"
    using sim_loop_ok [OF assms(1) order.refl, of m False] assms(2) by auto
  then have "sim_sent x s" using assms(3,4) True by (auto simp: sim_run_def)
  then show ?thesis by (auto simp: sim_sent_def intro: honest_encodable sim_fit_honest)
next
  case False
  then show ?thesis using assms(3,4) by (auto simp: sim_run_def)
qed

lemma published_encodable:
  assumes "plugin_fit x" "fair_input inp x" "plugin_thread inp x = Some (y, calls)" "s \<in> set (published_states calls)"
  shows "all_encodable s"
  using assms(3)
proof (cases rule: plugin_thread.elims)
  case (1 es z)
  then obtain z' n where "ice_run es (z, 0) = Done ((z', n), calls)" by (auto split: wait.splits)
  then have "\<exists>now a. ice_ok a \<and> s = ice_state now a" using ice_run_ok [of z es 0 z' n calls] assms(1,2,4) 1 by simp
  then show ?thesis by (auto intro: honest_encodable ice_state_honest)
next
  case (2 es z)
  then obtain z' n where "emu_run es (z, 0) = Done ((z', n), calls)" by (auto split: wait.splits)
  then have "\<exists>now a. emu_ok a \<and> s = emu_state now a" using emu_run_ok [of z es 0 z' n calls] assms(1,2,4) 2 by simp
  then show ?thesis using emu_state_sound by (auto simp: sound_state_def)
next
  case (3 es z)
  then obtain now packet f where "(now, packet) \<in> set es" "forza_read packet = Some f" "s = forza_state z f"
    using forza_published assms(4) by blast
  then show ?thesis using assms(2) 3 by (force intro: honest_encodable forza_state_honest)
next
  case (4 m z)
  then obtain z' where "sim_run m z = Some (z', calls)" by (cases "sim_run m z") auto
  then show ?thesis using sim_published_encodable assms(1,2,4) 4 by (metis plugin_fit.simps(4))
qed simp_all

section \<open>A plugin's life\<close>

text \<open>The contract: a \<open>start\<close> says whether it runs, a stop may be repeated, and what is destroyed holds nothing.\<close>

locale plugin_object =
  fixes start :: "'w \<Rightarrow> 'o \<Rightarrow> int \<times> 'o" and stop :: "'o \<Rightarrow> 'o" and destroy :: "'o \<Rightarrow> 'o"
    and runs :: "'o \<Rightarrow> bool" and holds :: "'o \<Rightarrow> bool" and good :: "'o \<Rightarrow> bool"
  assumes started: "good x \<Longrightarrow> \<not> runs x \<Longrightarrow> good (snd (start w x)) \<and> (runs (snd (start w x)) \<longleftrightarrow> fst (start w x) = 0)"
    and started_again: "runs x \<Longrightarrow> start w x = (0, x)"
    and stopped: "good x \<Longrightarrow> good (stop x) \<and> \<not> runs (stop x)"
    and stopped_again: "\<not> runs x \<Longrightarrow> stop x = x"
    and released: "good x \<Longrightarrow> \<not> runs x \<Longrightarrow> \<not> holds (destroy x)"
begin

lemma stop_idempotent: "good x \<Longrightarrow> stop (stop x) = stop x"
  using stopped stopped_again by blast

lemma stopped_releases: "good x \<Longrightarrow> \<not> holds (destroy (stop x))"
  using stopped released by blast

lemma failed_start_releases: "good x \<Longrightarrow> \<not> runs x \<Longrightarrow> fst (start w x) \<noteq> 0 \<Longrightarrow> \<not> holds (destroy (snd (start w x)))"
  using started released by blast

lemma start_keeps: "good x \<Longrightarrow> good (snd (start w x))"
  using started started_again by (cases "runs x") auto

end

fun plugin_runs :: "plugin_self \<Rightarrow> bool" where
  "plugin_runs (SelfIce x) \<longleftrightarrow> x_running x"
| "plugin_runs (SelfEmu x) \<longleftrightarrow> e_running x"
| "plugin_runs (SelfForza x) \<longleftrightarrow> z_running x"
| "plugin_runs (SelfSim x) \<longleftrightarrow> y_running x"

text \<open>A socket or a log file is open.\<close>

definition channel_holds :: "CanChannel \<Rightarrow> bool" where
  "channel_holds ch \<longleftrightarrow> ch_open ch \<or> ch_log ch \<noteq> None"

fun plugin_holds :: "plugin_self \<Rightarrow> bool" where
  "plugin_holds (SelfIce x) \<longleftrightarrow> channel_holds (c_ch (x_client x))"
| "plugin_holds (SelfEmu x) \<longleftrightarrow> channel_holds (c_ch (e_client x)) \<or> tp_open (e_bms x)"
| "plugin_holds (SelfForza x) \<longleftrightarrow> z_open x"
| "plugin_holds (SelfSim x) \<longleftrightarrow> False"

fun plugin_good :: "plugin_self \<Rightarrow> bool" where
  "plugin_good (SelfForza x) \<longleftrightarrow> (z_open x \<longrightarrow> z_running x)"
| "plugin_good _ \<longleftrightarrow> True"

lemma destroy_releases:
  "\<not> channel_holds (c_ch (client_destroy c))" "\<not> tp_open (IsoTp_destroy ch)"
  by (simp_all add: channel_holds_def client_destroy_def channel_destroy_def channel_close_def channel_stopRecording_def
      IsoTp_destroy_def IsoTp_close_def)

lemma ice_start_runs: "\<not> x_running x \<Longrightarrow> x_running (fst (snd (ice_start opened failure x))) \<longleftrightarrow> fst (ice_start opened failure x) = 0"
  by (auto simp: ice_start_def Let_def split: prod.split)

lemma emu_start_runs:
  "\<not> e_running x \<Longrightarrow> e_running (fst (snd (emu_start opened bms failure x))) \<longleftrightarrow> fst (emu_start opened bms failure x) = 0"
  by (auto simp: emu_start_def Let_def split: prod.split)

definition plugin_started :: "surroundings \<Rightarrow> plugin_self \<Rightarrow> int \<times> plugin_self" where
  "plugin_started w x = (fst (plugin_start w x), fst (snd (plugin_start w x)))"

interpretation object: plugin_object plugin_started plugin_stop plugin_destroy plugin_runs plugin_holds plugin_good
proof
  fix x w
  show "plugin_good x \<Longrightarrow> \<not> plugin_runs x \<Longrightarrow>
      plugin_good (snd (plugin_started w x)) \<and> (plugin_runs (snd (plugin_started w x)) \<longleftrightarrow> fst (plugin_started w x) = 0)"
    by (cases x) (auto simp: plugin_started_def ice_start_runs emu_start_runs forza_start_def simStart_def split: udp_open.splits)
  show "plugin_runs x \<Longrightarrow> plugin_started w x = (0, x)"
    by (cases x) (auto simp: plugin_started_def ice_start_def emu_start_def forza_start_def simStart_def)
  show "plugin_good x \<Longrightarrow> plugin_good (plugin_stop x) \<and> \<not> plugin_runs (plugin_stop x)"
    by (cases x) (auto simp: ice_stop_def emu_stop_def forza_stop_def simStop_def)
  show "\<not> plugin_runs x \<Longrightarrow> plugin_stop x = x"
    by (cases x) (auto simp: ice_stop_def emu_stop_def forza_stop_def simStop_def)
  show "plugin_good x \<Longrightarrow> \<not> plugin_runs x \<Longrightarrow> \<not> plugin_holds (plugin_destroy x)"
    by (cases x) (auto simp: destroy_releases)
qed

text \<open>The thread leaves the running flag alone.\<close>

lemma ice_telltales_running: "x_running (fold ice_onTelltales bs x) = x_running x"
  using telltales_keep [of bs x] by auto

lemma ice_poll_running: "ice_poll e x = (gone, y, calls) \<Longrightarrow> x_running y = x_running x"
  by (auto simp: ice_poll_def ice_plausible_def Let_def ice_telltales_running
      split: option.splits prod.splits wait.splits if_splits)

lemma ice_discover_running: "ice_discover envs x = (found, y, calls) \<Longrightarrow> x_running y = x_running x"
  by (auto simp: ice_discover_def Let_def ice_telltales_running split: prod.splits wait.splits if_splits)

lemma ice_iter_running: "ice_iter e (x, n) = Done ((y, m), calls) \<Longrightarrow> x_running y = x_running x"
  by (auto simp: ice_iter_def Let_def split: prod.splits wait.splits bool.splits if_splits
      dest!: ice_poll_running ice_discover_running)

lemma ice_run_running: "ice_run es (x, n) = Done ((y, m), calls) \<Longrightarrow> x_running y = x_running x"
proof (induction es arbitrary: x n calls)
  case (Cons e es)
  then obtain z k c1 c2 where "ice_iter e (x, n) = Done ((z, k), c1)" "ice_run es (z, k) = Done ((y, m), c2)"
    by (auto split: wait.splits)
  then show ?case using Cons.IH ice_iter_running by metis
qed simp

lemma emu_telltales_running: "e_running (fold emu_onTelltales bs x) = e_running x"
  using emu_telltales_keep [of bs x] by auto

lemma emu_query_running: "emu_query key e x = (out, y) \<Longrightarrow> e_running y = e_running x"
  by (auto simp: emu_query_def emu_pollDid_def Let_def emu_telltales_running
      split: option.splits prod.splits wait.splits if_splits)

lemma emu_poll_running: "emu_poll e x = (gone, y, calls) \<Longrightarrow> e_running y = e_running x"
  by (auto simp: emu_poll_def Let_def emu_telltales_running
      split: option.splits prod.splits wait.splits bool.splits if_splits dest!: emu_query_running)

lemma emu_probe_running: "e_running (emu_probe e x) = e_running x"
  by (simp add: emu_probe_def Let_def)

lemma emu_discover_running: "emu_discover e x = (found, y, calls) \<Longrightarrow> e_running y = e_running x"
  by (auto simp: emu_discover_def Let_def emu_telltales_running emu_probe_running
      split: prod.splits wait.splits if_splits)

lemma emu_iter_running: "emu_iter e (x, n) = Done ((y, m), calls) \<Longrightarrow> e_running y = e_running x"
  by (auto simp: emu_iter_def Let_def split: prod.splits wait.splits bool.splits if_splits
      dest!: emu_poll_running emu_discover_running)

lemma emu_run_running: "emu_run es (x, n) = Done ((y, m), calls) \<Longrightarrow> e_running y = e_running x"
proof (induction es arbitrary: x n calls)
  case (Cons e es)
  then obtain z k c1 c2 where "emu_iter e (x, n) = Done ((z, k), c1)" "emu_run es (z, k) = Done ((y, m), c2)"
    by (auto split: wait.splits)
  then show ?case using Cons.IH emu_iter_running by metis
qed simp

lemma sim_parts_running:
  "y_running (sim_clock dt x) = y_running x" "y_running (sim_enter dt x) = y_running x"
  "y_running (sim_consume dt speed x) = y_running x"
  by (simp_all add: sim_clock_def sim_enter_def sim_consume_def sim_charge_def sim_burn_def Let_def)

lemma sim_step_running: "sim_step dt x = Some (s, y) \<Longrightarrow> y_running y = y_running x"
proof -
  assume "sim_step dt x = Some (s, y)"
  then have "\<exists>speed a b. y = sim_consume dt speed (sim_enter dt (sim_clock dt x)\<lparr> y_lastSpeed := a, y_powerFiltered := b \<rparr>)"
    by (auto simp only: sim_step_def Let_def map_option_eq_Some prod.inject)
  then show ?thesis by (auto simp: sim_parts_running)
qed

lemma sim_loop_running: "sim_loop m stalled x = Some (y, calls) \<Longrightarrow> y_running y = y_running x"
proof (induction m arbitrary: stalled x calls)
  case (Suc m)
  then show ?case by (auto split: option.splits prod.splits dest!: sim_step_running dest: Suc.IH)
qed simp

lemma thread_keeps:
  assumes "plugin_thread inp x = Some (y, calls)"
  shows "plugin_runs y = plugin_runs x \<and> plugin_good y = plugin_good x"
  using assms
proof (cases rule: plugin_thread.elims)
  case (4 m z)
  then obtain z' where "sim_run m z = Some (z', calls)" "y = SelfSim z'" by (cases "sim_run m z") auto
  then show ?thesis using 4 sim_loop_running by (auto simp: sim_run_def split: if_splits)
qed (auto split: wait.splits dest: ice_run_running emu_run_running)

section \<open>The host's calls on a plugin\<close>

text \<open>
  What a sequence of the host's calls makes of a plugin: its object, if there is one, and what was
  left of each object that was destroyed. Between the calls the thread of a running object runs.
\<close>

inductive plugin_life :: "shipped \<Rightarrow> call list \<Rightarrow> plugin_self option \<times> plugin_self list \<Rightarrow> bool" for v where
  life_nil: "plugin_life v [] (None, [])"
| life_open: "plugin_life v cs st \<Longrightarrow> plugin_life v (cs @ [Dlopen path ok]) st"
| life_entry: "plugin_life v cs st \<Longrightarrow> plugin_life v (cs @ [Entry]) st"
| life_close: "plugin_life v cs st \<Longrightarrow> plugin_life v (cs @ [Dlclose]) st"
| life_create: "plugin_life v cs (None, gone) \<Longrightarrow>
    plugin_create v \<lparr> vehicle_if = vif, plugin_args = args \<rparr> = Some (said, obj) \<Longrightarrow>
    plugin_life v (cs @ [Create vif args (obj \<noteq> None)]) (obj, gone)"
| life_start: "plugin_life v cs (Some x, gone) \<Longrightarrow> plugin_start w x = (rc, y, logs) \<Longrightarrow>
    plugin_life v (cs @ [Start rc]) (Some y, gone)"
| life_thread: "plugin_life v cs (Some x, gone) \<Longrightarrow> plugin_runs x \<Longrightarrow> plugin_thread inp x = Some (y, calls) \<Longrightarrow>
    plugin_life v cs (Some y, gone)"
| life_stop: "plugin_life v cs (Some x, gone) \<Longrightarrow> plugin_life v (cs @ [Stop]) (Some (plugin_stop x), gone)"
| life_destroy: "plugin_life v cs (Some x, gone) \<Longrightarrow>
    plugin_life v (cs @ [Destroy]) (None, plugin_destroy x # gone)"

text \<open>In step with the phase the host thinks the plugin is in.\<close>

definition in_phase :: "phase \<Rightarrow> plugin_self option \<Rightarrow> bool" where
  "in_phase ph obj = (case obj of
     None \<Rightarrow> ph = Closed \<or> ph = Opened
   | Some x \<Rightarrow> plugin_good x \<and> (ph = Created \<and> \<not> plugin_runs x \<or> ph = Running \<and> plugin_runs x))"

lemma created_idle: "plugin_create v args = Some (said, Some x) \<Longrightarrow> plugin_good x \<and> \<not> plugin_runs x"
proof (cases v)
  case Sim_So
  assume "plugin_create v args = Some (said, Some x)"
  then show ?thesis
    by (auto simp: Sim_So as_self_Some simCreate_def set_drivetrain_def Sim_new_def Let_def bind_eq_Some_conv
        split: option.splits sum.splits if_splits)
qed (auto simp: as_self_Some createEv_def createHybrid_def ice_create_def emu_create_def forza_create_def Let_def
    Ice_new_def Emu_new_def Forza_new_def split: option.splits sum.splits if_splits)

lemma life_in_phase:
  "plugin_life v cs st \<Longrightarrow> life_run Closed cs = Some ph \<Longrightarrow> in_phase ph (fst st) \<and> (\<forall>x \<in> set (snd st). \<not> plugin_holds x)"
proof (induction arbitrary: ph rule: plugin_life.induct)
  case (life_create cs gone vif args said obj)
  then show ?case using created_idle
    by (auto simp: life_run_append in_phase_def split: option.splits elim!: life_step_SomeE)
next
  case (life_start cs x gone w rc y logs)
  then show ?case using object.started [of x w]
    by (auto simp: plugin_started_def life_run_append in_phase_def split: option.splits elim!: life_step_SomeE)
next
  case (life_thread cs x gone inp y calls)
  then show ?case using thread_keeps by (fastforce simp: in_phase_def)
next
  case (life_stop cs x gone)
  then show ?case using object.stopped
    by (auto simp: life_run_append in_phase_def split: option.splits elim!: life_step_SomeE)
next
  case (life_destroy cs x gone)
  then show ?case using object.released
    by (auto simp: life_run_append in_phase_def split: option.splits elim!: life_step_SomeE)
qed (auto simp: life_run_append in_phase_def split: option.splits elim!: life_step_SomeE)

text \<open>
  C10: Whatever the command line, the bus and the loader do, and whichever of the five plugins is
  loaded, when the daemon's \<open>main\<close> has ended the plugin has no object any more, and nothing its
  objects opened (sockets, the ISO-TP channel, the log file) is still open.
\<close>

theorem plugin_leaves_nothing_open:
  assumes "plugin_life v (plugin_calls (r_acts (snd (daemon_main default_dir env argv w)))) (obj, gone)"
  shows "obj = None \<and> (\<forall>x \<in> set gone. \<not> plugin_holds x)"
proof -
  have "life_run Closed (plugin_calls (r_acts (snd (daemon_main default_dir env argv w)))) = Some Closed"
    using trace_of_plugin [OF daemon_runs_in_order] by (simp add: daemon_idle_def)
  from life_in_phase [OF assms this] show ?thesis by (auto simp: in_phase_def split: option.splits)
qed


section \<open>Witnesses\<close>

text \<open>The daemon with the telemetry plugin, whose thread hears nothing before it is stopped.\<close>

definition sample_answers :: answers where
  "sample_answers = \<lparr> a_bus = Opens, a_library = Descriptor forza_kPlugin, a_create = True, a_start = 0 \<rparr>"

definition sample_surroundings :: surroundings where
  "sample_surroundings = \<lparr> w_bus = Opens, w_bms = TpOpens, w_log = None, w_udp = UdpOpens \<rparr>"

lemma sample_calls:
  "plugin_calls (r_acts (snd (daemon_main ''/plugins'' None
     [''can-proxyd'', ''--contract-if=vcan0'', ''--plugin=forza''] sample_answers))) =
   [Dlopen ''/plugins/forza.so'' True, Entry, Create None [] True, Start 0, Stop, Destroy, Dlclose]"
  by code_simp

lemma sample_life:
  "plugin_life Forza_So [Dlopen ''/plugins/forza.so'' True, Entry, Create None [] True, Start 0, Stop, Destroy, Dlclose]
     (None, [plugin_destroy (plugin_stop (SelfForza (Forza_new\<lparr> z_open := True, z_running := True \<rparr>)))])"
proof -
  let ?x = "Forza_new\<lparr> z_open := True, z_running := True \<rparr>"
  have "plugin_life Forza_So ([] @ [Dlopen ''/plugins/forza.so'' True]) (None, [])"
    by (rule life_open) (rule life_nil)
  then have "plugin_life Forza_So ([Dlopen ''/plugins/forza.so'' True] @ [Entry]) (None, [])"
    by (intro life_entry) simp
  moreover have "plugin_create Forza_So \<lparr> vehicle_if = None, plugin_args = [] \<rparr> = Some ([], Some (SelfForza Forza_new))"
    by (simp add: as_self_Some forza_default)
  ultimately have "plugin_life Forza_So (([Dlopen ''/plugins/forza.so'' True] @ [Entry]) @
      [Create None [] (Some (SelfForza Forza_new) \<noteq> None)]) (Some (SelfForza Forza_new), [])"
    by (rule life_create)
  moreover have "plugin_start sample_surroundings (SelfForza Forza_new) = (0, SelfForza ?x, snd (snd (forza_start UdpOpens Forza_new)))"
    by (simp add: forza_start_def Forza_new_def sample_surroundings_def)
  ultimately have "plugin_life Forza_So ((([Dlopen ''/plugins/forza.so'' True] @ [Entry]) @
      [Create None [] (Some (SelfForza Forza_new) \<noteq> None)]) @ [Start 0]) (Some (SelfForza ?x), [])"
    by (rule life_start)
  moreover have "plugin_runs (SelfForza ?x)" by simp
  moreover have "plugin_thread (ForzaInput []) (SelfForza ?x) = Some (SelfForza ?x, [])" by simp
  ultimately have "plugin_life Forza_So ((([Dlopen ''/plugins/forza.so'' True] @ [Entry]) @
      [Create None [] (Some (SelfForza Forza_new) \<noteq> None)]) @ [Start 0]) (Some (SelfForza ?x), [])"
    by (rule life_thread)
  from life_close [OF life_destroy [OF life_stop [OF this]]] show ?thesis by simp
qed

theorem plugin_leaves_nothing_open_witness:
  "plugin_holds (SelfForza (Forza_new\<lparr> z_open := True, z_running := True \<rparr>)) \<and>
   \<not> plugin_holds (plugin_destroy (plugin_stop (SelfForza (Forza_new\<lparr> z_open := True, z_running := True \<rparr>))))"
  using plugin_leaves_nothing_open [OF sample_life [folded sample_calls]] by simp


section \<open>What a plugin says when it refuses\<close>

text \<open>
  The errors among a plugin's calls; and the contract of \<^verbatim>\<open>plugin.h\<close> on them, "return NULL on bad
  arguments (log why)": an operation that failed has logged one error, as the last thing it did, and
  one that succeeded has logged none.
\<close>

definition errors :: "host_call list \<Rightarrow> string list" where
  "errors cs = concat (map (\<lambda>c. case c of Log CANPROXY_LOG_ERROR m \<Rightarrow> [m] | _ \<Rightarrow> []) cs)"

definition says_why :: "bool \<Rightarrow> host_call list \<Rightarrow> bool" where
  "says_why failed cs \<longleftrightarrow>
     (if failed then \<exists>before m. cs = before @ [Log CANPROXY_LOG_ERROR m] \<and> m \<noteq> [] \<and> errors before = []
      else errors cs = [])"

lemma errors_simps [simp]:
  "errors [] = []" "errors (logf CANPROXY_LOG_ERROR m # cs) = take 255 m # errors cs"
  "errors (logf CANPROXY_LOG_WARN m # cs) = errors cs" "errors (logf CANPROXY_LOG_INFO m # cs) = errors cs"
  by (simp_all add: errors_def logf_def)

lemma says_why_simps [simp]:
  "says_why True (cs @ [logf CANPROXY_LOG_ERROR why]) \<longleftrightarrow> why \<noteq> [] \<and> errors cs = []"
  "says_why True [logf CANPROXY_LOG_ERROR why] \<longleftrightarrow> why \<noteq> []"
  "says_why True [c, logf CANPROXY_LOG_ERROR why] \<longleftrightarrow> why \<noteq> [] \<and> errors [c] = []"
  "says_why False cs \<longleftrightarrow> errors cs = []"
  by (auto simp: says_why_def logf_def append_eq_Cons_conv Cons_eq_append_conv)

definition only_logs :: "host_call list \<Rightarrow> bool" where
  "only_logs cs \<longleftrightarrow> (\<forall>c \<in> set cs. \<exists>l m. c = Log l m)"

lemma only_logs_simps [simp]: "only_logs []" "only_logs (logf l m # cs) = only_logs cs"
  by (simp_all add: only_logs_def logf_def)

lemma ice_create_says: "ice_create args = Some (said, obj) \<Longrightarrow> says_why (obj = None) said \<and> only_logs said"
  by (auto simp: ice_create_def Let_def split: option.splits sum.splits if_splits)

lemma emu_create_says: "emu_create args hybrid = Some (said, obj) \<Longrightarrow> says_why (obj = None) said \<and> only_logs said"
  by (auto simp: emu_create_def Let_def split: option.splits sum.splits if_splits)

lemma forza_create_says: "forza_create args = Some (said, obj) \<Longrightarrow> says_why (obj = None) said \<and> only_logs said"
  by (auto simp: forza_create_def Let_def split: option.splits sum.splits if_splits)

lemma sim_create_says: "simCreate args = Some (said, obj) \<Longrightarrow> says_why (obj = None) said \<and> only_logs said"
  by (auto simp: simCreate_def set_drivetrain_def Let_def split: option.splits sum.splits bind_splits if_splits)

lemma ice_start_says: "ice_start opened failure x = (rc, y, logs) \<Longrightarrow> says_why (rc \<noteq> 0) logs \<and> only_logs logs"
  by (auto simp: ice_start_def Let_def split: prod.splits if_splits)

lemma emu_start_says: "emu_start opened bms failure x = (rc, y, logs) \<Longrightarrow> says_why (rc \<noteq> 0) logs \<and> only_logs logs"
  by (auto simp: emu_start_def Let_def split: prod.splits if_splits)

lemma forza_start_says: "forza_start opened x = (rc, y, logs) \<Longrightarrow> says_why (rc \<noteq> 0) logs \<and> only_logs logs"
  by (auto simp: forza_start_def split: udp_open.splits if_splits)

lemma self_started:
  "map_prod id (map_prod self id) r = (rc, y, logs) \<longleftrightarrow> (\<exists>x. r = (rc, x, logs) \<and> y = self x)"
  by (cases r) auto

text \<open>
  C27: A refusal is explained: whichever plugin, its arguments and the kernel's answers, \<open>create\<close>
  returns null, and \<open>start\<close> something else than 0, exactly when the last thing it did was to log an
  error, its only one, with a text; the host prints it, whatever its log level is; and neither operation
  makes any other kind of call, so the published state and the link stay as they were.
\<close>

theorem refusal_is_explained:
  assumes "plugin_create v args = Some (said, obj)" "plugin_start w x = (rc, y, logs)"
  shows "says_why (obj = None) said \<and> says_why (rc \<noteq> 0) logs \<and> only_logs (said @ logs) \<and>
    (\<exists>before after. hostLog current h 0 (Some m) = Some (before @ m @ after))"
proof -
  have "says_why (obj = None) said \<and> only_logs said"
    using assms(1) by (cases v) (auto simp: as_self_Some createEv_def createHybrid_def
      dest!: ice_create_says emu_create_says forza_create_says sim_create_says)
  moreover have "says_why (rc \<noteq> 0) logs \<and> only_logs logs"
    using assms(2) by (cases x) (auto simp: self_started simStart_def dest: ice_start_says emu_start_says forza_start_says)
  moreover have "\<exists>before after. hostLog current h 0 (Some m) = Some (before @ m @ after)"
  proof -
    have "\<exists>before. hostLog current h 0 (Some m) = Some (before @ m @ [CHR 0x0A])"
      by (cases current) (simp_all add: hostLog_def log_line_def Let_def)
    then show ?thesis by blast
  qed
  ultimately show ?thesis by (auto simp: only_logs_def)
qed

text \<open>A plugin without its interface, and one whose port is taken.\<close>

theorem refusal_is_explained_witness:
  "plugin_create Obd2_Ice_So \<lparr> vehicle_if = None, plugin_args = [] \<rparr> =
     Some ([Log CANPROXY_LOG_ERROR ''obd2-ice needs --vehicle-if''], None) \<and>
   (\<exists>y. plugin_start (sample_surroundings\<lparr> w_udp := UdpBindFails ''in use'' \<rparr>) (SelfForza Forza_new) =
     (1, y, [Log CANPROXY_LOG_ERROR ''bind udp/1101: in use''])) \<and>
   says_why True [Log CANPROXY_LOG_ERROR ''bind udp/1101: in use''] \<and>
   hostLog LogError None 0 (Some ''bind udp/1101: in use'') \<noteq> None"
proof -
  have c: "plugin_create Obd2_Ice_So \<lparr> vehicle_if = None, plugin_args = [] \<rparr> =
      Some ([Log CANPROXY_LOG_ERROR ''obd2-ice needs --vehicle-if''], None)"
    by code_simp
  have s: "plugin_start (sample_surroundings\<lparr> w_udp := UdpBindFails ''in use'' \<rparr>) (SelfForza Forza_new) =
      (1, SelfForza Forza_new, [Log CANPROXY_LOG_ERROR ''bind udp/1101: in use''])"
    by code_simp
  show ?thesis
    using refusal_is_explained [OF c s, of LogError None "''bind udp/1101: in use''"] c s by auto
qed

end
