(* ===== verification/Obd_Provenance.thy ===== *)
theory Obd_Provenance
  imports Obd_Plugin
begin

text \<open>
  Where the values of a polling plugin come from, and how old they are. \<open>sourced\<close> relates what the
  object holds to the answers its thread has received; \<open>answer_source\<close> and \<open>answering_thread\<close> are what
  the argument needs of a plugin, interpreted on obd2-ice and on the emulator plugins.
\<close>

section \<open>Answers\<close>

text \<open>In this iteration a response of an ECU came in whose payload decodes to this value.\<close>

definition heard_value :: "'z iter_env_scheme \<Rightarrow> u8 \<Rightarrow> f64 \<Rightarrow> bool" where
  "heard_value e pid v \<longleftrightarrow> (\<exists>rd \<in> set (e_rounds (it_query e)). \<exists>cf r. rd_arrived rd = Some cf \<and>
     isResponseId (f_id (received_frame cf)) \<and>
     parseSingleFrame (Some (can_data cf)) (unat (f_dlc (received_frame cf))) = Some r \<and>
     r_mode r = 0x41 \<and> r_pid r = pid \<and> obd_decode pid (Some (r_data r)) (r_len r) = Some v)"

lemma query_heard:
  assumes "query pid timeoutMs (it_query e) c = (Done (Some v), c', bs)"
  shows "heard_value e pid v"
proof -
  obtain r c1 bs1 where r: "request pid timeoutMs (it_query e) c = (Done (Some r), c1, bs1)"
    "obd_decode pid (Some (r_data r)) (r_len r) = Some v"
    using assms by (auto simp: query_def split: prod.splits wait.splits option.splits)
  note a = request_answered [OF r(1)]
  obtain rd cf where cf: "rd \<in> set (e_rounds (it_query e))" "rd_arrived rd = Some cf"
      "f_id (received_frame cf) = c_primaryEcu c1"
      "parseSingleFrame (Some (can_data cf)) (unat (f_dlc (received_frame cf))) = Some r"
    using a by blast
  then have "isResponseId (f_id (received_frame cf))" using a by simp
  then show ?thesis unfolding heard_value_def using cf(1,2,4) a r(2) by blast
qed

section \<open>The scheduler's memory\<close>

text \<open>How a change of the poller shows in what is found for a key.\<close>

lemma find_requested:
  assumes "poller_ok p"
  shows "poller_find key (markRequested q t p) =
    map_option (\<lambda>it. if i_pid it = q then it\<lparr> i_due := t + i_interval it \<rparr> else it) (poller_find key p)"
proof -
  have "List.find (\<lambda>it. i_pid it = key) (map (\<lambda>it. if i_pid it = q then it\<lparr> i_due := t + i_interval it \<rparr> else it) its) =
      map_option (\<lambda>it. if i_pid it = q then it\<lparr> i_due := t + i_interval it \<rparr> else it) (List.find (\<lambda>it. i_pid it = key) its)"
    for its :: "Item list"
    by (induction its) auto
  then show ?thesis by (simp add: poller_find_def requested_items [OF assms])
qed

lemma find_answered:
  assumes "poller_ok p"
  shows "poller_find key (markAnswered q t p) =
    map_option (\<lambda>it. if i_pid it = q then it\<lparr> i_lastAnswer := t \<rparr> else it) (poller_find key p)"
proof -
  have "List.find (\<lambda>it. i_pid it = key) (map (\<lambda>it. if i_pid it = q then it\<lparr> i_lastAnswer := t \<rparr> else it) its) =
      map_option (\<lambda>it. if i_pid it = q then it\<lparr> i_lastAnswer := t \<rparr> else it) (List.find (\<lambda>it. i_pid it = key) its)"
    for its :: "Item list"
    by (induction its) auto
  then show ?thesis by (simp add: poller_find_def answered_items [OF assms])
qed

lemma find_removed: "q \<noteq> key \<Longrightarrow> poller_find key (poller_remove q p) = poller_find key p"
proof -
  assume "q \<noteq> key"
  then have "List.find (\<lambda>it. i_pid it = key) (erase_first q its) = List.find (\<lambda>it. i_pid it = key) its" for its
    by (induction its) auto
  then show ?thesis by (simp add: poller_find_def poller_remove_def)
qed

lemma find_in_items: "poller_find key p = Some it \<Longrightarrow> it \<in> set (m_items p) \<and> i_pid it = key"
  by (auto simp: poller_find_def find_Some_iff)

lemma find_added: "poller_find key (poller_add q i p) = Some it \<Longrightarrow> poller_find key p = Some it \<or> i_lastAnswer it = - 1"
  by (auto simp: poller_add_def poller_find_def find_Some_iff nth_append split: option.splits if_splits)

lemma removed_items: "set (m_items (poller_remove q p)) \<subseteq> set (m_items p)"
proof -
  have "set (erase_first q its) \<subseteq> set its" for its by (induction its) auto
  then show ?thesis by (simp add: poller_remove_def)
qed

section \<open>The invariant\<close>

text \<open>
  A value that can be fresh was heard: \<open>heard e later key v\<close>, where \<open>e\<close> is the iteration of the item's
  last answer, and \<open>later\<close> those since then. And the items have the intervals of the poll list.
\<close>

definition sourced :: "('z iter_env_scheme \<Rightarrow> 'z iter_env_scheme list \<Rightarrow> u8 \<Rightarrow> 'v \<Rightarrow> bool) \<Rightarrow> (u8 \<times> int) set \<Rightarrow> int \<Rightarrow>
    'z iter_env_scheme list \<Rightarrow> (u8 \<Rightarrow> 'v option) \<Rightarrow> Poller \<Rightarrow> bool" where
  "sourced heard want fast es vals p \<longleftrightarrow>
     (\<forall>key v it. vals key = Some v \<longrightarrow> poller_find key p = Some it \<longrightarrow> 0 \<le> i_lastAnswer it \<longrightarrow>
        (\<exists>before e later. es = before @ e # later \<and> it_answered e = i_lastAnswer it \<and> heard e later key v)) \<and>
     (\<forall>it \<in> set (m_items p). \<exists>k. (i_pid it, k) \<in> want \<and> i_interval it = fast * k)"

lemma sourced_fewer:
  assumes "sourced heard want fast es vals p" "vals' \<subseteq>\<^sub>m vals"
  shows "sourced heard want fast es vals' p"
proof -
  have "vals key = Some v" if "vals' key = Some v" for key v
    using assms(2) that unfolding map_le_def by (metis domI)
  then show ?thesis using assms(1) unfolding sourced_def by blast
qed

lemma sourced_requested:
  assumes "sourced heard want fast es vals p" "poller_ok p"
  shows "sourced heard want fast es vals (markRequested key t p)"
  using assms by (auto simp: sourced_def find_requested requested_items split: if_splits)

lemma sourced_cleared: "sourced heard want fast es vals (poller_clear p)"
  by (simp add: sourced_def poller_clear_def poller_find_def)

lemma sourced_added:
  assumes "sourced heard want fast es vals p" "(key, k) \<in> want"
  shows "sourced heard want fast es vals (poller_add key (fast * k) p)"
proof -
  have "\<exists>j. (i_pid it, j) \<in> want \<and> i_interval it = fast * j" if "it \<in> set (m_items (poller_add key (fast * k) p))" for it
    using that assms by (auto simp: sourced_def poller_add_def split: option.splits)
  then show ?thesis using assms(1) find_added unfolding sourced_def by fastforce
qed

text \<open>Both plugins fill their scheduler from a list of PIDs and multiples of the fast period.\<close>

lemma sourced_wanted:
  assumes "sourced heard want fast es vals p" "set ws \<subseteq> want"
  shows "sourced heard want fast es vals (fold (\<lambda>(pid, k) p. if pid \<in> S then poller_add pid (fast * k) p else p) ws p)"
  using assms by (induction ws arbitrary: p) (auto simp: sourced_added)

lemma sourced_dropped:
  assumes "sourced heard want fast es vals p"
  shows "sourced heard want fast es (vals(key := None)) (poller_remove key p)"
  using assms removed_items unfolding sourced_def by (auto simp: find_removed) blast

text \<open>What has been heard stays heard.\<close>

locale answer_source =
  fixes heard :: "'z iter_env_scheme \<Rightarrow> 'z iter_env_scheme list \<Rightarrow> u8 \<Rightarrow> 'v \<Rightarrow> bool"
  assumes heard_later: "heard e later key v \<Longrightarrow> heard e (later @ rest) key v"
begin

lemma sourced_later: "sourced heard want fast es vals p \<Longrightarrow> sourced heard want fast (es @ [e]) vals p"
  unfolding sourced_def using heard_later by (metis append.assoc append_Cons)

lemma sourced_answered:
  assumes "sourced heard want fast es vals p" "poller_ok p" "heard e [] key v"
  shows "sourced heard want fast (es @ [e]) (vals(key \<mapsto> v)) (markAnswered key (it_answered e) p)"
proof -
  have "\<exists>before a later. es @ [e] = before @ a # later \<and> it_answered a = i_lastAnswer it \<and> heard a later q w"
    if h: "(vals(key \<mapsto> v)) q = Some w" "poller_find q (markAnswered key (it_answered e) p) = Some it" "0 \<le> i_lastAnswer it"
    for q w it
  proof -
    obtain z where z: "poller_find q p = Some z" "it = (if i_pid z = key then z\<lparr> i_lastAnswer := it_answered e \<rparr> else z)"
      using h(2) by (auto simp: find_answered [OF assms(2)])
    have q: "i_pid z = q" using z(1) find_in_items by blast
    show ?thesis
    proof (cases "q = key")
      case True
      then show ?thesis using assms(3) h(1) z(2) q by (intro exI [of _ es] exI [of _ e] exI [of _ "[]"]) simp
    next
      case False
      then show ?thesis using sourced_later [OF assms(1), of e] h z q unfolding sourced_def by simp
    qed
  qed
  moreover have "\<exists>k. (i_pid it, k) \<in> want \<and> i_interval it = fast * k" if "it \<in> set (m_items (markAnswered key (it_answered e) p))" for it
    using that assms(1) by (auto simp: answered_items [OF assms(2)] sourced_def)
  ultimately show ?thesis by (simp add: sourced_def)
qed

text \<open>A value that changes without an answer, if that still counts as heard.\<close>

lemma sourced_changed:
  assumes "sourced heard want fast es vals p" "vals key \<noteq> None"
    and "\<And>a later v. heard a later key v \<Longrightarrow> heard a (later @ [e]) key w"
  shows "sourced heard want fast (es @ [e]) (vals(key \<mapsto> w)) p"
proof -
  have "\<exists>before a later. es @ [e] = before @ a # later \<and> it_answered a = i_lastAnswer it \<and> heard a later q v"
    if h: "(vals(key \<mapsto> w)) q = Some v" "poller_find q p = Some it" "0 \<le> i_lastAnswer it" for q v it
  proof (cases "q = key")
    case True
    obtain v0 where "vals key = Some v0" using assms(2) by blast
    then obtain before a later where "es = before @ a # later" "it_answered a = i_lastAnswer it" "heard a later key v0"
      using assms(1) h True unfolding sourced_def by blast
    then show ?thesis using assms(3) h(1) True
      by (intro exI [of _ before] exI [of _ a] exI [of _ "later @ [e]"]) auto
  next
    case False
    then show ?thesis using sourced_later [OF assms(1), of e] h unfolding sourced_def by simp
  qed
  then show ?thesis using assms(1) unfolding sourced_def by blast
qed

end

text \<open>A fresh value was heard at most three of its intervals ago.\<close>

lemma fresh_sourced:
  assumes "sourced heard want fast es vals p" "vals key = Some v" "poller_fresh p key now"
  obtains before e later k where "es = before @ e # later" "heard e later key v" "(key, k) \<in> want"
    "now - it_answered e \<le> 3 * (fast * k)"
proof -
  obtain it where it: "poller_find key p = Some it" "0 \<le> i_lastAnswer it" "now - i_lastAnswer it \<le> 3 * i_interval it"
    using assms(3) by (auto simp: poller_fresh_def split: option.splits)
  obtain before e later where e: "es = before @ e # later" "it_answered e = i_lastAnswer it" "heard e later key v"
    using assms(1,2) it(1,2) unfolding sourced_def by blast
  obtain k where "(key, k) \<in> want" "i_interval it = fast * k"
    using assms(1) find_in_items [OF it(1)] unfolding sourced_def by force
  then show ?thesis using that e it(3) by metis
qed

text \<open>The field of a measured signal.\<close>

fun signal_value :: "canproxy_signal \<Rightarrow> canproxy_vehicle_state \<Rightarrow> f64" where
  "signal_value CANPROXY_SIG_SPEED s = s_speed_kmh s"
| "signal_value CANPROXY_SIG_RPM s = s_rpm s"
| "signal_value CANPROXY_SIG_COOLANT_TEMP s = s_coolant_c s"
| "signal_value CANPROXY_SIG_FUEL_LEVEL s = s_fuel_pct s"
| "signal_value CANPROXY_SIG_AUX_BATTERY s = s_aux_battery_v s"
| "signal_value CANPROXY_SIG_AMBIENT_TEMP s = s_ambient_c s"
| "signal_value CANPROXY_SIG_ODOMETER s = s_odometer_km s"
| "signal_value _ s = FNum 0"

section \<open>The thread\<close>

text \<open>
  The calls of a run, iteration by iteration, each made on the host at a time that \<open>P\<close> allows for the iteration.
\<close>

fun calls_in :: "('e \<Rightarrow> 'x \<times> int \<Rightarrow> (('x \<times> int) \<times> host_call list) wait) \<Rightarrow> ('e \<Rightarrow> int \<Rightarrow> bool) \<Rightarrow>
    'e list \<Rightarrow> 'x \<times> int \<Rightarrow> (host_call \<times> int) list \<Rightarrow> bool" where
  "calls_in iter P [] xn cs \<longleftrightarrow> cs = []"
| "calls_in iter P (e # es) xn cs \<longleftrightarrow>
     (case iter e xn of
        Waiting \<Rightarrow> False
      | Done (yn, calls) \<Rightarrow> map fst (take (length calls) cs) = calls \<and>
          (\<forall>(c, u) \<in> set (take (length calls) cs). P e u) \<and> calls_in iter P es yn (drop (length calls) cs))"

locale answering_thread = answer_source heard
  for heard :: "'z iter_env_scheme \<Rightarrow> 'z iter_env_scheme list \<Rightarrow> u8 \<Rightarrow> 'v \<Rightarrow> bool" +
  fixes iter :: "'z iter_env_scheme \<Rightarrow> 'x \<times> int \<Rightarrow> (('x \<times> int) \<times> host_call list) wait"
    and run :: "'z iter_env_scheme list \<Rightarrow> 'x \<times> int \<Rightarrow> (('x \<times> int) \<times> host_call list) wait"
    and clocked :: "'z iter_env_scheme \<Rightarrow> bool"
    and want :: "'x \<Rightarrow> (u8 \<times> int) set" and fast :: "'x \<Rightarrow> int" and holds :: "'x \<Rightarrow> u8 \<Rightarrow> 'v option" and polls :: "'x \<Rightarrow> Poller"
    and fit :: "'x \<Rightarrow> bool" and shown :: "'z iter_env_scheme \<Rightarrow> 'x \<Rightarrow> canproxy_vehicle_state \<Rightarrow> bool"
  assumes run_Nil: "run [] xn = Done (xn, [])"
    and run_Cons: "run (e # es) xn = (case iter e xn of Waiting \<Rightarrow> Waiting
      | Done (yn, calls) \<Rightarrow> (case run es yn of Waiting \<Rightarrow> Waiting | Done (zn, calls') \<Rightarrow> Done (zn, calls @ calls')))"
    and iter_keeps: "sourced heard (want x) (fast x) es (holds x) (polls x) \<Longrightarrow> fit x \<Longrightarrow> clocked e \<Longrightarrow>
      iter e (x, n) = Done ((y, m), calls) \<Longrightarrow>
      sourced heard (want x) (fast x) (es @ [e]) (holds y) (polls y) \<and> fit y \<and> fast y = fast x \<and> want y = want x \<and>
      (\<forall>s \<in> set (published_states calls). shown e y s)"
begin

lemma published_when:
  assumes "calls_in iter P es (x, n) cs" "sourced heard (want x) (fast x) seen (holds x) (polls x)" "fit x"
    and "\<forall>e \<in> set es. clocked e" "(Publish s, u) \<in> set cs"
  shows "\<exists>before e after y. seen @ es = before @ e # after \<and>
    sourced heard (want x) (fast x) (before @ [e]) (holds y) (polls y) \<and> fit y \<and> fast y = fast x \<and> want y = want x \<and>
    shown e y s \<and> P e u"
  using assms
proof (induction es arbitrary: seen x n cs)
  case (Cons e es)
  obtain y m calls where i: "iter e (x, n) = Done ((y, m), calls)" "map fst (take (length calls) cs) = calls"
      "\<forall>(c, u) \<in> set (take (length calls) cs). P e u" "calls_in iter P es (y, m) (drop (length calls) cs)"
    using Cons.prems(1) by (auto split: wait.splits)
  note y = iter_keeps [OF Cons.prems(2,3) _ i(1)]
  have e: "clocked e" using Cons.prems(4) by simp
  have "(Publish s, u) \<in> set (take (length calls) cs) \<or> (Publish s, u) \<in> set (drop (length calls) cs)"
    using Cons.prems(5) by (metis Un_iff append_take_drop_id set_append)
  then show ?case
  proof
    assume s: "(Publish s, u) \<in> set (take (length calls) cs)"
    then have "Publish s \<in> fst ` set (take (length calls) cs)" by (metis fst_conv image_eqI)
    then have "Publish s \<in> set calls" using i(2) by (metis set_map)
    then have "s \<in> set (published_states calls)" by (induction calls rule: published_states.induct) auto
    then show ?thesis using y [OF e] i(3) s by (intro exI [of _ seen] exI [of _ e] exI [of _ es] exI [of _ y]) auto
  next
    assume "(Publish s, u) \<in> set (drop (length calls) cs)"
    then show ?thesis using Cons.IH [OF i(4), of "seen @ [e]"] y [OF e] Cons.prems(4) by simp
  qed
qed simp

lemma run_calls:
  "run es xn = Done (yn, calls) \<Longrightarrow> \<forall>e \<in> set es. P e u \<Longrightarrow> calls_in iter P es xn (map (\<lambda>c. (c, u)) calls)"
proof (induction es arbitrary: xn calls)
  case Nil
  then show ?case by (simp add: run_Nil)
next
  case (Cons e es)
  obtain zn c1 c2 where i: "iter e xn = Done (zn, c1)" "run es zn = Done (yn, c2)" "calls = c1 @ c2"
    using Cons.prems by (auto simp: run_Cons split: wait.splits)
  then show ?case using Cons.IH [OF i(2)] Cons.prems(2) by (auto simp: i(1,3) comp_def)
qed

lemma published_from:
  assumes "run es (x, n) = Done (yn, calls)" "sourced heard (want x) (fast x) seen (holds x) (polls x)" "fit x"
    and "\<forall>e \<in> set es. clocked e" "s \<in> set (published_states calls)"
  shows "\<exists>before e after y. seen @ es = before @ e # after \<and>
    sourced heard (want x) (fast x) (before @ [e]) (holds y) (polls y) \<and> fit y \<and> fast y = fast x \<and> want y = want x \<and>
    shown e y s"
proof -
  have "Publish s \<in> set calls" using assms(5) by (induction calls rule: published_states.induct) auto
  then have "(Publish s, 0) \<in> set (map (\<lambda>c. (c, 0)) calls)" by simp
  from published_when [OF run_calls [OF assms(1), of "\<lambda>_ _. True" 0] assms(2-4) this] show ?thesis by simp
qed

end

end
