(* ===== verification/Ice_Provenance.thy ===== *)
theory Ice_Provenance
  imports Obd2_Ice Obd_Provenance
begin

text \<open>
  Where the values of the obd2-ice plugin come from, and how old they are: its thread keeps the
  invariant \<open>sourced\<close>, through discovery, polling, dropped PIDs and a vehicle that goes away.
\<close>

section \<open>What the thread keeps\<close>

definition ice_heard :: "iter_env \<Rightarrow> iter_env list \<Rightarrow> u8 \<Rightarrow> f64 \<Rightarrow> bool" where
  "ice_heard e later pid v \<longleftrightarrow> heard_value e pid v"

interpretation ice_answers: answer_source ice_heard
  by unfold_locales (simp add: ice_heard_def)

abbreviation ice_sourced :: "iter_env list \<Rightarrow> Ice \<Rightarrow> bool" where
  "ice_sourced es x \<equiv> sourced ice_heard (set ice_want) (x_fastMs x) es (x_values x) (x_poller x)"

lemma ice_sourced_discover:
  assumes "ice_sourced es x" "ice_discover envs x = (out, y, calls)"
  shows "ice_sourced es y \<and> x_fastMs y = x_fastMs x \<and> published_states calls = []"
proof -
  obtain r c bs where d: "discover 300 envs (x_client x) = (r, c, bs)" by (metis prod_cases3)
  show ?thesis
  proof (cases "r = Done True")
    case True
    have "sourced ice_heard (set ice_want) (x_fastMs x) es Map.empty
        (fold (\<lambda>(pid, k) p. if pid \<in> c_supported c then poller_add pid (x_fastMs x * k) p else p) ice_want (poller_clear (x_poller x)))"
      by (rule sourced_wanted [OF sourced_cleared]) simp
    then show ?thesis
      using assms(2) True by (auto simp: ice_discover_def d Let_def telltales_fields cong: if_cong)
  next
    case False
    then show ?thesis
      using assms by (cases r) (auto simp: ice_discover_def d Let_def telltales_fields split: if_splits)
  qed
qed

lemma ice_sourced_plausible:
  assumes "ice_sourced es x" "ice_plausible pid v x = (ok, y, calls)"
  shows "ice_sourced es y \<and> x_fastMs y = x_fastMs x"
  using assms sourced_dropped [OF assms(1)] by (auto simp: ice_plausible_def Let_def split: if_splits)

lemma ice_sourced_poll:
  assumes "ice_sourced es x" "ice_ok x" "iter_ok e" "ice_poll e x = (gone, y, calls)"
  shows "ice_sourced (es @ [e]) y \<and> x_fastMs y = x_fastMs x"
proof (cases "nextDue (x_poller x) (it_now e)")
  case None
  obtain c bs where "idle (it_idle e) (x_client x) = (c, bs)" by fastforce
  then show ?thesis
    using assms(4) None ice_answers.sourced_later [OF assms(1), of e] by (auto simp: ice_poll_def telltales_fields)
next
  case (Some pid)
  let ?x = "x\<lparr> x_poller := markRequested pid (it_now e) (x_poller x) \<rparr>"
  obtain r c bs where q: "query pid (x_fastMs x) (it_query e) (x_client x) = (r, c, bs)" by (metis prod_cases3)
  let ?y = "fold ice_onTelltales bs (?x\<lparr> x_client := c \<rparr>)"
  have "ice_ok ?x" using assms(2,3) by (intro ice_requested_ok) (simp_all add: iter_ok_def)
  then have oky: "ice_ok ?y" by (simp add: telltales_fields)
  have "poller_ok (x_poller x)" using assms(2) by (simp add: ice_ok_def polls_within_def)
  then have y: "ice_sourced es ?y" "x_fastMs ?y = x_fastMs x"
    using sourced_requested [OF assms(1)] by (simp_all add: telltales_fields)
  show ?thesis
  proof (cases "\<exists>v. r = Done (Some v)")
    case True
    then obtain v where r: "r = Done (Some v)" by blast
    obtain ok z logs where p: "ice_plausible pid v ?y = (ok, z, logs)" by (metis prod_cases3)
    note z = ice_sourced_plausible [OF y(1) p] and okz = ice_plausible_ok [OF oky p]
    have pz: "poller_ok (x_poller z)" using okz by (simp add: ice_ok_def polls_within_def)
    have h: "ice_heard e [] pid v" using q r query_heard by (simp add: ice_heard_def)
    have "ice_sourced (es @ [e]) (z\<lparr> x_values := (x_values z)(pid \<mapsto> v), x_poller := markAnswered pid (it_answered e) (x_poller z) \<rparr>)"
      using ice_answers.sourced_answered [OF z [THEN conjunct1] pz h] by simp
    then show ?thesis
      using assms(4) Some q r p z y ice_answers.sourced_later [OF z [THEN conjunct1], of e]
      by (auto simp: ice_poll_def Let_def split: if_splits)
  next
    case False
    then show ?thesis
      using assms(4) Some q y ice_answers.sourced_later [OF y(1), of e]
      by (cases r) (auto simp: ice_poll_def Let_def split: option.splits if_splits)
  qed
qed

text \<open>What an iteration publishes with a valid signal it publishes at the iteration's publishing time.\<close>

definition ice_shown :: "iter_env \<Rightarrow> Ice \<Rightarrow> canproxy_vehicle_state \<Rightarrow> bool" where
  "ice_shown e y s \<longleftrightarrow> (\<exists>t. s = ice_state t y \<and> ((\<exists>sig. valid_sig s sig) \<longrightarrow> t = it_publish e))"

lemma ice_sourced_iter:
  assumes "ice_sourced es x" "ice_ok x" "iter_ok e" "ice_iter e (x, n) = Done ((y, m), calls)"
  shows "ice_sourced (es @ [e]) y \<and> x_fastMs y = x_fastMs x \<and> (\<forall>s \<in> set (published_states calls). ice_shown e y s)"
proof -
  obtain found z c1 where d: "(if x_discovered x then (Done True, x, []) else ice_discover (it_discovery e) x) = (found, z, c1)"
    by (metis prod_cases3)
  have z: "ice_sourced es z" "x_fastMs z = x_fastMs x" "published_states c1 = []" "ice_ok z"
    using d assms(1,2) ice_sourced_discover [of x es "it_discovery e" found z c1]
      ice_discover_ok [of x "it_discovery e" found z c1] by (auto split: if_splits)
  show ?thesis
  proof (cases "found = Done True")
    case True
    obtain gone w c2 where p: "ice_poll e (z\<lparr> x_discovered := True \<rparr>) = (gone, w, c2)" by (metis prod_cases3)
    have zd: "ice_sourced es (z\<lparr> x_discovered := True \<rparr>)" "ice_ok (z\<lparr> x_discovered := True \<rparr>)" using z by simp_all
    have w: "ice_sourced (es @ [e]) w \<and> x_fastMs w = x_fastMs x" "published_states c2 = []"
      using ice_sourced_poll [OF zd assms(3) p] ice_poll_ok [OF zd(2) assms(3) p] by (auto simp: z(2))
    show ?thesis
      using assms(4) d p True w z(3)
      by (cases gone) (auto simp: ice_iter_def ice_shown_def Let_def split: bool.splits if_splits)
  next
    case False
    have "sourced ice_heard (set ice_want) (x_fastMs z) (es @ [e]) Map.empty (x_poller z)"
      using ice_answers.sourced_later [OF z(1), of e] sourced_fewer by fastforce
    moreover have "found = Done False" using False assms(4) d by (cases found) (auto simp: ice_iter_def Let_def)
    ultimately show ?thesis
      using assms(4) d z by (auto simp: ice_iter_def ice_shown_def Let_def no_values_no_signals)
  qed
qed

interpretation ice_thread: answering_thread ice_heard ice_iter ice_run iter_ok "\<lambda>_. set ice_want" x_fastMs x_values x_poller
  ice_ok ice_shown
  by unfold_locales (auto dest: ice_sourced_iter ice_iter_ok)

section \<open>What is shown\<close>

text \<open>A measured field is the value of its PID; the fields set later do not change it.\<close>

lemma cap_other:
  assumes "\<And>v s. F (f v s) = F s" "\<And>c s. F (s\<lparr> s_capable := c \<rparr>) = F s" "\<And>c s. F (s\<lparr> s_valid := c \<rparr>) = F s"
  shows "F (ice_cap now x pid sig f s) = F s"
  using assms by (simp add: ice_cap_def Let_def split: option.splits)

lemma cap_known:
  assumes "\<And>v s. F (f v s) = v" "ice_knows now x pid"
  shows "F (ice_cap now x pid sig f s) = the (x_values x pid) * dlit 1"
  using assms by (auto simp: ice_cap_def ice_knows_def Let_def)

lemma power_other: "signal_value sig (ice_power x s) = signal_value sig s" "signal_value sig (s\<lparr> s_lamps := l \<rparr>) = signal_value sig s"
  by (cases sig; simp add: ice_power_def Let_def)+

lemma measured_value:
  assumes "ice_source_pid sig = Some pid" "ice_knows now x pid"
  shows "signal_value sig (ice_state now x) = the (x_values x pid) * dlit 1"
proof -
  have "signal_value sig (ice_measured now x) = the (x_values x pid) * dlit 1"
    unfolding ice_measured_def ice_caps_def
    using assms by (cases sig) (auto simp: ice_source_pid_def cap_other cap_known)
  then show ?thesis by (simp add: ice_state_eq power_other)
qed

text \<open>A published signal, under the invariant.\<close>

lemma ice_measured_sourced:
  assumes "ice_sourced es z" "s = ice_state t z" "valid_sig s sig" "ice_source_pid sig = Some pid"
  obtains e k v where "e \<in> set es" "heard_value e pid v" "signal_value sig s = v * dlit 1" "(pid, k) \<in> set ice_want"
    "t - it_answered e \<le> 3 * (x_fastMs z * k)"
proof -
  have knows: "ice_knows t z pid"
    using assms(3,4) by (auto simp: assms(2) ice_state_bits ice_source_pid_def split: if_splits)
  then obtain v where v: "x_values z pid = Some v" "poller_fresh (x_poller z) pid t" by (auto simp: ice_knows_def)
  obtain before e later k where "es = before @ e # later" "ice_heard e later pid v" "(pid, k) \<in> set ice_want"
      "t - it_answered e \<le> 3 * (x_fastMs z * k)"
    using fresh_sourced [OF assms(1) v] by metis
  then show ?thesis
    using that [of e v k] measured_value [OF assms(4) knows] v(1) by (simp add: ice_heard_def assms(2))
qed

lemma started_empty:
  assumes "ice_create args = Some (said, Some x)" "ice_start opened failure x = (0, y, logs)"
  shows "x_values y = Map.empty \<and> m_items (x_poller y) = []"
proof -
  have "x_values x = Map.empty \<and> m_items (x_poller x) = []"
    using assms(1) by (auto simp: ice_create_def Ice_new_def Poller_new_def Let_def split: option.splits sum.splits if_splits)
  then show ?thesis using assms(2) by (auto simp: ice_start_def Let_def split: prod.splits if_splits)
qed

text \<open>
  C5: The obd2-ice plugin shows nothing but recent answers: whenever it publishes a measured signal as
  valid, an ECU's response to that signal's PID came in before, in this run, its payload decodes to
  the value published, and it is at most three polling intervals of that PID old. This covers
  refused and dropped answers, rediscovery, and a vehicle that goes away and comes back.
\<close>

theorem ice_shows_recent_answers:
  assumes made: "ice_create args = Some (said, Some x)" "ice_start opened failure x = (0, y, logs)"
    and run: "\<forall>e \<in> set es. iter_ok e" "ice_run es (y, 0) = Done (xn, calls)"
    and shown: "s \<in> set (published_states calls)" "valid_sig s sig" "ice_source_pid sig = Some pid"
  shows "\<exists>es1 e' es2 e k v. es = es1 @ e' # es2 \<and> e \<in> set (es1 @ [e']) \<and> heard_value e pid v \<and>
    signal_value sig s = v * dlit 1 \<and> (pid, k) \<in> set ice_want \<and>
    it_publish e' - it_answered e \<le> 3 * (x_fastMs y * k)"
proof -
  have ok: "ice_ok y" using ice_started_ok [OF ice_created_ok [OF made(1)], of opened failure] made(2) by simp
  have "ice_sourced [] y" using started_empty [OF made] by (simp add: sourced_def)
  then obtain es1 e' es2 z where z: "es = es1 @ e' # es2" "ice_sourced (es1 @ [e']) z" "x_fastMs z = x_fastMs y"
      "ice_shown e' z s"
    using ice_thread.published_from [of es y 0 xn calls "[]" s] ok run shown(1) by auto
  have s: "s = ice_state (it_publish e') z" using z(4) shown(2) by (auto simp: ice_shown_def)
  obtain e k v where "e \<in> set (es1 @ [e'])" "heard_value e pid v" "signal_value sig s = v * dlit 1"
      "(pid, k) \<in> set ice_want" "it_publish e' - it_answered e \<le> 3 * (x_fastMs y * k)"
    using ice_measured_sourced [OF z(2) s shown(2,3)] z(3) by metis
  then show ?thesis using z(1) by metis
qed

text \<open>One iteration: an ECU advertises the speed alone, answers 50 km/h, and the state is published.\<close>

definition speed_iter :: iter_env where
  "speed_iter = \<lparr> it_now = 10,
     it_discovery = [\<lparr> e_written = True, e_tv = (0, 0), e_start = 0, e_rounds =
       [\<lparr> rd_now = 1, rd_arrived = Some \<lparr> can_id = 0x7E8, can_dlc = 8, can_data = [6, 0x41, 0, 0, 8, 0, 0, 0] \<rparr>,
          rd_tv = (0, 0), rd_seen = 1 \<rparr>] \<rparr>],
     it_query = \<lparr> e_written = True, e_tv = (0, 0), e_start = 10, e_rounds =
       [\<lparr> rd_now = 12, rd_arrived = Some \<lparr> can_id = 0x7E8, can_dlc = 8, can_data = [3, 0x41, 0x0D, 50, 0, 0, 0, 0] \<rparr>,
          rd_tv = (0, 0), rd_seen = 12 \<rparr>] \<rparr>,
     it_answered = 15, it_idle = \<lparr> rd_now = 0, rd_arrived = None, rd_tv = (0, 0), rd_seen = 0 \<rparr>,
     it_check = 16, it_publish = 17, it_after = 18 \<rparr>"

definition live_args :: canproxy_plugin_args where
  "live_args = \<lparr> vehicle_if = Some ''can0'', plugin_args = [] \<rparr>"

lemma speed_shown:
  obtains said x y logs xn calls s where "ice_create live_args = Some (said, Some x)" "ice_start Opens None x = (0, y, logs)"
    "ice_run [speed_iter] (y, 0) = Done (xn, calls)" "s \<in> set (published_states calls)" "valid_sig s CANPROXY_SIG_SPEED"
proof -
  let ?x = "the (snd (the (ice_create live_args)))"
  have r: "ice_create live_args \<noteq> None \<and> snd (the (ice_create live_args)) \<noteq> None \<and> fst (ice_start Opens None ?x) = 0 \<and>
    (case ice_run [speed_iter] (fst (snd (ice_start Opens None ?x)), 0) of
       Done (xn, calls) \<Rightarrow> list_ex (\<lambda>s. valid_sig s CANPROXY_SIG_SPEED) (published_states calls) | Waiting \<Rightarrow> False)"
    by code_simp
  then obtain said x where x: "ice_create live_args = Some (said, Some x)" by fastforce
  obtain y logs where y: "ice_start Opens None x = (0, y, logs)" using r x by (cases "ice_start Opens None x") simp
  obtain xn calls where "ice_run [speed_iter] (y, 0) = Done (xn, calls)"
      "list_ex (\<lambda>s. valid_sig s CANPROXY_SIG_SPEED) (published_states calls)"
    using r x y by (auto simp del: ice_run.simps split: wait.splits)
  then obtain s where "s \<in> set (published_states calls)" "valid_sig s CANPROXY_SIG_SPEED" by (auto simp: list_ex_iff)
  then show ?thesis by (rule that [OF x y \<open>ice_run [speed_iter] (y, 0) = Done (xn, calls)\<close>])
qed

theorem ice_shows_recent_answers_witness:
  "\<exists>said x y logs xn calls s v. ice_create live_args = Some (said, Some x) \<and> ice_start Opens None x = (0, y, logs) \<and>
    ice_run [speed_iter] (y, 0) = Done (xn, calls) \<and> s \<in> set (published_states calls) \<and>
    heard_value speed_iter PID_SPEED v \<and> s_speed_kmh s = v * dlit 1"
proof -
  obtain said x y logs xn calls s where r: "ice_create live_args = Some (said, Some x)" "ice_start Opens None x = (0, y, logs)"
    "ice_run [speed_iter] (y, 0) = Done (xn, calls)" "s \<in> set (published_states calls)" "valid_sig s CANPROXY_SIG_SPEED"
    by (rule speed_shown)
  have ok: "\<forall>e \<in> set [speed_iter]. iter_ok e" by (simp add: speed_iter_def iter_ok_def)
  have pid: "ice_source_pid CANPROXY_SIG_SPEED = Some PID_SPEED" by (simp add: ice_source_pid_def)
  obtain es1 e' es2 e v where "[speed_iter] = es1 @ e' # es2" "e \<in> set (es1 @ [e'])" "heard_value e PID_SPEED v"
      "signal_value CANPROXY_SIG_SPEED s = v * dlit 1"
    using ice_shows_recent_answers [OF r(1,2) ok r(3,4,5) pid] by blast
  moreover from this have "e = speed_iter" by (cases es1) auto
  ultimately show ?thesis using r by (auto simp del: ice_run.simps)
qed

end
