(* ===== verification/Dashboard.thy ===== *)
theory Dashboard
  imports Proxy_System Ice_Provenance
begin

text \<open>
  From the ECU to the consumer: the obd2-ice plugin's thread, the host, the publishing thread and the
  frames on the contract bus in one run, and how old a reading is that the consumer takes for valid.
\<close>

section \<open>What is current was published recently\<close>

lemma current_published:
  assumes "current_state timeout now cs = Some s"
  obtains u where "(Publish s, u) \<in> set cs" "now - u \<le> timeout"
proof -
  obtain u where "last_said cs = Some (s, u)" "now - u \<le> timeout"
    using assms by (auto simp: current_state_def split: option.splits if_splits)
  then show ?thesis using last_said_published that by blast
qed

text \<open>
  The host's clock is in nanoseconds, the plugin's in milliseconds. A call reaches the host at most
  \<open>delay\<close> after the plugin has read its clock for it; \<open>rest\<close> are the calls the run has not come to.
\<close>

definition calls_arrive :: "int \<Rightarrow> iter_env list \<Rightarrow> Ice \<Rightarrow> (host_call \<times> int) list \<Rightarrow> bool" where
  "calls_arrive delay es y cs \<longleftrightarrow> calls_in ice_iter (\<lambda>e u. u \<le> 1000000 * it_publish e + delay) es (y, 0) cs"

lemma published_by_ice:
  assumes made: "ice_create args = Some (said, Some x)" "ice_start opened failure x = (0, y, logs)"
    and es: "\<forall>e \<in> set es. iter_ok e" "calls_arrive delay es y cs" and s: "(Publish s, u) \<in> set cs"
  obtains before e after z where "es = before @ e # after" "ice_sourced (before @ [e]) z" "x_fastMs z = x_fastMs y"
    "ice_ok z" "ice_shown e z s" "u \<le> 1000000 * it_publish e + delay"
proof -
  have ok: "ice_ok y" using ice_started_ok [OF ice_created_ok [OF made(1)], of opened failure] made(2) by simp
  have "ice_sourced [] y" using started_empty [OF made] by (simp add: sourced_def)
  from ice_thread.published_when [OF es(2) [unfolded calls_arrive_def] this ok es(1) s] show ?thesis
    using that by auto
qed

section \<open>The property\<close>

text \<open>
  C4: No reading on the dashboard is older than it can be: in any interleaving of the obd2-ice plugin's
  thread with the publisher, whatever the car and the bus do, a measured signal that a consumer
  decodes as valid from a tick's frames carries a value that an ECU answered in this run, no longer
  ago than the publisher's timeout, three polling intervals of its PID and the time a call
  takes to reach the host.
\<close>

theorem dashboard_shows_recent_answers:
  assumes made: "ice_create args = Some (said, Some x)" "ice_start opened failure x = (0, y, logs)"
    and plugin: "\<forall>e \<in> set es. iter_ok e" "calls_arrive delay es y (calls_of evs @ rest)"
    and run: "sys_run (sys_start t0 cfg p) (evs @ [Ticked now sent]) q"
  shows "\<exists>g. (\<forall>(i, d) \<in> set sent. decodes_to i d g) \<and>
    (\<forall>sig pid. ice_source_pid sig = Some pid \<longrightarrow> wire_valid g sig \<longrightarrow>
      (\<exists>s e v k. e \<in> set es \<and> heard_value e pid v \<and> signal_value sig s = v * dlit 1 \<and> carries s g sig \<and>
        (pid, k) \<in> set ice_want \<and>
        now - 1000000 * it_answered e \<le> timeout_ns cfg + 3000000 * (x_fastMs y * k) + delay))"
proof -
  have "all_encodable s" if "s \<in> set (published_states (map fst (calls_of evs)))" for s
  proof -
    have "Publish s \<in> fst ` set (calls_of evs)" using that by (simp add: published_map flip: set_map)
    then obtain u where "(Publish s, u) \<in> set (calls_of evs)" by auto
    then have "(Publish s, u) \<in> set (calls_of evs @ rest)" by simp
    from published_by_ice [OF made plugin this] obtain e z where "ice_ok z" "ice_shown e z s" by metis
    then show ?thesis by (auto simp: ice_shown_def dest: ice_state_honest simp: honest_def)
  qed
  then obtain g where g: "\<forall>(i, d) \<in> set sent. decodes_to i d g"
    "\<forall>sig. sig \<noteq> CANPROXY_SIG_COUNT \<longrightarrow>
      (case current_state (timeout_ns cfg) now (calls_of evs) of
         None \<Rightarrow> \<not> wire_valid g sig
       | Some s \<Rightarrow> (wire_valid g sig \<longleftrightarrow> valid_sig s sig \<and> capable_sig s sig \<and> enum_in_range s sig) \<and>
           (wire_valid g sig \<longrightarrow> carries s g sig))"
    using tick_shows_current [OF run] by blast
  have "\<exists>s e v k. e \<in> set es \<and> heard_value e pid v \<and> signal_value sig s = v * dlit 1 \<and> carries s g sig \<and>
        (pid, k) \<in> set ice_want \<and> now - 1000000 * it_answered e \<le> timeout_ns cfg + 3000000 * (x_fastMs y * k) + delay"
    if sig: "ice_source_pid sig = Some pid" "wire_valid g sig" for sig pid
  proof -
    have "sig \<noteq> CANPROXY_SIG_COUNT" using sig(1) by (auto simp: ice_source_pid_def)
    then obtain s where s: "current_state (timeout_ns cfg) now (calls_of evs) = Some s" "valid_sig s sig" "carries s g sig"
      using g(2) sig(2) by (auto split: option.splits)
    obtain u where u: "(Publish s, u) \<in> set (calls_of evs)" "now - u \<le> timeout_ns cfg"
      using s(1) by (rule current_published)
    then have "(Publish s, u) \<in> set (calls_of evs @ rest)" by simp
    from published_by_ice [OF made plugin this] obtain before e' after z where z: "es = before @ e' # after"
        "ice_sourced (before @ [e']) z" "x_fastMs z = x_fastMs y" "ice_shown e' z s" "u \<le> 1000000 * it_publish e' + delay"
      by metis
    have t: "s = ice_state (it_publish e') z" using z(4) s(2) by (auto simp: ice_shown_def)
    obtain e k v where e: "e \<in> set (before @ [e'])" "heard_value e pid v" "signal_value sig s = v * dlit 1"
        "(pid, k) \<in> set ice_want" "it_publish e' - it_answered e \<le> 3 * (x_fastMs z * k)"
      using z(2) t s(2) sig(1) by (rule ice_measured_sourced)
    have "now - 1000000 * it_answered e \<le> timeout_ns cfg + 3000000 * (x_fastMs y * k) + delay"
      using u(2) z(5) e(5) by (simp add: z(3))
    then show ?thesis using z(1) e(1-4) s(3) by auto
  qed
  then show ?thesis using g(1) by blast
qed

text \<open>The plugin's calls, all made before the first tick.\<close>

lemma calls_can_be_made:
  "\<exists>q'. sys_run q (map (\<lambda>c. Called c u) cs) q' \<and> q_pub q' = q_pub q \<and> calls_of (map (\<lambda>c. Called c u) cs) = map (\<lambda>c. (c, u)) cs"
proof (induction cs rule: rev_induct)
  case Nil
  show ?case using sys_nil [of q] by auto
next
  case (snoc c cs)
  then obtain q' where q': "sys_run q (map (\<lambda>c. Called c u) cs) q'" "q_pub q' = q_pub q"
    "calls_of (map (\<lambda>c. Called c u) cs) = map (\<lambda>c. (c, u)) cs"
    by blast
  from sys_snoc [OF q'(1) sys_called [of q' c u]] show ?case using q'(2,3) by (auto intro!: exI)
qed

theorem dashboard_shows_recent_answers_witness:
  "\<exists>y xn calls s sent q g. ice_run [speed_iter] (y, 0) = Done (xn, calls) \<and> Publish s \<in> set calls \<and> valid_sig s CANPROXY_SIG_SPEED \<and>
    sys_run (sys_start 0 Config_default sample_plugin) (map (\<lambda>c. Called c 17000000) calls @ [Ticked 18000000 sent]) q \<and>
    (\<forall>(i, d) \<in> set sent. decodes_to i d g) \<and>
    (wire_valid g CANPROXY_SIG_SPEED \<longrightarrow> (\<exists>v. heard_value speed_iter PID_SPEED v))"
proof -
  obtain said x y logs xn calls s where r: "ice_create live_args = Some (said, Some x)" "ice_start Opens None x = (0, y, logs)"
    "ice_run [speed_iter] (y, 0) = Done (xn, calls)" "s \<in> set (published_states calls)" "valid_sig s CANPROXY_SIG_SPEED"
    by (rule speed_shown)
  have ok: "\<forall>e \<in> set [speed_iter]. iter_ok e" by (simp add: speed_iter_def iter_ok_def)
  let ?evs = "map (\<lambda>c. Called c 17000000) calls"
  let ?q = "sys_start 0 Config_default sample_plugin"
  obtain q where q: "sys_run ?q ?evs q" "q_pub q = q_pub ?q" "calls_of ?evs = map (\<lambda>c. (c, 17000000)) calls"
    using calls_can_be_made [of ?q 17000000 calls] by blast
  have p: "calls_arrive 0 [speed_iter] y (calls_of ?evs @ [])"
    unfolding calls_arrive_def q(3) append_Nil2 using r(3) by (rule ice_thread.run_calls) (simp add: speed_iter_def)
  have "ice_ok y" using ice_started_ok [OF ice_created_ok [OF r(1)], of Opens None] r(2) by simp
  then have "\<forall>s \<in> set (published_states calls). \<exists>now z. ice_ok z \<and> s = ice_state now z"
    using ice_run_ok [of y "[speed_iter]" 0 "fst xn" "snd xn" calls] ok r(3) by simp
  then have "\<forall>s \<in> set (published_states calls). all_encodable s" using ice_state_honest by (auto simp: honest_def)
  then have "\<forall>s \<in> set (published_states (map fst (calls_of ?evs))). all_encodable s" by (simp add: q(3) comp_def)
  moreover have "snd (q_pub q) \<le> 18000000" by (simp add: q(2) sys_start_def thread_start_def)
  ultimately obtain sent q' where t: "sys_step q (Ticked 18000000 sent) q'" using system_steps_on [OF q(1)] by blast
  have run: "sys_run ?q (?evs @ [Ticked 18000000 sent]) q'" by (rule sys_snoc [OF q(1) t])
  obtain g where g: "\<forall>(i, d) \<in> set sent. decodes_to i d g" "\<And>sig pid. ice_source_pid sig = Some pid \<Longrightarrow> wire_valid g sig \<Longrightarrow>
      \<exists>s e v k. e \<in> set [speed_iter] \<and> heard_value e pid v"
    using dashboard_shows_recent_answers [OF r(1,2) ok p run] by blast
  have "ice_source_pid CANPROXY_SIG_SPEED = Some PID_SPEED" by (simp add: ice_source_pid_def)
  then have "wire_valid g CANPROXY_SIG_SPEED \<longrightarrow> (\<exists>v. heard_value speed_iter PID_SPEED v)" using g(2) by force
  moreover have "Publish s \<in> set calls" using r(4) by (simp add: published_map)
  ultimately show ?thesis using r(3,5) run g(1) by blast
qed

end
