(* ===== verification/Emu_Provenance.thy ===== *)
theory Emu_Provenance
  imports Emu_Ev Obd_Provenance
begin

text \<open>
  Where the values of the emulator plugins come from, and how old they are: the PIDs of the OBD port
  and the records of the battery ECU. A record is stored before its fields are checked, so what is
  held may be of a later reply than the one that counted as the answer.
\<close>

section \<open>What is held, and what was received\<close>

datatype held = HeldPid f64 | HeldPack Pack | HeldRange Range | HeldDrive Drive | HeldAssist Assist

definition emu_holds :: "Emu \<Rightarrow> u8 \<Rightarrow> held option" where
  "emu_holds x key =
     (if key < 0xF0 then map_option HeldPid (e_values x key)
      else if key = kKeyPack then Some (HeldPack (e_pack x))
      else if key = kKeyRange then Some (HeldRange (e_range x))
      else if key = kKeyAssist then Some (HeldAssist (e_assist x))
      else if key = kKeyDrive then Some (HeldDrive (e_drive x)) else None)"

text \<open>The data of a positive reply to this iteration's request for a record.\<close>

definition emu_reply :: "emu_env \<Rightarrow> u8 \<Rightarrow> bytes \<Rightarrow> bool" where
  "emu_reply e key d \<longleftrightarrow> (\<exists>ch r. readDid ch (emu_did key) (em_did e) = Some r \<and> u_positive r \<and> u_data r = d)"

text \<open>The iteration brought this value, which was accepted or not.\<close>

fun emu_told :: "bool \<Rightarrow> emu_env \<Rightarrow> u8 \<Rightarrow> held \<Rightarrow> bool" where
  "emu_told ok e key (HeldPid v) \<longleftrightarrow> ok \<and> key < 0xF0 \<and> heard_value e key v"
| "emu_told ok e key (HeldPack p) \<longleftrightarrow> key = kKeyPack \<and> (\<exists>d p0. emu_reply e key d \<and> 7 \<le> length d \<and> decodePack d p0 = (ok, p))"
| "emu_told ok e key (HeldRange p) \<longleftrightarrow> key = kKeyRange \<and> (\<exists>d p0. emu_reply e key d \<and> 8 \<le> length d \<and> decodeRange d p0 = (ok, p))"
| "emu_told ok e key (HeldDrive p) \<longleftrightarrow> key = kKeyDrive \<and> (\<exists>d p0. emu_reply e key d \<and> 6 \<le> length d \<and> decodeDrive d p0 = (ok, p))"
| "emu_told ok e key (HeldAssist p) \<longleftrightarrow> key = kKeyAssist \<and> (\<exists>d p0. emu_reply e key d \<and> 6 \<le> length d \<and> decodeAssist d p0 = (ok, p))"

definition emu_heard :: "emu_env \<Rightarrow> emu_env list \<Rightarrow> u8 \<Rightarrow> held \<Rightarrow> bool" where
  "emu_heard e later key v \<longleftrightarrow> (\<exists>w. emu_told True e key w) \<and> (\<exists>e' \<in> set (e # later). \<exists>ok. emu_told ok e' key v)"

interpretation emu_answers: answer_source emu_heard
  by unfold_locales (auto simp: emu_heard_def)

lemma heard_at_once: "emu_told True e key v \<Longrightarrow> emu_heard e [] key v"
  by (auto simp: emu_heard_def)

lemma heard_again: "emu_heard a later key v \<Longrightarrow> emu_told ok e key w \<Longrightarrow> emu_heard a (later @ [e]) key w"
  by (auto simp: emu_heard_def)

lemma emu_holds_fields [simp]:
  "emu_holds (x\<lparr> e_client := c \<rparr>) = emu_holds x" "emu_holds (x\<lparr> e_poller := p \<rparr>) = emu_holds x"
  "emu_holds (x\<lparr> e_discovered := d \<rparr>) = emu_holds x" "emu_holds (x\<lparr> e_supported := S \<rparr>) = emu_holds x"
  "emu_holds (x\<lparr> e_bmsPresent := d \<rparr>) = emu_holds x" "emu_holds (x\<lparr> e_assistPresent := d \<rparr>) = emu_holds x"
  "emu_holds (x\<lparr> e_lamps := l \<rparr>) = emu_holds x" "emu_holds (x\<lparr> e_lampsSeenMs := t \<rparr>) = emu_holds x"
  by (simp_all add: emu_holds_def fun_eq_iff)

lemma record_keys: "\<not> kKeyPack < 0xF0" "\<not> kKeyRange < 0xF0" "\<not> kKeyDrive < 0xF0" "\<not> kKeyAssist < 0xF0"
  "kKeyPack \<noteq> kKeyRange" "kKeyPack \<noteq> kKeyDrive" "kKeyPack \<noteq> kKeyAssist" "kKeyRange \<noteq> kKeyDrive" "kKeyRange \<noteq> kKeyAssist"
  "kKeyDrive \<noteq> kKeyAssist"
  by (simp_all add: contract_consts)

lemma emu_holds_update:
  "key < 0xF0 \<Longrightarrow> emu_holds (x\<lparr> e_values := (e_values x)(key \<mapsto> v) \<rparr>) = (emu_holds x)(key \<mapsto> HeldPid v)"
  "emu_holds (x\<lparr> e_pack := pk \<rparr>) = (emu_holds x)(kKeyPack \<mapsto> HeldPack pk)"
  "emu_holds (x\<lparr> e_range := rg \<rparr>) = (emu_holds x)(kKeyRange \<mapsto> HeldRange rg)"
  "emu_holds (x\<lparr> e_drive := dr \<rparr>) = (emu_holds x)(kKeyDrive \<mapsto> HeldDrive dr)"
  "emu_holds (x\<lparr> e_assist := as \<rparr>) = (emu_holds x)(kKeyAssist \<mapsto> HeldAssist as)"
  using record_keys by (auto simp: emu_holds_def fun_eq_iff)

lemma emu_holds_no_values: "emu_holds (x\<lparr> e_values := Map.empty \<rparr>) \<subseteq>\<^sub>m emu_holds x"
  by (auto simp: map_le_def emu_holds_def)

lemma emu_telltales_source:
  "emu_holds (fold emu_onTelltales bs x) = emu_holds x" "e_fastMs (fold emu_onTelltales bs x) = e_fastMs x"
  "e_hybrid (fold emu_onTelltales bs x) = e_hybrid x" "e_values (fold emu_onTelltales bs x) = e_values x"
  "e_bms (fold emu_onTelltales bs x) = e_bms x"
  using emu_telltales_keep [of bs x] by auto

section \<open>What the thread keeps\<close>

definition emu_polled :: "bool \<Rightarrow> (u8 \<times> int) set" where
  "emu_polled hybrid = set (emu_want hybrid) \<union> {(kKeyPack, 1), (kKeyRange, 5), (kKeyDrive, 1), (kKeyAssist, 2)}"

abbreviation emu_sourced :: "emu_env list \<Rightarrow> Emu \<Rightarrow> bool" where
  "emu_sourced es x \<equiv> sourced emu_heard (emu_polled (e_hybrid x)) (e_fastMs x) es (emu_holds x) (e_poller x)"

definition emu_same :: "Emu \<Rightarrow> Emu \<Rightarrow> bool" where
  "emu_same x y \<longleftrightarrow> e_hybrid y = e_hybrid x \<and> e_fastMs y = e_fastMs x"

text \<open>A refused reply that is too short leaves the record alone.\<close>

lemma decode_short:
  "\<not> 7 \<le> length d \<Longrightarrow> decodePack d p = (False, p)" "\<not> 8 \<le> length d \<Longrightarrow> decodeRange d r = (False, r)"
  "\<not> 6 \<le> length d \<Longrightarrow> decodeDrive d v = (False, v)" "\<not> 6 \<le> length d \<Longrightarrow> decodeAssist d a = (False, a)"
  by (simp_all add: decodePack_def decodeRange_def decodeDrive_def decodeAssist_def)

lemma told_or_kept:
  assumes "long \<Longrightarrow> emu_told ok e key v" "emu_holds y = (emu_holds x)(key \<mapsto> v)" "\<not> long \<Longrightarrow> y = x \<and> \<not> ok"
    and "emu_same x y" "e_poller y = e_poller x"
  shows "emu_same x y \<and> e_poller y = e_poller x \<and>
    (emu_holds y = emu_holds x \<and> \<not> ok \<or> (\<exists>v. emu_told ok e key v \<and> emu_holds y = (emu_holds x)(key \<mapsto> v)))"
  using assms by (cases long) blast+

lemma emu_pollDid_told:
  assumes "emu_pollDid key (em_did e) x = (ok, y)" "key \<in> {kKeyPack, kKeyRange, kKeyDrive, kKeyAssist}"
  shows "emu_same x y \<and> e_poller y = e_poller x \<and>
    (emu_holds y = emu_holds x \<and> \<not> ok \<or> (\<exists>v. emu_told ok e key v \<and> emu_holds y = (emu_holds x)(key \<mapsto> v)))"
proof (cases "readDid (e_bms x) (emu_did key) (em_did e)")
  case None
  then show ?thesis using assms(1) by (simp add: emu_pollDid_def emu_same_def)
next
  case (Some r)
  show ?thesis
  proof (cases "u_positive r")
    case False
    then show ?thesis using assms(1) Some by (simp add: emu_pollDid_def emu_same_def)
  next
    case True
    then have r: "emu_reply e key (u_data r)" using Some by (auto simp: emu_reply_def)
    consider "key = kKeyPack" | "key = kKeyRange" | "key = kKeyDrive" | "key = kKeyAssist" using assms(2) by blast
    then show ?thesis
    proof cases
      case 1
      then obtain p where p: "decodePack (u_data r) (e_pack x) = (ok, p)" "y = x\<lparr> e_pack := p \<rparr>"
        using assms(1) Some True record_keys by (auto simp: emu_pollDid_def split: prod.splits)
      have "7 \<le> length (u_data r) \<Longrightarrow> emu_told ok e key (HeldPack p)" using r p(1) 1 by auto
      moreover have "emu_holds y = (emu_holds x)(key \<mapsto> HeldPack p)" unfolding p(2) 1 by (rule emu_holds_update)
      moreover have "\<not> 7 \<le> length (u_data r) \<Longrightarrow> y = x \<and> \<not> ok" using decode_short(1) p by simp
      ultimately show ?thesis by (rule told_or_kept) (simp_all add: emu_same_def p(2))
    next
      case 2
      then obtain p where p: "decodeRange (u_data r) (e_range x) = (ok, p)" "y = x\<lparr> e_range := p \<rparr>"
        using assms(1) Some True record_keys by (auto simp: emu_pollDid_def split: prod.splits)
      have "8 \<le> length (u_data r) \<Longrightarrow> emu_told ok e key (HeldRange p)" using r p(1) 2 by auto
      moreover have "emu_holds y = (emu_holds x)(key \<mapsto> HeldRange p)" unfolding p(2) 2 by (rule emu_holds_update)
      moreover have "\<not> 8 \<le> length (u_data r) \<Longrightarrow> y = x \<and> \<not> ok" using decode_short(2) p by simp
      ultimately show ?thesis by (rule told_or_kept) (simp_all add: emu_same_def p(2))
    next
      case 3
      then obtain p where p: "decodeDrive (u_data r) (e_drive x) = (ok, p)" "y = x\<lparr> e_drive := p \<rparr>"
        using assms(1) Some True record_keys by (auto simp: emu_pollDid_def split: prod.splits)
      have "6 \<le> length (u_data r) \<Longrightarrow> emu_told ok e key (HeldDrive p)" using r p(1) 3 by auto
      moreover have "emu_holds y = (emu_holds x)(key \<mapsto> HeldDrive p)" unfolding p(2) 3 by (rule emu_holds_update)
      moreover have "\<not> 6 \<le> length (u_data r) \<Longrightarrow> y = x \<and> \<not> ok" using decode_short(3) p by simp
      ultimately show ?thesis by (rule told_or_kept) (simp_all add: emu_same_def p(2))
    next
      case 4
      then obtain p where p: "decodeAssist (u_data r) (e_assist x) = (ok, p)" "y = x\<lparr> e_assist := p \<rparr>"
        using assms(1) Some True record_keys by (auto simp: emu_pollDid_def split: prod.splits)
      have "6 \<le> length (u_data r) \<Longrightarrow> emu_told ok e key (HeldAssist p)" using r p(1) 4 by auto
      moreover have "emu_holds y = (emu_holds x)(key \<mapsto> HeldAssist p)" unfolding p(2) 4 by (rule emu_holds_update)
      moreover have "\<not> 6 \<le> length (u_data r) \<Longrightarrow> y = x \<and> \<not> ok" using decode_short(4) p by simp
      ultimately show ?thesis by (rule told_or_kept) (simp_all add: emu_same_def p(2))
    qed
  qed
qed

lemma emu_query_told:
  assumes "emu_query key e x = (out, y)" "key < 0xF0 \<or> key \<in> {kKeyPack, kKeyRange, kKeyDrive, kKeyAssist}"
  shows "emu_same x y \<and> e_poller y = e_poller x \<and>
    (emu_holds y = emu_holds x \<and> out \<noteq> Done True \<or>
     (\<exists>ok v. out = Done ok \<and> emu_told ok e key v \<and> emu_holds y = (emu_holds x)(key \<mapsto> v)))"
proof (cases "key < 0xF0")
  case True
  then have k: "\<not> 0xF0 \<le> key" by simp
  obtain q c bs where q: "query key (e_fastMs x) (it_query e) (e_client x) = (q, c, bs)" by (metis prod_cases3)
  define z where "z = fold emu_onTelltales bs (x\<lparr> e_client := c \<rparr>)"
  have z: "emu_same x z" "e_poller z = e_poller x" "emu_holds z = emu_holds x"
    by (simp_all add: z_def emu_same_def emu_telltales_source emu_telltales_fields)
  show ?thesis
  proof (cases "\<exists>v. q = Done (Some v)")
    case True
    then obtain v where v: "q = Done (Some v)" by blast
    then have y: "out = Done True" "y = z\<lparr> e_values := (e_values z)(key \<mapsto> v) \<rparr>"
      using assms(1) q k by (simp_all add: emu_query_def z_def Let_def)
    have "emu_told True e key (HeldPid v)" using query_heard q v \<open>key < 0xF0\<close> by simp
    moreover have "emu_holds y = (emu_holds x)(key \<mapsto> HeldPid v)"
      using emu_holds_update(1) [OF \<open>key < 0xF0\<close>, of z v] z(3) y(2) by simp
    moreover have "emu_same x y" "e_poller y = e_poller x" using z y(2) by (simp_all add: emu_same_def)
    ultimately show ?thesis using y(1) by blast
  next
    case False
    then have "y = z \<and> out \<noteq> Done True"
      using assms(1) q k by (cases q) (auto simp: emu_query_def z_def split: option.splits)
    then show ?thesis using z by simp
  qed
next
  case False
  then have "0xF0 \<le> key" by simp
  then obtain ok where "emu_pollDid key (em_did e) x = (ok, y)" "out = Done ok"
    using assms(1) by (cases "emu_pollDid key (em_did e) x") (simp add: emu_query_def)
  then show ?thesis using emu_pollDid_told [of key e x ok y] assms(2) False by auto
qed

lemma emu_sourced_probe:
  assumes "emu_sourced es x"
  shows "emu_sourced es (emu_probe e x) \<and> emu_same x (emu_probe e x)"
proof -
  let ?w = "emu_polled (e_hybrid x)"
  have k: "(kKeyPack, 1) \<in> ?w" "(kKeyRange, 5) \<in> ?w" "(kKeyDrive, 1) \<in> ?w" "(kKeyAssist, 2) \<in> ?w"
    by (simp_all add: emu_polled_def)
  note 1 = sourced_added [OF sourced_added [OF sourced_added [OF assms k(3)] k(1)] k(2)]
  show ?thesis
    using assms 1 sourced_added [OF 1 k(4)] by (simp add: emu_probe_def emu_same_def Let_def)
qed

lemma emu_sourced_discover:
  assumes "emu_sourced es x" "emu_discover e x = (out, y, calls)"
  shows "emu_sourced es y \<and> emu_same x y \<and> published_states calls = []"
proof -
  obtain r c bs where d: "discover 300 (it_discovery e) (e_client x) = (r, c, bs)" by (metis prod_cases3)
  define z where "z = fold emu_onTelltales bs (x\<lparr> e_client := c \<rparr>)"
  have z: "emu_sourced es z" "emu_same x z"
    using assms(1) by (simp_all add: z_def emu_same_def emu_telltales_source emu_telltales_fields)
  show ?thesis
  proof (cases "r = Done True")
    case True
    define w where "w = z\<lparr> e_supported := c_supported c, e_poller := poller_clear (e_poller z), e_values := Map.empty \<rparr>"
    define v where "v = w\<lparr> e_poller := fold (\<lambda>(pid, k) p. if pid \<in> e_supported w then poller_add pid (e_fastMs w * k) p else p)
      (emu_want (e_hybrid w)) (e_poller w) \<rparr>"
    have w: "emu_sourced es w" unfolding w_def by (simp add: sourced_cleared)
    have "set (emu_want (e_hybrid w)) \<subseteq> emu_polled (e_hybrid w)" by (auto simp: emu_polled_def)
    then have "emu_sourced es v" unfolding v_def using sourced_wanted [OF w] by simp
    moreover have "emu_same x v" using z(2) by (simp add: v_def w_def emu_same_def)
    ultimately have "emu_sourced es (emu_probe e v)" "emu_same x (emu_probe e v)"
      using emu_sourced_probe [of v es e] by (auto simp: emu_same_def)
    then show ?thesis
      using assms(2) by (auto simp: emu_discover_def d True Let_def z_def w_def v_def cong: if_cong)
  next
    case False
    then show ?thesis
      using assms(2) z by (cases r) (auto simp: emu_discover_def d Let_def z_def split: if_splits)
  qed
qed

lemma emu_keys_pid: "key \<in> emu_keys x \<Longrightarrow> key < 0xF0 \<or> key \<in> {kKeyPack, kKeyRange, kKeyDrive, kKeyAssist}"
  by (auto simp: emu_want_def contract_consts split: if_splits)

lemma emu_sourced_poll:
  assumes "emu_sourced es x" "emu_ok x" "iter_ok (iter_env.truncate e)" "emu_poll e x = (gone, y, calls)"
  shows "emu_sourced (es @ [e]) y \<and> emu_same x y"
proof (cases "nextDue (e_poller x) (it_now e)")
  case None
  obtain c bs where "idle (it_idle e) (e_client x) = (c, bs)" by fastforce
  then show ?thesis
    using assms(4) None emu_answers.sourced_later [OF assms(1), of e]
    by (auto simp: emu_poll_def emu_same_def emu_telltales_source emu_telltales_fields)
next
  case (Some key)
  define w where "w = x\<lparr> e_poller := markRequested key (it_now e) (e_poller x) \<rparr>"
  have p: "poller_ok (e_poller x)" "key \<in> emu_keys x"
    using emu_ok_polls [OF assms(2)] nextDue_Some [OF _ Some] by (auto simp: polls_within_def)
  have t: "0 \<le> it_now e" using assms(3) by (simp add: iter_ok_def iter_env.truncate_def)
  have w: "emu_sourced es w" "emu_same x w" "poller_ok (e_poller w)"
    using sourced_requested [OF assms(1) p(1)] poller_ok_requested [OF p(1) t] by (simp_all add: w_def emu_same_def)
  obtain out z where q: "emu_query key e w = (out, z)" by fastforce
  note told = emu_query_told [OF q emu_keys_pid [OF p(2)]]
  have y: "out = Done True \<and> y = z\<lparr> e_poller := markAnswered key (it_answered e) (e_poller z) \<rparr> \<or>
      out \<noteq> Done True \<and> (y = z \<or> y = z\<lparr> e_discovered := False \<rparr>)"
    using assms(4) Some q by (auto simp: emu_poll_def simp flip: w_def split: wait.splits bool.splits if_splits)
  have z: "emu_same x z" "e_poller z = e_poller w" "e_fastMs z = e_fastMs w" "e_hybrid z = e_hybrid w"
    using told w(2) by (simp_all add: emu_same_def)
  show ?thesis
  proof (cases "emu_holds z = emu_holds w \<and> out \<noteq> Done True")
    case True
    then have "emu_sourced (es @ [e]) z" using emu_answers.sourced_later [OF w(1), of e] z by simp
    then show ?thesis using y True z(1) by (auto simp: emu_same_def)
  next
    case False
    then obtain ok v where v: "out = Done ok" "emu_told ok e key v" "emu_holds z = (emu_holds w)(key \<mapsto> v)"
      using told by blast
    show ?thesis
    proof (cases ok)
      case True
      have "emu_heard e [] key v" using v(2) True by (simp add: heard_at_once)
      from emu_answers.sourced_answered [OF w(1,3) this]
      have "emu_sourced (es @ [e]) (z\<lparr> e_poller := markAnswered key (it_answered e) (e_poller z) \<rparr>)"
        using z v(3) by simp
      then show ?thesis using y v(1) True z(1) by (simp add: emu_same_def)
    next
      case False
      have "emu_holds w key \<noteq> None"
        using v(2) False record_keys by (cases v) (auto simp: emu_holds_def)
      then have "emu_sourced (es @ [e]) z"
        using emu_answers.sourced_changed [OF w(1) _ heard_again [OF _ v(2)]] z v(3) by simp
      then show ?thesis using y v(1) False z(1) by (auto simp: emu_same_def)
    qed
  qed
qed

text \<open>A vehicle that is gone is published at the start of the iteration, everything else at its end.\<close>

definition emu_shown :: "emu_env \<Rightarrow> Emu \<Rightarrow> canproxy_vehicle_state \<Rightarrow> bool" where
  "emu_shown e y s \<longleftrightarrow> s = emu_state (it_now e) y \<or> s = emu_state (it_publish e) y"

lemma emu_sourced_iter:
  assumes "emu_sourced es x" "emu_ok x" "iter_ok (iter_env.truncate e)" "emu_iter e (x, n) = Done ((y, m), calls)"
  shows "emu_sourced (es @ [e]) y \<and> emu_same x y \<and> (\<forall>s \<in> set (published_states calls). emu_shown e y s)"
proof -
  obtain found z c1 where d: "(if e_discovered x then (Done True, x, []) else emu_discover e x) = (found, z, c1)"
    by (metis prod_cases3)
  have z: "emu_sourced es z" "emu_same x z" "published_states c1 = []" "emu_ok z"
    using d assms(1,2) emu_sourced_discover [of x es e found z c1] emu_discover_ok [of x e found z c1]
    by (auto simp: emu_same_def split: if_splits)
  show ?thesis
  proof (cases "found = Done True")
    case True
    obtain gone w c2 where p: "emu_poll e (z\<lparr> e_discovered := True \<rparr>) = (gone, w, c2)" by (metis prod_cases3)
    have zd: "emu_sourced es (z\<lparr> e_discovered := True \<rparr>)" "emu_ok (z\<lparr> e_discovered := True \<rparr>)" using z by simp_all
    have w: "emu_sourced (es @ [e]) w" "emu_same x w" "published_states c2 = []"
      using emu_sourced_poll [OF zd assms(3) p] emu_poll_ok [OF zd(2) assms(3) p] z(2) by (auto simp: emu_same_def)
    show ?thesis
      using assms(4) d p True w z(3)
      by (cases gone) (auto simp: emu_iter_def emu_shown_def Let_def split: bool.splits if_splits)
  next
    case False
    have "emu_sourced (es @ [e]) (z\<lparr> e_values := Map.empty \<rparr>)"
      using sourced_fewer [OF emu_answers.sourced_later [OF z(1), of e] emu_holds_no_values] by simp
    moreover have "found = Done False" using False assms(4) d by (cases found) (auto simp: emu_iter_def Let_def)
    ultimately show ?thesis
      using assms(4) d z by (auto simp: emu_iter_def emu_shown_def emu_same_def Let_def)
  qed
qed

interpretation emu_thread: answering_thread emu_heard emu_iter emu_run "\<lambda>e. iter_ok (iter_env.truncate e)"
  "\<lambda>x. emu_polled (e_hybrid x)" e_fastMs emu_holds e_poller emu_ok emu_shown
  by unfold_locales (auto simp: emu_same_def dest: emu_sourced_iter emu_iter_ok)

section \<open>What is shown\<close>

text \<open>The signal, or all the fields of its record, have the values of what is held.\<close>

fun emu_field :: "canproxy_signal \<Rightarrow> held \<Rightarrow> canproxy_vehicle_state \<Rightarrow> bool" where
  "emu_field sig (HeldPid v) s \<longleftrightarrow> signal_value sig s = v"
| "emu_field sig (HeldPack p) s \<longleftrightarrow> s_pack_voltage_v s = pk_voltageV p \<and> s_pack_current_a s = pk_currentA p \<and>
     s_soc_pct s = pk_socPct p \<and> s_soh_pct s = pk_sohPct p \<and> s_charging_state s = pk_charging p"
| "emu_field sig (HeldRange r) s \<longleftrightarrow> s_range_km s = of_long (rg_rangeKm r) \<and>
     s_consumption_wh_km s = of_long (rg_consumptionWhKm r)"
| "emu_field sig (HeldDrive d) s \<longleftrightarrow> s_gear s = dr_gear d \<and> s_power_state s = dr_powerState d \<and>
     s_motor_power_kw s = dr_motorPowerKw d \<and> (sig = CANPROXY_SIG_RPM \<longrightarrow> s_rpm s = of_long (dr_motorRpm d))"
| "emu_field sig (HeldAssist a) s \<longleftrightarrow> s_eco_score s = as_ecoScore a \<and> s_speed_limit_kmh s = as_speedLimitKmh a \<and>
     s_collision_risk s = as_collisionRisk a \<and> s_lane_state s = as_laneState a \<and> s_lead_gap_m s = as_leadGapM a"

lemma capPid_other:
  assumes "\<And>v s. F (f v s) = F s" "\<And>c s. F (s\<lparr> s_capable := c \<rparr>) = F s" "\<And>c s. F (s\<lparr> s_valid := c \<rparr>) = F s"
  shows "F (emu_capPid now x pid sig f s) = F s"
  using assms by (simp add: emu_capPid_def Let_def split: option.splits)

lemma capPid_known:
  assumes "\<And>v s. F (f v s) = v" "emu_knows now x pid"
  shows "F (emu_capPid now x pid sig f s) = the (e_values x pid)"
  using assms by (auto simp: emu_capPid_def emu_knows_def Let_def)

lemma emu_measured_value:
  assumes "emu_source_pid (e_hybrid x) sig = Some pid" "emu_knows now x pid"
  shows "signal_value sig (emu_measured now x) = the (e_values x pid)"
  unfolding emu_measured_def emu_caps_def
  using assms by (cases "e_hybrid x"; cases sig) (auto simp: emu_source_pid_def capPid_other capPid_known)

lemma records_keep:
  assumes "emu_source_pid (e_hybrid x) sig = Some pid"
  shows "signal_value sig (emu_assist now x (emu_battery now x s)\<lparr> s_lamps := l \<rparr>) = signal_value sig s"
  using assms
  by (cases "e_hybrid x"; cases sig)
    (simp_all add: emu_source_pid_def emu_assist_def emu_battery_def emu_drive_fields_def emu_range_fields_def
      emu_pack_fields_def Let_def)

lemma record_shown:
  assumes "emu_record_key x sig = Some key" "poller_fresh (e_poller x) key now"
  shows "\<exists>v. emu_holds x key = Some v \<and> emu_field sig v (emu_state now x)"
proof -
  have k: "key = kKeyPack \<and> e_bmsPresent x \<and> bit packSigs (sig_index sig) \<or> key = kKeyRange \<and> e_bmsPresent x \<or>
      key = kKeyDrive \<and> e_bmsPresent x \<and> (sig = CANPROXY_SIG_RPM \<longrightarrow> \<not> e_hybrid x) \<or> key = kKeyAssist \<and> e_assistPresent x"
    using assms(1) by (auto simp: emu_record_key_def record_sigs split: if_splits)
  then show ?thesis
    using assms(2) record_keys
    by (auto simp: emu_holds_def emu_state_eq emu_assist_def emu_battery_def emu_drive_fields_def emu_range_fields_def
      emu_pack_fields_def Let_def)
qed

section \<open>The property\<close>

text \<open>The PID or record a signal comes from.\<close>

definition emu_origin :: "bool \<Rightarrow> canproxy_signal \<Rightarrow> u8 \<Rightarrow> bool" where
  "emu_origin hybrid sig key \<longleftrightarrow> emu_source_pid hybrid sig = Some key \<or>
     key = kKeyPack \<and> bit packSigs (sig_index sig) \<or> key = kKeyRange \<and> bit rangeSigs (sig_index sig) \<or>
     key = kKeyDrive \<and> bit (driveSigs hybrid) (sig_index sig) \<or> key = kKeyAssist \<and> bit assistSigs (sig_index sig)"

lemma emu_state_field:
  assumes "valid_sig (emu_state t z) sig"
  obtains key v where "emu_origin (e_hybrid z) sig key" "poller_fresh (e_poller z) key t" "emu_holds z key = Some v"
    "emu_field sig v (emu_state t z)"
proof -
  consider pid where "emu_source_pid (e_hybrid z) sig = Some pid" "emu_knows t z pid"
    | key where "emu_record_key z sig = Some key" "poller_fresh (e_poller z) key t"
    using assms by (auto simp: emu_state_bits)
  then show ?thesis
  proof cases
    case 1
    obtain v where v: "e_values z pid = Some v" "poller_fresh (e_poller z) pid t" using 1(2) by (auto simp: emu_knows_def)
    have "pid < 0xF0" using 1(1) by (auto simp: emu_source_pid_def contract_consts split: if_splits)
    then have "emu_holds z pid = Some (HeldPid v)" by (simp add: emu_holds_def v(1))
    moreover have "emu_field sig (HeldPid v) (emu_state t z)"
      using records_keep [OF 1(1)] emu_measured_value [OF 1] v(1) by (simp add: emu_state_eq Let_def)
    ultimately show ?thesis using that [of pid "HeldPid v"] 1(1) v(2) by (simp add: emu_origin_def)
  next
    case 2
    moreover have "emu_origin (e_hybrid z) sig key"
      using 2(1) by (auto simp: emu_origin_def emu_record_key_def split: if_splits)
    ultimately show ?thesis using record_shown that by blast
  qed
qed

lemma emu_polled_inject: "emu_polled a = emu_polled b \<longleftrightarrow> a = b"
proof -
  have "(PID_RPM, 1) \<in> emu_polled h \<longleftrightarrow> h" for h by (auto simp: emu_polled_def emu_want_def contract_consts)
  from this [of a] this [of b] show ?thesis by (cases a; cases b) auto
qed

lemma emu_started_empty:
  assumes "emu_create args hybrid = Some (said, Some x)" "emu_start opened bms_opened failure x = (0, y, logs)"
  shows "m_items (e_poller y) = [] \<and> e_hybrid y = hybrid"
proof -
  have "m_items (e_poller x) = [] \<and> e_hybrid x = hybrid"
    using assms(1) by (auto simp: emu_create_def Emu_new_def Poller_new_def Let_def split: option.splits sum.splits if_splits)
  then show ?thesis using assms(2) by (auto simp: emu_start_def Let_def split: prod.splits if_splits)
qed

text \<open>
  C7: The emulator plugins, too, show nothing but recent answers: whenever one publishes a signal as
  valid, the PID or record the signal comes from was answered in this run, at most three of its
  polling intervals before, and the value published (for a record, all its fields together) is what
  a reply in that iteration or a later one said. A later reply may be a refused one.
\<close>

theorem emu_shows_recent_answers:
  assumes made: "emu_create args hybrid = Some (said, Some x)" "emu_start opened bms_opened failure x = (0, y, logs)"
    and run: "\<forall>e \<in> set es. iter_ok (iter_env.truncate e)" "emu_run es (y, 0) = Done (xn, calls)"
    and shown: "s \<in> set (published_states calls)" "valid_sig s sig"
  shows "\<exists>es1 e' es2 before e later key k v t. es = es1 @ e' # es2 \<and> es1 @ [e'] = before @ e # later \<and>
    emu_origin hybrid sig key \<and> emu_heard e later key v \<and> emu_field sig v s \<and> (key, k) \<in> emu_polled hybrid \<and>
    (t = it_now e' \<or> t = it_publish e') \<and> t - it_answered e \<le> 3 * (e_fastMs y * k)"
proof -
  have ok: "emu_ok y" using emu_started_ok [OF emu_created_ok [OF made(1)], of opened bms_opened failure] made(2) by simp
  have "emu_sourced [] y" using emu_started_empty [OF made] by (simp add: sourced_def poller_find_def)
  then obtain es1 e' es2 z where z: "es = es1 @ e' # es2" "emu_sourced (es1 @ [e']) z" "e_fastMs z = e_fastMs y"
      "e_hybrid z = hybrid" "emu_shown e' z s"
    using emu_thread.published_from [of es y 0 xn calls "[]" s] ok run shown(1) emu_started_empty [OF made]
    by (auto simp: emu_polled_inject)
  obtain t where t: "t = it_now e' \<or> t = it_publish e'" "s = emu_state t z" using z(5) by (auto simp: emu_shown_def)
  obtain key v where key: "emu_origin hybrid sig key" "poller_fresh (e_poller z) key t" "emu_holds z key = Some v"
      "emu_field sig v s"
    using emu_state_field [of t z sig] shown(2) t(2) z(4) by blast
  obtain before e later k where "es1 @ [e'] = before @ e # later" "emu_heard e later key v" "(key, k) \<in> emu_polled hybrid"
      "t - it_answered e \<le> 3 * (e_fastMs z * k)"
    by (rule fresh_sourced [OF z(2) key(3,2), unfolded z(4)])
  then show ?thesis using z(1,3) key(1,4) t(1) by metis
qed

text \<open>One iteration: an ECU advertises the speed alone, answers 50 km/h, and the state is published.\<close>

definition emu_speed_iter :: emu_env where
  "emu_speed_iter = \<lparr> it_now = 10,
     it_discovery = [\<lparr> e_written = True, e_tv = (0, 0), e_start = 0, e_rounds =
       [\<lparr> rd_now = 1, rd_arrived = Some \<lparr> can_id = 0x7E8, can_dlc = 8, can_data = [6, 0x41, 0, 0, 8, 0, 0, 0] \<rparr>,
          rd_tv = (0, 0), rd_seen = 1 \<rparr>] \<rparr>],
     it_query = \<lparr> e_written = True, e_tv = (0, 0), e_start = 10, e_rounds =
       [\<lparr> rd_now = 12, rd_arrived = Some \<lparr> can_id = 0x7E8, can_dlc = 8, can_data = [3, 0x41, 0x0D, 50, 0, 0, 0, 0] \<rparr>,
          rd_tv = (0, 0), rd_seen = 12 \<rparr>] \<rparr>,
     it_answered = 15, it_idle = \<lparr> rd_now = 0, rd_arrived = None, rd_tv = (0, 0), rd_seen = 0 \<rparr>,
     it_check = 16, it_publish = 17, it_after = 18, em_pack = quiet_bms, em_assist = quiet_bms, em_did = quiet_bms \<rparr>"

definition emu_args :: canproxy_plugin_args where
  "emu_args = \<lparr> vehicle_if = Some ''can0'', plugin_args = [] \<rparr>"

lemma emu_speed_shown:
  obtains said x y logs xn calls s where "emu_create emu_args False = Some (said, Some x)"
    "emu_start Opens TpOpens None x = (0, y, logs)" "emu_run [emu_speed_iter] (y, 0) = Done (xn, calls)"
    "s \<in> set (published_states calls)" "valid_sig s CANPROXY_SIG_SPEED"
proof -
  let ?x = "the (snd (the (emu_create emu_args False)))"
  have r: "emu_create emu_args False \<noteq> None \<and> snd (the (emu_create emu_args False)) \<noteq> None \<and>
    fst (emu_start Opens TpOpens None ?x) = 0 \<and>
    (case emu_run [emu_speed_iter] (fst (snd (emu_start Opens TpOpens None ?x)), 0) of
       Done (xn, calls) \<Rightarrow> list_ex (\<lambda>s. valid_sig s CANPROXY_SIG_SPEED) (published_states calls) | Waiting \<Rightarrow> False)"
    by code_simp
  then obtain said x where x: "emu_create emu_args False = Some (said, Some x)" by fastforce
  obtain y logs where y: "emu_start Opens TpOpens None x = (0, y, logs)"
    using r x by (cases "emu_start Opens TpOpens None x") simp
  obtain xn calls where "emu_run [emu_speed_iter] (y, 0) = Done (xn, calls)"
      "list_ex (\<lambda>s. valid_sig s CANPROXY_SIG_SPEED) (published_states calls)"
    using r x y by (auto simp del: emu_run.simps split: wait.splits)
  then obtain s where "s \<in> set (published_states calls)" "valid_sig s CANPROXY_SIG_SPEED" by (auto simp: list_ex_iff)
  then show ?thesis by (rule that [OF x y \<open>emu_run [emu_speed_iter] (y, 0) = Done (xn, calls)\<close>])
qed

theorem emu_shows_recent_answers_witness:
  "\<exists>y xn calls s v. emu_run [emu_speed_iter] (y, 0) = Done (xn, calls) \<and> s \<in> set (published_states calls) \<and>
    valid_sig s CANPROXY_SIG_SPEED \<and> heard_value emu_speed_iter PID_SPEED v \<and> s_speed_kmh s = v"
proof -
  obtain said x y logs xn calls s where r: "emu_create emu_args False = Some (said, Some x)"
    "emu_start Opens TpOpens None x = (0, y, logs)" "emu_run [emu_speed_iter] (y, 0) = Done (xn, calls)"
    "s \<in> set (published_states calls)" "valid_sig s CANPROXY_SIG_SPEED"
    by (rule emu_speed_shown)
  have ok: "\<forall>e \<in> set [emu_speed_iter]. iter_ok (iter_env.truncate e)"
    by (simp add: emu_speed_iter_def iter_ok_def iter_env.truncate_def)
  obtain es1 e' es2 before e later key v where h: "[emu_speed_iter] = es1 @ e' # es2" "es1 @ [e'] = before @ e # later"
      "emu_origin False CANPROXY_SIG_SPEED key" "emu_heard e later key v" "emu_field CANPROXY_SIG_SPEED v s"
    using emu_shows_recent_answers [OF r(1,2) ok r(3,4,5)] by blast
  have es: "es1 = []" "e' = emu_speed_iter" using h(1) by (cases es1; simp)+
  then have e: "e = emu_speed_iter" "later = []" using h(2) by (cases before; simp)+
  have "key = PID_SPEED"
    using h(3) unfolding emu_origin_def record_sigs by (simp add: emu_source_pid_def)
  then obtain ok where t: "emu_told ok emu_speed_iter PID_SPEED v" using h(4) e by (auto simp: emu_heard_def)
  then obtain q where "v = HeldPid q" using record_keys by (cases v) (auto simp: contract_consts)
  then have "heard_value emu_speed_iter PID_SPEED q" "s_speed_kmh s = q" using t h(5) by simp_all
  then show ?thesis using r(3,4,5) by blast
qed

end
