(* ===== verification/Publisher_Thread.thy ===== *)
theory Publisher_Thread
  imports Publisher
begin

text \<open>
  The publisher's thread as the code has it: \<open>start()\<close> and \<open>stop()\<close> of \<^verbatim>\<open>core/Publisher.cpp\<close> with the
  running flag, and the thread between its accesses to that flag. It refines the abstract thread
  of \<open>Publisher\<close>, and \<open>stop()\<close> returns: once asked, the thread ticks at most once more.
\<close>

section \<open>Clock\<close>

text \<open>The deadline as the \<open>timespec\<close> the thread sleeps until, and back as \<open>monotonicNow\<close> reads it.\<close>

definition monotonicNow :: "int \<times> int \<Rightarrow> int" where
  "monotonicNow ts = fst ts * 1000000000 + snd ts"

definition sleep_until :: "int \<Rightarrow> int \<times> int" where
  "sleep_until next = (next div 1000000000, next mod 1000000000)"

lemma sleep_until_deadline: "monotonicNow (sleep_until next) = next" "0 \<le> snd (sleep_until next)"
    "snd (sleep_until next) < 1000000000"
  by (simp_all add: monotonicNow_def sleep_until_def)

section \<open>The thread and its flag\<close>

text \<open>
  Where the thread is: not created or joined, about to arm, about to read the flag, about to tick,
  asleep (each with its deadline), or past its loop.
\<close>

datatype thread_at = NoThread | Arming | Checking int | Ticking int | Asleep int | Ended

datatype pub_event = Started | StopCalled | Joined | Armed int | Checked | TickedAt int Snapshot "(u32 \<times> bytes) list" | Woken

record PubThread =
  h_pub :: Publisher
  h_running :: bool
  h_stopping :: bool
  h_at :: thread_at

definition PubThread_new :: "Publisher \<Rightarrow> PubThread" where
  "PubThread_new p = \<lparr> h_pub = p, h_running = False, h_stopping = False, h_at = NoThread \<rparr>"

text \<open>
  One caller owns the publisher, so nothing is called while \<open>stop()\<close> waits for the thread. A sleep
  ends at its deadline; an interrupted one goes on while the flag is set. So either the deadline
  has passed when the loop goes round, or the flag is off and the thread ends.
\<close>

inductive pub_step :: "PubThread \<Rightarrow> pub_event \<Rightarrow> PubThread \<Rightarrow> bool" where
  start_again: "\<not> h_stopping h \<Longrightarrow> h_running h \<Longrightarrow> pub_step h Started h"
| start_new: "\<not> h_stopping h \<Longrightarrow> \<not> h_running h \<Longrightarrow>
    pub_step h Started (h\<lparr> h_running := True, h_at := Arming \<rparr>)"
| stop_idle: "\<not> h_stopping h \<Longrightarrow> \<not> h_running h \<Longrightarrow> pub_step h StopCalled h"
| stop_asked: "\<not> h_stopping h \<Longrightarrow> h_running h \<Longrightarrow>
    pub_step h StopCalled (h\<lparr> h_running := False, h_stopping := True \<rparr>)"
| stop_joined: "h_stopping h \<Longrightarrow> h_at h = Ended \<Longrightarrow>
    pub_step h Joined (h\<lparr> h_stopping := False, h_at := NoThread \<rparr>)"
| armed_at: "h_at h = Arming \<Longrightarrow> pub_step h (Armed t) (h\<lparr> h_pub := arm t (h_pub h), h_at := Checking t \<rparr>)"
| goes_on: "h_at h = Checking w \<Longrightarrow> h_running h \<Longrightarrow> pub_step h Checked (h\<lparr> h_at := Ticking w \<rparr>)"
| loop_ends: "h_at h = Checking w \<Longrightarrow> \<not> h_running h \<Longrightarrow> pub_step h Checked (h\<lparr> h_at := Ended \<rparr>)"
| ticked_at: "h_at h = Ticking w \<Longrightarrow> w \<le> now \<Longrightarrow> tick store now (h_pub h) = Some (w', p, sent, logs) \<Longrightarrow>
    pub_step h (TickedAt now store sent) (h\<lparr> h_pub := p, h_at := Asleep w' \<rparr>)"
| woken_at: "h_at h = Asleep w \<Longrightarrow> pub_step h Woken (h\<lparr> h_at := Checking w \<rparr>)"

inductive_cases pub_stepE: "pub_step h e h'"

inductive pub_run :: "PubThread \<Rightarrow> pub_event list \<Rightarrow> PubThread \<Rightarrow> bool" where
  pub_nil: "pub_run h [] h"
| pub_cons: "pub_step h e h' \<Longrightarrow> pub_run h' es h'' \<Longrightarrow> pub_run h (e # es) h''"

inductive_simps pub_run_nil: "pub_run h [] h'"
inductive_simps pub_run_cons: "pub_run h (e # es) h''"

section \<open>The ticks of a session\<close>

fun ticks_of :: "pub_event list \<Rightarrow> (int \<times> Snapshot \<times> (u32 \<times> bytes) list) list" where
  "ticks_of [] = []"
| "ticks_of (TickedAt now store sent # es) = (now, store, sent) # ticks_of es"
| "ticks_of (_ # es) = ticks_of es"

text \<open>The abstract thread that a state stands for, with the deadline it sleeps for.\<close>

definition stands_for :: "PubThread \<Rightarrow> Publisher \<times> int \<Rightarrow> bool" where
  "stands_for h st \<longleftrightarrow> h_pub h = fst st \<and> h_at h \<noteq> Arming \<and>
     (\<forall>w. h_at h = Checking w \<or> h_at h = Ticking w \<or> h_at h = Asleep w \<longrightarrow> w = snd st)"

text \<open>A step is a tick of the abstract thread, or is not seen by it.\<close>

lemma step_simulated:
  assumes "pub_step h e h'" "stands_for h st" "e \<noteq> Started"
  obtains (tick) now store sent st' where "e = TickedAt now store sent" "thread_tick st (now, store, sent) st'" "stands_for h' st'"
  | (skip) "ticks_of [e] = []" "stands_for h' st"
proof -
  obtain p wake where st: "st = (p, wake)" by fastforce
  from assms(1) show thesis
  proof cases
    case (ticked_at w now store w' p' sent logs)
    then have "thread_tick st (now, store, sent) (p', w')"
      using assms(2) st by (auto simp: stands_for_def intro!: ticks)
    moreover have "stands_for h' (p', w')" using ticked_at by (simp add: stands_for_def)
    ultimately show ?thesis using ticked_at(1) tick by blast
  qed (use assms(2,3) in \<open>auto simp: stands_for_def intro!: skip\<close>)
qed

lemma run_simulated:
  assumes "pub_run h es h'" "stands_for h st" "Started \<notin> set es" "thread_run st0 evs st"
  shows "\<exists>st'. thread_run st0 (evs @ ticks_of es) st' \<and> stands_for h' st'"
  using assms
proof (induction h es h' arbitrary: st evs rule: pub_run.induct)
  case (pub_cons h e h' es h'')
  have e: "e \<noteq> Started" "Started \<notin> set es" using pub_cons.prems(2) by auto
  from pub_cons.hyps(1) pub_cons.prems(1) e(1) show ?case
  proof (cases rule: step_simulated)
    case (tick now store sent st')
    have "thread_run st0 (evs @ [(now, store, sent)]) st'" using pub_cons.prems(3) tick(2) by (rule run_snoc)
    then show ?thesis using pub_cons.IH [OF tick(3) e(2)] tick(1) by fastforce
  next
    case skip
    then have "ticks_of (e # es) = ticks_of es" by (cases e) simp_all
    then show ?thesis using pub_cons.IH [OF skip(2) e(2) pub_cons.prems(3)] by simp
  qed
qed auto


section \<open>Stopping\<close>

text \<open>What is left of the thread once the flag is off.\<close>

fun steps_left :: "thread_at \<Rightarrow> nat" where
  "steps_left NoThread = 0"
| "steps_left Ended = 0"
| "steps_left (Checking w) = 1"
| "steps_left Arming = 2"
| "steps_left (Asleep w) = 2"
| "steps_left (Ticking w) = 3"

definition stopping_ok :: "PubThread \<Rightarrow> bool" where
  "stopping_ok h \<longleftrightarrow> h_stopping h \<and> \<not> h_running h \<and> h_at h \<noteq> NoThread"

lemma thread_inv:
  assumes "pub_run h es h'" "h_running h \<or> h_stopping h \<longleftrightarrow> h_at h \<noteq> NoThread" "\<not> (h_running h \<and> h_stopping h)"
  shows "(h_running h' \<or> h_stopping h' \<longleftrightarrow> h_at h' \<noteq> NoThread) \<and> \<not> (h_running h' \<and> h_stopping h')"
  using assms
proof (induction h es h' rule: pub_run.induct)
  case (pub_cons h e h' es h'')
  have "(h_running h' \<or> h_stopping h' \<longleftrightarrow> h_at h' \<noteq> NoThread) \<and> \<not> (h_running h' \<and> h_stopping h')"
    using pub_cons.hyps(1) pub_cons.prems by cases auto
  then show ?case using pub_cons.IH by blast
qed simp

lemma stopping_reached:
  assumes "pub_run (PubThread_new p) es h" "h_stopping h"
  shows "stopping_ok h"
  using thread_inv [OF assms(1)] assms(2) by (auto simp: PubThread_new_def stopping_ok_def)

lemma stopping_step:
  assumes "pub_step h e h'" "stopping_ok h" "e \<noteq> Joined"
  shows "stopping_ok h' \<and> steps_left (h_at h') < steps_left (h_at h) \<and>
    (length (ticks_of [e]) = 1 \<longrightarrow> steps_left (h_at h) = 3) \<and> length (ticks_of [e]) \<le> 1"
  using assms by cases (auto simp: stopping_ok_def)

lemma stopping_run:
  assumes "pub_run h es h'" "stopping_ok h" "Joined \<notin> set es"
  shows "length es \<le> steps_left (h_at h) \<and> length (ticks_of es) \<le> (if steps_left (h_at h) = 3 then 1 else 0)"
  using assms
proof (induction h es h' rule: pub_run.induct)
  case (pub_cons h e h' es h'')
  have e: "e \<noteq> Joined" "Joined \<notin> set es" using pub_cons.prems(2) by auto
  note s = stopping_step [OF pub_cons.hyps(1) pub_cons.prems(1) e(1)]
  have t: "ticks_of (e # es) = ticks_of [e] @ ticks_of es" by (cases e) simp_all
  have "steps_left (h_at h) \<le> 3" by (cases "h_at h") simp_all
  then show ?case using pub_cons.IH s e(2) unfolding t by (cases "ticks_of [e]") (auto split: if_splits)
qed simp

lemma stopping_goes_on:
  assumes "stopping_ok h" "all_encodable (state (store :: Snapshot))"
  shows "\<exists>fs h'. pub_run h (fs @ [Joined]) h'"
  using assms(1)
proof (induction "steps_left (h_at h)" arbitrary: h rule: less_induct)
  case less
  show ?case
  proof (cases "h_at h = Ended")
    case True
    then have "pub_step h Joined (h\<lparr> h_stopping := False, h_at := NoThread \<rparr>)"
      using less.prems by (intro stop_joined) (simp_all add: stopping_ok_def)
    then have "pub_run h ([] @ [Joined]) (h\<lparr> h_stopping := False, h_at := NoThread \<rparr>)"
      by (simp add: pub_run_cons pub_run_nil)
    then show ?thesis by blast
  next
    case False
    have "\<exists>e h'. pub_step h e h' \<and> e \<noteq> Joined"
    proof (cases "h_at h")
      case (Ticking w)
      obtain w' p' sent logs where "tick store w (h_pub h) = Some (w', p', sent, logs)"
        using assms(2) by (rule tick_defined)
      then show ?thesis using ticked_at [OF Ticking order_refl] by blast
    qed (use False less.prems in \<open>auto simp: stopping_ok_def intro: pub_step.intros\<close>)
    then obtain e h' where e: "pub_step h e h'" "e \<noteq> Joined" by blast
    then obtain fs h'' where "pub_run h' (fs @ [Joined]) h''"
      using less.hyps stopping_step [OF e(1) less.prems e(2)] by blast
    then have "pub_run h ((e # fs) @ [Joined]) h''" using pub_cons [OF e(1)] by simp
    then show ?thesis by blast
  qed
qed

text \<open>
  C11: \<open>stop()\<close> returns: once it has asked the thread to end, the thread can always go on to where it
  is joined, it makes at most three more steps until then, and at most one of them is a tick, so
  no more than one more set of frames is sent.
\<close>

theorem stop_joins:
  assumes run: "pub_run (PubThread_new p) es h" and asked: "h_stopping h" and enc: "all_encodable (state (store :: Snapshot))"
  shows "(\<exists>fs h'. pub_run h (fs @ [Joined]) h') \<and>
    (\<forall>fs h'. pub_run h fs h' \<longrightarrow> Joined \<in> set fs \<or> length fs \<le> 3 \<and> length (ticks_of fs) \<le> 1)"
proof -
  have ok: "stopping_ok h" using run asked by (rule stopping_reached)
  have "length fs \<le> 3 \<and> length (ticks_of fs) \<le> 1" if "pub_run h fs h'" "Joined \<notin> set fs" for fs h'
  proof -
    have "steps_left (h_at h) \<le> 3" by (cases "h_at h") simp_all
    then show ?thesis using stopping_run [OF that(1) ok that(2)] by (auto split: if_splits)
  qed
  then show ?thesis using stopping_goes_on [OF ok enc] by blast
qed

section \<open>Witnesses\<close>

text \<open>The thread starts, ticks once, and is told to stop while it sleeps.\<close>

lemma sample_session:
  obtains h1 sent h where
    "pub_run (PubThread_new (Publisher_new 1000000000 1 0))
       [Started, Armed 0, Checked, TickedAt 0 StateStore_init sent, StopCalled] h"
    "pub_step (PubThread_new (Publisher_new 1000000000 1 0)\<lparr> h_running := True, h_at := Arming \<rparr>) (Armed 0) h1"
    "pub_run h1 [Checked, TickedAt 0 StateStore_init sent, StopCalled] h" "h_stopping h"
proof -
  let ?p = "Publisher_new 1000000000 1 0"
  let ?h0 = "PubThread_new ?p"
  let ?s = "?h0\<lparr> h_running := True, h_at := Arming \<rparr>"
  let ?a = "?s\<lparr> h_pub := arm 0 (h_pub ?s), h_at := Checking 0 \<rparr>"
  let ?c = "?a\<lparr> h_at := Ticking 0 \<rparr>"
  have enc: "all_encodable (state StateStore_init)" by (simp add: StateStore_init_def zero_encodable)
  obtain w p sent logs where t: "tick StateStore_init 0 (h_pub ?c) = Some (w, p, sent, logs)"
    using enc by (rule tick_defined)
  let ?t = "?c\<lparr> h_pub := p, h_at := Asleep w \<rparr>"
  let ?x = "?t\<lparr> h_running := False, h_stopping := True \<rparr>"
  have 1: "pub_step ?h0 Started ?s" by (rule start_new) (simp_all add: PubThread_new_def)
  have 2: "pub_step ?s (Armed 0) ?a" by (rule armed_at) simp
  have 3: "pub_step ?a Checked ?c" by (rule goes_on) simp_all
  have 4: "pub_step ?c (TickedAt 0 StateStore_init sent) ?t" using t by (intro ticked_at [where w = 0]) simp_all
  have 5: "pub_step ?t StopCalled ?x" by (rule stop_asked) (simp_all add: PubThread_new_def)
  have r: "pub_run ?a [Checked, TickedAt 0 StateStore_init sent, StopCalled] ?x"
    using 3 4 5 by (blast intro: pub_cons pub_nil)
  then have "pub_run ?h0 [Started, Armed 0, Checked, TickedAt 0 StateStore_init sent, StopCalled] ?x"
    using 1 2 by (blast intro: pub_cons)
  then show ?thesis using that 2 r by simp
qed


theorem stop_joins_witness:
  "\<exists>es h fs h'. pub_run (PubThread_new (Publisher_new 1000000000 1 0)) es h \<and> h_stopping h \<and> pub_run h (fs @ [Joined]) h'"
proof -
  obtain es h where h: "pub_run (PubThread_new (Publisher_new 1000000000 1 0)) es h" "h_stopping h"
    by (rule sample_session)
  moreover have "all_encodable (state StateStore_init)" by (simp add: StateStore_init_def zero_encodable)
  ultimately show ?thesis using stop_joins by blast
qed

end
