(* ===== verification/Can_Replay.thy ===== *)
theory Can_Replay
  imports Can_Channel Contract_Codec
begin

text \<open>
  \<^verbatim>\<open>tools/can-replay.cpp\<close>: reading a candump log, and playing it back frame by frame or as the recorded
  vehicle. \<open>None\<close> is undefined behaviour of the C++ code (a payload byte that is not hexadecimal leaves
  a variable unset that is then read; a time that does not fit the integer it is converted to).
  A record's data are the bytes the line gave; those beyond the length are never set by the tool.
\<close>

section \<open>Reading a log\<close>

record Rec =
  rec_t :: f64
  rec_id :: u32
  rec_dlc :: u8
  rec_data :: bytes

definition lit :: "char \<Rightarrow> string \<Rightarrow> string option" where
  "lit c s = (if s \<noteq> [] \<and> hd s = c then Some (tl s) else None)"

text \<open>\<open>%31s\<close> and \<open>%63s\<close>: white space, then up to that many other characters, at least one.\<close>

definition scan_word :: "nat \<Rightarrow> string \<Rightarrow> (string \<times> string) option" where
  "scan_word w s = (
     let t = dropWhile is_space s; cs = take w (takeWhile (\<lambda>c. \<not> is_space c) t)
     in if cs = [] then None else Some (cs, drop (length cs) t))"

definition scan_line :: "string \<Rightarrow> (nat \<times> nat \<times> string \<times> u32 \<times> string) option" where
  "scan_line line = do {
     s \<leftarrow> lit CHR ''('' line;
     (neg, v, s) \<leftarrow> scan_number 10 s;
     let sec = to_unsigned 64 neg v;
     s \<leftarrow> lit CHR ''.'' s;
     (neg, v, s) \<leftarrow> scan_number 10 s;
     let usec = to_unsigned 64 neg v;
     s \<leftarrow> lit CHR '')'' s;
     (iface, s) \<leftarrow> scan_word 31 s;
     (neg, v, s) \<leftarrow> scan_number 16 s;
     s \<leftarrow> lit CHR ''#'' s;
     (hex, s) \<leftarrow> scan_word 63 s;
     Some (sec, usec, iface, of_nat (to_unsigned 32 neg v), hex)
   }"

text \<open>The payload byte at \<open>2 * i\<close>; \<open>None\<close> when nothing is read.\<close>

definition hex_at :: "string \<Rightarrow> nat \<Rightarrow> u8 option" where
  "hex_at hex i =
     (case scan_number 16 (take 2 (drop (2 * i) hex)) of
        None \<Rightarrow> None
      | Some (neg, v, _) \<Rightarrow> Some (of_nat (to_unsigned 32 neg v)))"

fun all_some :: "'a option list \<Rightarrow> 'a list option" where
  "all_some [] = Some []"
| "all_some (x # xs) = (case x of None \<Rightarrow> None | Some y \<Rightarrow> map_option ((#) y) (all_some xs))"

definition parseLine :: "string \<Rightarrow> Rec option option" where
  "parseLine line =
     (case scan_line line of
        None \<Rightarrow> Some None
      | Some (sec, usec, iface, i, hex) \<Rightarrow> (
          let n = length hex div 2; dlc = (if n > 8 then 8 else n)
          in case all_some (map (hex_at hex) [0..<dlc]) of
               None \<Rightarrow> None
             | Some d \<Rightarrow> Some (Some \<lparr> rec_t = of_long (int sec) + of_long (int usec) / dlit 1000000,
                 rec_id = i, rec_dlc = of_nat dlc, rec_data = d \<rparr>)))"

fun parse_log :: "string list \<Rightarrow> Rec list option" where
  "parse_log [] = Some []"
| "parse_log (l # ls) =
     (case parseLine l of
        None \<Rightarrow> None
      | Some None \<Rightarrow> parse_log ls
      | Some (Some r) \<Rightarrow> map_option ((#) r) (parse_log ls))"

section \<open>Timed replay\<close>

text \<open>When each frame is due, in microseconds after the start.\<close>

definition replay_due :: "Rec list \<Rightarrow> int list option" where
  "replay_due recs = all_some (map (\<lambda>r. f64_to_long ((rec_t r - rec_t (hd recs)) * dlit 1000000)) recs)"

section \<open>Answering as the recorded vehicle\<close>

definition isObdRequest :: "u32 \<Rightarrow> bool" where
  "isObdRequest i \<longleftrightarrow> i = 0x7DF \<or> (i \<ge> 0x7E0 \<and> i \<le> 0x7E7)"

definition isObdResponse :: "u32 \<Rightarrow> bool" where
  "isObdResponse i \<longleftrightarrow> i \<ge> 0x7E8 \<and> i \<le> 0x7EF"

record Respond =
  answers :: "u8 \<rightharpoonup> Rec"
  broadcastTimes :: "u32 \<rightharpoonup> f64 list"
  broadcastLast :: "u32 \<rightharpoonup> Rec"

definition answers_pid :: "u8 \<Rightarrow> Rec \<Rightarrow> bool" where
  "answers_pid pid a \<longleftrightarrow> isObdResponse (rec_id a) \<and> rec_dlc a \<ge> 3 \<and> rec_data a ! 2 = pid"

definition asks :: "Rec \<Rightarrow> bool" where
  "asks r \<longleftrightarrow> isObdRequest (rec_id r) \<and> rec_dlc r \<ge> 3"

definition replay_window :: nat where [contract_consts]: "replay_window = 16"

definition learn :: "Rec \<Rightarrow> Rec list \<Rightarrow> Respond \<Rightarrow> Respond" where
  "learn r later t =
     (if asks r then
        (case List.find (answers_pid (rec_data r ! 2)) (take (replay_window - 1) later) of
           None \<Rightarrow> t
         | Some a \<Rightarrow> t\<lparr> answers := (answers t)(rec_data r ! 2 \<mapsto> a) \<rparr>)
      else if \<not> isObdResponse (rec_id r) then
        t\<lparr> broadcastTimes := (broadcastTimes t)(rec_id r \<mapsto>
              (case broadcastTimes t (rec_id r) of None \<Rightarrow> [] | Some ts \<Rightarrow> ts) @ [rec_t r]),
          broadcastLast := (broadcastLast t)(rec_id r \<mapsto> r) \<rparr>
      else t)"

fun learn_all :: "Rec list \<Rightarrow> Respond \<Rightarrow> Respond" where
  "learn_all [] t = t"
| "learn_all (r # rs) t = learn_all rs (learn r rs t)"

definition Respond_new :: Respond where
  "Respond_new = \<lparr> answers = Map.empty, broadcastTimes = Map.empty, broadcastLast = Map.empty \<rparr>"

text \<open>The period of a broadcast, in milliseconds; \<open>ts\<close> is never empty.\<close>

definition broadcast_period :: "int \<Rightarrow> f64 list \<Rightarrow> int option" where
  "broadcast_period override ts =
     map_option (\<lambda>p. if p < 1 then 1 else p)
       (if override \<ge> 0 then Some override
        else if length ts > 1 then
          f64_to_long ((last ts - hd ts) / of_long (int (length ts) - 1) * dlit 1000 + dlit (1/2))
        else Some 100)"

text \<open>What is sent back for a frame read from the bus, if anything.\<close>

definition respond_to :: "Respond \<Rightarrow> can_frame \<Rightarrow> Rec option" where
  "respond_to t f =
     (if \<not> isObdRequest (can_id f AND CAN_SFF_MASK) \<or> can_dlc f < 3 then None
      else answers t (can_data f ! 2))"

section \<open>The bus\<close>

text \<open>What is printed on standard error, and whether there is a socket.\<close>

definition openCan :: "string \<Rightarrow> open_step \<Rightarrow> string \<times> bool" where
  "openCan ifname result =
     (case result of
        SocketFails why \<Rightarrow> (''socket: '' @ why, False)
      | IndexFails why \<Rightarrow> (ifname @ '': '' @ why, False)
      | BindFails why \<Rightarrow> (''bind: '' @ why, False)
      | Opens \<Rightarrow> ([], True))"

text \<open>
  The frame written; the bytes after the length are never read by a receiver and left out. A write
  that fails is reported and otherwise ignored.
\<close>

definition sendRec :: "Rec \<Rightarrow> can_frame" where
  "sendRec r = \<lparr> can_id = rec_id r, can_dlc = rec_dlc r, can_data = rec_data r \<rparr>"

text \<open>The loop that answers: what each read gives, until one fails for good; the frames sent.\<close>

datatype replay_read = ReadFrame can_frame | ReadInterrupted | ReadFails

fun respond_loop :: "Respond \<Rightarrow> replay_read list \<Rightarrow> can_frame list" where
  "respond_loop t [] = []"
| "respond_loop t (ReadInterrupted # rds) = respond_loop t rds"
| "respond_loop t (ReadFails # rds) = []"
| "respond_loop t (ReadFrame f # rds) =
     (case respond_to t f of None \<Rightarrow> [] | Some r \<Rightarrow> [sendRec r]) @ respond_loop t rds"

section \<open>The command\<close>

datatype replay_outcome =
    ReplayExit int string
  | ReplayTimed "(int \<times> can_frame) list option" bool
  | ReplayRespond Respond "u32 \<rightharpoonup> int option \<times> can_frame" string

text \<open>The last \<open>--period-ms\<close> counts; a value \<open>atol\<close> cannot represent is undefined.\<close>

fun period_override :: "string list \<Rightarrow> int \<Rightarrow> int option" where
  "period_override [] p = Some p"
| "period_override (a # as) p =
     (if starts_with ''--period-ms='' a then Option.bind (c_atol (drop 12 a)) (period_override as)
      else period_override as p)"

definition broadcasts_of :: "int \<Rightarrow> Respond \<Rightarrow> u32 \<rightharpoonup> int option \<times> can_frame" where
  "broadcasts_of override t i =
     (case (broadcastTimes t i, broadcastLast t i) of
        (Some ts, Some r) \<Rightarrow> Some (broadcast_period override ts, sendRec r)
      | _ \<Rightarrow> None)"

definition replay_usage :: string where
  "replay_usage = ''usage: can-replay --timed <if> <log> [--loop]'' @ [CHR 0x0A] @
     ''       can-replay --respond <if> <log> [--period-ms=<n>]'' @ [CHR 0x0A]"

text \<open>\<open>file\<close>: the lines of the log, or why it cannot be read.\<close>

definition replay_main :: "string list \<Rightarrow> string + string list \<Rightarrow> open_step \<Rightarrow> replay_outcome option" where
  "replay_main argv file opened =
     (if length argv < 4 then Some (ReplayExit 2 replay_usage)
      else case file of
        Inl why \<Rightarrow> Some (ReplayExit 1 (argv ! 3 @ '': '' @ why))
      | Inr ls \<Rightarrow> (case parse_log ls of
          None \<Rightarrow> None
        | Some recs \<Rightarrow> (
            let (message, ok) = openCan (argv ! 2) opened
            in if recs = [] then Some (ReplayExit 1 (''no frames in '' @ argv ! 3 @ [CHR 0x0A]))
               else if \<not> ok then Some (ReplayExit 1 message)
               else if argv ! 1 = ''--timed'' then
                 Some (ReplayTimed (map_option (\<lambda>due. zip due (map sendRec recs)) (replay_due recs))
                   (length argv > 4 \<and> argv ! 4 = ''--loop''))
               else if argv ! 1 = ''--respond'' then
                 (let t = learn_all recs Respond_new
                  in map_option (\<lambda>p. ReplayRespond t (broadcasts_of p t)
                       (''can-replay: '' @ int_text (int (card (dom (answers t)))) @ '' answerable PIDs, '' @
                        int_text (int (card (dom (broadcastTimes t)))) @ '' broadcast IDs'' @ [CHR 0x0A]))
                       (period_override (drop 4 argv) (- 1)))
               else Some (ReplayExit 2 (''unknown mode '' @ argv ! 1 @ [CHR 0x0A])))))"

section \<open>What was recorded is read back\<close>

lemma unat_below: "unat (b :: u8) < 256" "unat (w :: u32) < 4294967296"
  using unsigned_less [of b, where ?'a = nat] unsigned_less [of w, where ?'a = nat] by simp_all

lemma number_digits:
  "\<forall>c \<in> set (num_text 10 n). base_digit 10 c" "\<forall>c \<in> set (zero_pad w (num_text 10 n)). base_digit 10 c"
  "\<forall>c \<in> set (zero_pad w (num_text 16 n)). base_digit 16 c"
  by (intro num_text_digits zero_pad_digits; simp)+

lemma no_hex_prefix:
  assumes "\<forall>c \<in> set ds. base_digit 16 c" "2 \<le> length ds"
  shows "\<not> hex_prefix (ds @ rest)"
proof -
  obtain a b ds' where d: "ds = a # b # ds'" using assms(2) by (cases ds; cases "tl ds") auto
  then have "base_digit 16 b" using assms(1) by simp
  then have "b \<noteq> CHR ''x''" "b \<noteq> CHR ''X''" by (auto simp: base_digit_def digit_val_def)
  then show ?thesis by (simp add: d hex_prefix_def)
qed

lemma scan_decimal:
  assumes "rest = [] \<or> \<not> base_digit 10 (hd rest)"
  shows "scan_number 10 (num_text 10 n @ rest) = Some (False, n, rest)"
    and "scan_number 10 (zero_pad w (num_text 10 n) @ rest) = Some (False, n, rest)"
  using scan_digits [OF number_digits(1) num_text_ne assms] scan_digits [OF number_digits(2) zero_pad_ne [OF num_text_ne] assms]
  by (simp_all add: num_text_value zero_pad_value)

lemma scan_padded_hex:
  assumes "2 \<le> w" "rest = [] \<or> \<not> base_digit 16 (hd rest)"
  shows "scan_number 16 (zero_pad w (num_text 16 n) @ rest) = Some (False, n, rest)"
proof -
  have "2 \<le> length (zero_pad w (num_text 16 n))" using assms(1) by (simp add: zero_pad_def)
  then show ?thesis
    using scan_digits [OF number_digits(3) zero_pad_ne [OF num_text_ne] assms(2)]
      no_hex_prefix [OF number_digits(3)]
    by (simp add: num_text_value zero_pad_value)
qed

lemma scan_number_space: "scan_number b (CHR '' '' # s) = scan_number b s"
  by (simp add: scan_number_def is_space_def)

lemma scan_word_plain:
  assumes "cs \<noteq> []" "length cs \<le> w" "\<forall>c \<in> set cs. \<not> is_space c" "rest = [] \<or> is_space (hd rest)"
  shows "scan_word w (cs @ rest) = Some (cs, rest)"
proof -
  obtain c cs' where c: "cs = c # cs'" using assms(1) by (cases cs) auto
  have "dropWhile is_space (cs @ rest) = cs @ rest" using assms(3) by (simp add: c)
  moreover have "takeWhile (\<lambda>c. \<not> is_space c) (cs @ rest) = cs"
    using assms(3,4) by (cases rest) (auto simp: takeWhile_append)
  moreover have "0 < w" using assms(1,2) by (cases w) auto
  ultimately show ?thesis using assms(1,2) by (simp add: scan_word_def Let_def)
qed

lemma scan_word_space: "scan_word w (CHR '' '' # s) = scan_word w s"
  by (simp add: scan_word_def is_space_def)

lemma hex_byte_text:
  "length (hex_byte b) = 2" "\<forall>c \<in> set (hex_byte b). base_digit 16 c"
proof -
  have "unat b < 16 ^ 2" using unat_below(1) [of b] by simp
  then have "length (num_text 16 (unat b)) \<le> 2" by (intro num_text_length) simp_all
  then show "length (hex_byte b) = 2" by (simp add: hex_byte_def zero_pad_length)
qed (unfold hex_byte_def, rule number_digits)

lemma hex_text_split:
  "i < length bs \<Longrightarrow> take 2 (drop (2 * i) (concat (map hex_byte bs))) = hex_byte (bs ! i)"
proof (induction bs arbitrary: i)
  case (Cons b bs)
  then show ?case by (cases i) (simp_all add: hex_byte_text(1))
qed simp

lemma hex_text_length: "length (concat (map hex_byte bs)) = 2 * length bs"
  by (induction bs) (simp_all add: hex_byte_text(1))

lemma hex_at_text: "i < length bs \<Longrightarrow> hex_at (concat (map hex_byte bs)) i = Some (bs ! i)"
proof -
  assume i: "i < length bs"
  have "unat (bs ! i) < 256" by (rule unat_below)
  then have u: "to_unsigned 32 False (unat (bs ! i)) = unat (bs ! i)" by (simp add: to_unsigned_def)
  have "scan_number 16 (hex_byte (bs ! i)) = Some (False, unat (bs ! i), [])"
    using scan_padded_hex [of 2 "[]" "unat (bs ! i)"] by (simp add: hex_byte_def)
  then show ?thesis using i u by (simp add: hex_at_def hex_text_split)
qed

lemma all_some_map: "\<forall>x \<in> set xs. f x = Some (g x) \<Longrightarrow> all_some (map f xs) = Some (map g xs)"
  by (induction xs) auto

lemma hex_not_space: "\<forall>c \<in> set (concat (map hex_byte bs)). \<not> is_space c"
  using hex_byte_text(2) base_digit_plain by fastforce

text \<open>The line of a frame, with its payload as one text.\<close>

lemma scan_log_entry:
  assumes "sec < 2 ^ 64" "usec < 2 ^ 64" "iface \<noteq> []" "length iface \<le> 31" "\<forall>c \<in> set iface. \<not> is_space c"
    and "f_dlc f \<noteq> 0" "f_dlc f \<le> 8" "length (f_data f) = 8"
  shows "scan_line (log_entry sec usec iface f) =
    Some (sec, usec, iface, f_id f, concat (map hex_byte (take (unat (f_dlc f)) (f_data f))))"
proof -
  let ?bs = "take (unat (f_dlc f)) (f_data f)"
  have n: "unat (f_dlc f) \<le> 8" "0 < unat (f_dlc f)"
    using assms(6,7) by (simp_all add: word_le_nat_alt unat_gt_0)
  have "map (\<lambda>i. f_data f ! i) [0..<unat (f_dlc f)] = ?bs"
    using n assms(8) by (intro nth_equalityI) simp_all
  from arg_cong [OF this, of "map hex_byte"]
  have p: "map (\<lambda>i. hex_byte (f_data f ! i)) [0..<unat (f_dlc f)] = map hex_byte ?bs"
    by (simp only: list.map_comp comp_def)
  have l: "length (concat (map hex_byte ?bs)) = 2 * unat (f_dlc f)"
    using n assms(8) by (simp only: hex_text_length length_take min_def) simp
  have w: "scan_word 63 h = Some (h, [])" if "h = concat (map hex_byte ?bs)" for h
    using scan_word_plain [of h 63 "[]"] hex_not_space [of ?bs, folded that] l [folded that] n by fastforce
  note w = w [OF refl]
  have "unat (f_id f) < 2 ^ 32" using unat_below(2) [of "f_id f"] by simp
  then have u: "to_unsigned 64 False sec = sec" "to_unsigned 64 False usec = usec"
    "to_unsigned 32 False (unat (f_id f)) = unat (f_id f)"
    using assms(1,2) by (simp_all add: to_unsigned_def)
  have nd: "\<not> base_digit 10 CHR ''.''" "\<not> base_digit 10 CHR '')''" "\<not> base_digit 16 CHR ''#''" "is_space CHR '' ''"
    by (simp_all add: base_digit_def digit_val_def is_space_def)
  show ?thesis
    unfolding scan_line_def log_entry_def p
    by (simp add: lit_def Let_def scan_decimal nd u scan_word_space scan_number_space scan_padded_hex w
        scan_word_plain [OF assms(3-5)])
qed

section \<open>Requests and the answers recorded after them\<close>

text \<open>Some request for \<open>pid\<close> is followed, among the next 15 frames, by the response \<open>a\<close> to it.\<close>

definition recorded_answer :: "Rec list \<Rightarrow> u8 \<Rightarrow> Rec \<Rightarrow> bool" where
  "recorded_answer recs pid a \<longleftrightarrow> (\<exists>i j. i < j \<and> j < i + replay_window \<and> j < length recs \<and>
     asks (recs ! i) \<and> rec_data (recs ! i) ! 2 = pid \<and> a = recs ! j \<and> answers_pid pid a)"

lemma recorded_answer_Cons:
  "recorded_answer (r # rs) pid a \<longleftrightarrow> recorded_answer rs pid a \<or>
    (asks r \<and> rec_data r ! 2 = pid \<and> a \<in> set (take (replay_window - 1) rs) \<and> answers_pid pid a)"
  (is "?l \<longleftrightarrow> ?tail \<or> ?head")
proof
  assume ?l
  then obtain i j where i: "i < j" "j < i + replay_window" "j < length (r # rs)" "asks ((r # rs) ! i)"
    "rec_data ((r # rs) ! i) ! 2 = pid" "a = (r # rs) ! j" "answers_pid pid a"
    unfolding recorded_answer_def by blast
  show "?tail \<or> ?head"
  proof (cases i)
    case 0
    then have "j - 1 < length rs" "j - 1 < replay_window - 1" "a = rs ! (j - 1)" using i by (cases j; simp)+
    then have "a \<in> set (take (replay_window - 1) rs)" by (auto simp: in_set_conv_nth)
    then show ?thesis using 0 i by simp
  next
    case (Suc i')
    then have "recorded_answer rs pid a"
      unfolding recorded_answer_def using i by (intro exI [of _ i'] exI [of _ "j - 1"]) (cases j; simp)
    then show ?thesis ..
  qed
next
  assume "?tail \<or> ?head"
  then show ?l
  proof
    assume ?tail
    then obtain i j where i: "i < j" "j < i + replay_window" "j < length rs" "asks (rs ! i)"
      "rec_data (rs ! i) ! 2 = pid" "a = rs ! j" "answers_pid pid a"
      unfolding recorded_answer_def by blast
    then show ?l unfolding recorded_answer_def by (intro exI [of _ "Suc i"] exI [of _ "Suc j"]) simp
  next
    assume h: ?head
    then obtain j where "j < length rs" "j < replay_window - 1" "a = rs ! j" by (auto simp: in_set_conv_nth)
    then have "0 < Suc j \<and> Suc j < 0 + replay_window \<and> Suc j < length (r # rs) \<and> asks ((r # rs) ! 0) \<and>
        rec_data ((r # rs) ! 0) ! 2 = pid \<and> a = (r # rs) ! Suc j \<and> answers_pid pid a"
      using h by simp
    then show ?l unfolding recorded_answer_def by blast
  qed
qed

lemma find_recorded:
  "List.find P xs = Some a \<Longrightarrow> a \<in> set xs \<and> P a" "List.find P xs = None \<longleftrightarrow> (\<forall>x \<in> set xs. \<not> P x)"
  by (auto simp: find_Some_iff find_None_iff)

lemma learn_answers:
  "answers (learn r rs t) pid =
    (if asks r \<and> rec_data r ! 2 = pid then
       (case List.find (answers_pid pid) (take (replay_window - 1) rs) of Some a \<Rightarrow> Some a | None \<Rightarrow> answers t pid)
     else answers t pid)"
  by (auto simp: learn_def split: option.splits)

lemma learn_all_sound:
  "answers (learn_all rs t) pid = Some a \<Longrightarrow> recorded_answer rs pid a \<or> answers t pid = Some a"
proof (induction rs arbitrary: t)
  case (Cons r rs)
  then have "recorded_answer rs pid a \<or> answers (learn r rs t) pid = Some a" by simp
  then show ?case
    by (auto simp: learn_answers recorded_answer_Cons dest: find_recorded(1) split: if_splits option.splits)
qed simp

lemma learn_keeps: "answers t pid \<noteq> None \<Longrightarrow> answers (learn_all rs t) pid \<noteq> None"
proof (induction rs arbitrary: t)
  case (Cons r rs)
  have "answers (learn r rs t) pid \<noteq> None" using Cons.prems by (auto simp: learn_answers split: option.splits)
  then show ?case using Cons.IH by simp
qed simp

lemma learn_all_complete: "recorded_answer rs pid a \<Longrightarrow> answers (learn_all rs t) pid \<noteq> None"
proof (induction rs arbitrary: t)
  case Nil
  then show ?case by (simp add: recorded_answer_def)
next
  case (Cons r rs)
  show ?case
  proof (cases "recorded_answer rs pid a")
    case False
    then have "asks r" "rec_data r ! 2 = pid" "a \<in> set (take (replay_window - 1) rs)" "answers_pid pid a"
      using Cons.prems by (auto simp: recorded_answer_Cons)
    then have "answers (learn r rs t) pid \<noteq> None"
      using find_recorded(2) [of "answers_pid pid" "take (replay_window - 1) rs"]
      by (auto simp: learn_answers split: option.splits)
    then show ?thesis using learn_keeps by simp
  qed (simp add: Cons.IH)
qed

section \<open>Properties\<close>

text \<open>
  C38: A recorded session is read back as it was: the log line of every frame of one to eight bytes,
  seen on an interface with an ordinary name, parses to that frame and its time. The line of an
  empty frame is not a frame to the reader.
\<close>

theorem record_replay_round_trip:
  assumes "sec < 2 ^ 64" "usec < 10 ^ 6" "iface \<noteq> []" "length iface \<le> 31" "\<forall>c \<in> set iface. \<not> is_space c"
    and "f_dlc f \<le> 8" "length (f_data f) = 8"
  shows "parseLine (log_entry sec usec iface f) = Some (if f_dlc f = 0 then None else Some
    \<lparr> rec_t = of_long (int sec) + of_long (int usec) / dlit 1000000, rec_id = f_id f, rec_dlc = f_dlc f,
      rec_data = take (unat (f_dlc f)) (f_data f) \<rparr>)"
proof (cases "f_dlc f = 0")
  case True
  have nd: "\<not> base_digit 10 CHR ''.''" "\<not> base_digit 10 CHR '')''" "\<not> base_digit 16 CHR ''#''" "is_space CHR '' ''"
    by (simp_all add: base_digit_def digit_val_def is_space_def)
  have "scan_line (log_entry sec usec iface f) = None"
    unfolding scan_line_def log_entry_def True
    by (simp add: lit_def Let_def scan_decimal nd scan_word_space scan_number_space scan_padded_hex
        scan_word_plain [OF assms(3-5)] scan_word_def [of _ "[]"])
  then show ?thesis using True by (simp add: parseLine_def)
next
  case False
  let ?bs = "take (unat (f_dlc f)) (f_data f)"
  have n: "unat (f_dlc f) \<le> 8" using assms(6) by (simp add: word_le_nat_alt)
  have l: "length ?bs = unat (f_dlc f)" using n assms(7) by simp
  have "usec < 2 ^ 64" using assms(2) by simp
  then have s: "scan_line (log_entry sec usec iface f) = Some (sec, usec, iface, f_id f, concat (map hex_byte ?bs))"
    using scan_log_entry assms False by blast
  have "all_some (map (hex_at (concat (map hex_byte ?bs))) [0..<unat (f_dlc f)]) =
      Some (map (\<lambda>i. ?bs ! i) [0..<unat (f_dlc f)])"
    using l by (intro all_some_map) (simp only: hex_at_text set_upt atLeastLessThan_iff ball_simps, simp add: hex_at_text del: length_take)
  also have "map (\<lambda>i. ?bs ! i) [0..<unat (f_dlc f)] = ?bs" using l by (metis map_nth)
  finally show ?thesis
    using False n by (simp add: parseLine_def s hex_text_length l del: length_take)
qed

theorem record_replay_round_trip_witness:
  "parseLine (log_entry 12 345 ''vcan1'' \<lparr> f_id = 0x7E8, f_dlc = 3, f_data = [2, 0x41, 0x0C, 0, 0, 0, 0, 0] \<rparr>) =
    Some (Some \<lparr> rec_t = of_long 12 + of_long 345 / dlit 1000000, rec_id = 0x7E8, rec_dlc = 3, rec_data = [2, 0x41, 0x0C] \<rparr>)"
  by (subst record_replay_round_trip) (simp_all add: is_space_def)

text \<open>
  Acting as the recorded vehicle, the tool answers a request for a PID exactly when the log holds
  a request for it followed within 15 frames by a response, and then with such a response.
\<close>

lemma replay_answers_iff:
  "(answers (learn_all recs Respond_new) pid = None \<longleftrightarrow> (\<forall>a. \<not> recorded_answer recs pid a)) \<and>
   (answers (learn_all recs Respond_new) pid = Some a \<longrightarrow> recorded_answer recs pid a)"
proof (intro conjI impI)
  have n: "answers Respond_new pid = None" by (simp add: Respond_new_def)
  show "answers (learn_all recs Respond_new) pid = None \<longleftrightarrow> (\<forall>a. \<not> recorded_answer recs pid a)"
    using n learn_all_sound [of recs Respond_new pid] learn_all_complete [of recs pid _ Respond_new]
    by (cases "answers (learn_all recs Respond_new) pid") auto
  show "recorded_answer recs pid a" if "answers (learn_all recs Respond_new) pid = Some a"
    using n learn_all_sound [OF that] by simp
qed

lemma replay_answers_iff_witness:
  "answers (learn_all
     [\<lparr> rec_t = dlit 0, rec_id = 0x7DF, rec_dlc = 8, rec_data = [2, 1, 0x0C, 0, 0, 0, 0, 0] \<rparr>,
      \<lparr> rec_t = dlit 0, rec_id = 0x7E8, rec_dlc = 8, rec_data = [4, 0x41, 0x0C, 1, 2, 0, 0, 0] \<rparr>] Respond_new) 0x0D = None"
  by (subst replay_answers_iff [THEN conjunct1]) (auto simp: recorded_answer_def asks_def answers_pid_def isObdRequest_def
      less_Suc_eq nth_Cons' split: if_splits)

text \<open>A CAN FD line of candump leaves a payload byte unset: reading it is undefined behaviour.\<close>

lemma fd_line_undefined: "parseLine ''(1.5) can0 123##1AABB'' = None"
  by (simp add: parseLine_def scan_line_def lit_def scan_number_def scan_word_def hex_at_def is_space_def is_sign_def
      hex_prefix_def base_digit_def digit_val_def Let_def upt_rec)

end
