(* ===== verification/Contract_Dump.thy ===== *)
theory Contract_Dump
  imports Publisher Can_Socket Text_Numbers
begin

text \<open>
  The receiver of \<^verbatim>\<open>tools/contract-dump.cpp\<close>: the decoded text of each frame, the statistics of
  cycle times and of the rolling counter, the command line, the report and the exit code. The clock
  (microseconds) and what each read of the socket gives are arguments; the text written to standard
  output is part of the result. Counts are taken not to reach \<open>2 ^ 31\<close> frames.
\<close>

section \<open>One decoded line\<close>

definition or_SNA :: "bool \<Rightarrow> string \<Rightarrow> string" where
  "or_SNA valid s = (if valid then s else ''SNA'')"

definition dump_status :: "bytes \<Rightarrow> string" where
  "dump_status d = (
     let s = canproxy_unpack_status d;
         st = [''starting'', ''no-vehicle'', ''degraded'', ''ok'']
     in ''status    v'' @ int_text (uint (contract_major s)) @ ''.'' @ int_text (uint (contract_minor s)) @
        '' ctr='' @ right_aligned 3 (int_text (uint (counter s))) @
        '' state='' @ st ! unat (proxy_state s AND 3) @ '' caps=0x'' @ hex_text 5 (unat (capabilities s)))"

definition dump_identity :: "bytes \<Rightarrow> string" where
  "dump_identity d = (
     let s = canproxy_unpack_identity d;
         dt = [''unknown'', ''ice'', ''bev'', ''hev'', ''phev'', ''fcev''];
         src = [''simulated'', ''emulator'', ''live'', ''replay'']
     in ''identity  drivetrain='' @ (if drivetrain s < 6 then dt ! unat (drivetrain s) else ''?'') @
        '' source='' @ (if source_kind s < 4 then src ! unat (source_kind s) else ''?'') @
        '' plugin=v'' @ int_text (uint (plugin_major s)) @ ''.'' @ int_text (uint (plugin_minor s)) @
        '' id=0x'' @ hex_text 8 (unat (vehicle_id s)))"

definition dump_motion :: "bytes \<Rightarrow> string" where
  "dump_motion d = (
     let s = canproxy_unpack_motion d;
         gears = ''PRNDL'';
         sp = or_SNA (speed_valid s) (fixed_text 2 (speed_kmh s));
         rp = or_SNA (rpm_valid s) (int_text (uint (rpm s)))
     in ''motion    speed='' @ sp @ '' km/h rpm='' @ rp @
        '' gear='' @ [if gear_valid s \<and> gear s < 5 then gears ! unat (gear s) else CHR ''-''] @
        '' power='' @ (if \<not> power_state_valid s then ''SNA''
          else [''off'', ''acc'', ''on'', ''ready''] ! unat (power_state s AND 3)))"

definition dump_edrive :: "bytes \<Rightarrow> string" where
  "dump_edrive d = (
     let s = canproxy_unpack_edrive d
     in ''edrive    power='' @ or_SNA (motor_power_valid s) (take 6 (double_text (motor_power_kw s))) @
        '' kW pack='' @ or_SNA (pack_voltage_valid s) (take 5 (double_text (pack_voltage_v s))) @
        '' V '' @ or_SNA (pack_current_valid s) (take 6 (double_text (pack_current_a s))) @ '' A'')"

definition dump_telltales :: "bytes \<Rightarrow> string" where
  "dump_telltales d = ''telltales 0x'' @ hex_text 8 (unat (bits (canproxy_unpack_telltales d)))"

definition dump_energy :: "bytes \<Rightarrow> string" where
  "dump_energy d = (
     let s = canproxy_unpack_energy d
     in ''energy    soc='' @ or_SNA (soc_valid s) (take 4 (double_text (soc_pct s))) @
        ''% soh='' @ or_SNA (soh_valid s) (take 4 (double_text (soh_pct s))) @
        ''% range='' @ or_SNA (range_valid s) (int_text (uint (range_km s))) @
        '' km cons='' @ or_SNA (consumption_valid s) (int_text (sint (consumption_wh_km s))) @
        '' Wh/km chg='' @ or_SNA (charging_state_valid s) (int_text (uint (charging_state s))))"

definition dump_trip :: "bytes \<Rightarrow> string" where
  "dump_trip d = (
     let s = canproxy_unpack_trip d
     in ''trip      odo='' @ or_SNA (odometer_valid s) (take 8 (double_text (odometer_km s))) @
        '' km ambient='' @ or_SNA (ambient_valid s) (int_text (sint (ambient_c s))) @
        '' C cabin='' @ or_SNA (cabin_valid s) (int_text (sint (cabin_c s))) @ '' C'')"

definition dump_thermal :: "bytes \<Rightarrow> string" where
  "dump_thermal d = (
     let s = canproxy_unpack_thermal d
     in ''thermal   coolant='' @ or_SNA (coolant_valid s) (int_text (sint (coolant_c s))) @
        '' C fuel='' @ or_SNA (fuel_valid s) (take 4 (double_text (fuel_pct s))) @
        ''% aux='' @ or_SNA (aux_battery_valid s) (take 5 (double_text (aux_battery_v s))) @ '' V'')"

definition dump_assist :: "bytes \<Rightarrow> string" where
  "dump_assist d = (
     let s = canproxy_unpack_assist d
     in ''assist    eco='' @ or_SNA (eco_score_valid s) (int_text (uint (eco_score s))) @
        '' limit='' @ or_SNA (speed_limit_valid s) (int_text (uint (speed_limit_kmh s))) @
        '' risk='' @ or_SNA (collision_risk_valid s) (int_text (uint (collision_risk s))) @
        '' lane='' @ or_SNA (lane_state_valid s) (int_text (uint (lane_state s))) @
        '' gap='' @ or_SNA (lead_gap_valid s) (take 5 (double_text (lead_gap_m s))) @ '' m'')"

definition printDecoded :: "u32 \<Rightarrow> bytes \<Rightarrow> string" where
  "printDecoded i d =
     (if i = CANPROXY_ID_STATUS then dump_status d
      else if i = CANPROXY_ID_IDENTITY then dump_identity d
      else if i = CANPROXY_ID_MOTION then dump_motion d
      else if i = CANPROXY_ID_EDRIVE then dump_edrive d
      else if i = CANPROXY_ID_TELLTALES then dump_telltales d
      else if i = CANPROXY_ID_ENERGY then dump_energy d
      else if i = CANPROXY_ID_TRIP then dump_trip d
      else if i = CANPROXY_ID_THERMAL then dump_thermal d
      else if i = CANPROXY_ID_ASSIST then dump_assist d
      else ''0x'' @ hex_text 3 (unat i) @ '' (not in contract)'') @ [CHR 0x0A]"

section \<open>The command line\<close>

record DumpArgs =
  a_statsSec :: int
  a_maxJitterMs :: f64
  a_requireCounter :: bool
  a_raw :: bool
  a_expect :: "u32 list"

definition DumpArgs_new :: DumpArgs where
  "DumpArgs_new = \<lparr> a_statsSec = 0, a_maxJitterMs = - dlit 1, a_requireCounter = False, a_raw = False, a_expect = [] \<rparr>"

text \<open>The pieces between commas, empty ones too.\<close>

function split_commas :: "string \<Rightarrow> string list" where
  "split_commas s =
     (case dropWhile (\<lambda>c. c \<noteq> CHR '','') s of
        [] \<Rightarrow> [s]
      | _ # r \<Rightarrow> takeWhile (\<lambda>c. c \<noteq> CHR '','') s # split_commas r)"
  by pat_completeness auto
termination
proof (relation "measure length")
  fix s r :: string and c
  assume "dropWhile (\<lambda>c. c \<noteq> CHR '','') s = c # r"
  then show "(r, s) \<in> measure length"
    using length_dropWhile_le [of "\<lambda>c. c \<noteq> CHR '','' " s] by simp
qed simp

declare split_commas.simps [simp del]

definition expected_ids :: "string \<Rightarrow> u32 list" where
  "expected_ids s = map (\<lambda>p. of_nat (strtoul0 p)) (split_commas s)"

text \<open>An option is taken, unknown, or its number is outside what \<open>atoi\<close> defines.\<close>

datatype dump_option = Taken DumpArgs | UnknownOption string | NumberUndefined

definition dump_parse_option :: "string \<Rightarrow> DumpArgs \<Rightarrow> dump_option" where
  "dump_parse_option a o1 =
     (if starts_with ''--stats='' a then
        (case c_atoi (drop 8 a) of None \<Rightarrow> NumberUndefined | Some n \<Rightarrow> Taken (o1\<lparr> a_statsSec := n \<rparr>))
      else if starts_with ''--max-jitter-ms='' a then Taken (o1\<lparr> a_maxJitterMs := c_atof (drop 16 a) \<rparr>)
      else if starts_with ''--expect-ids='' a then Taken (o1\<lparr> a_expect := a_expect o1 @ expected_ids (drop 13 a) \<rparr>)
      else if a = ''--require-counter'' then Taken (o1\<lparr> a_requireCounter := True \<rparr>)
      else if a = ''--raw'' then Taken (o1\<lparr> a_raw := True \<rparr>)
      else UnknownOption a)"

fun dump_options :: "string list \<Rightarrow> DumpArgs \<Rightarrow> dump_option" where
  "dump_options [] o1 = Taken o1"
| "dump_options (a # as) o1 =
     (case dump_parse_option a o1 of Taken o2 \<Rightarrow> dump_options as o2 | r \<Rightarrow> r)"

section \<open>Receiving\<close>

record Stat =
  st_count :: int
  st_last :: int
  sumInterval :: f64
  worstDev :: f64

definition Stat_new :: Stat where
  "Stat_new = \<lparr> st_count = 0, st_last = 0, sumInterval = dlit 0, worstDev = dlit 0 \<rparr>"

text \<open>\<open>std::map\<close>: the entries by rising key; \<open>stats[id]\<close> inserts an initial entry.\<close>

fun stat_update :: "u32 \<Rightarrow> (Stat \<Rightarrow> Stat) \<Rightarrow> (u32 \<times> Stat) list \<Rightarrow> (u32 \<times> Stat) list" where
  "stat_update i f [] = [(i, f Stat_new)]"
| "stat_update i f ((j, s) # xs) =
     (if i = j then (j, f s) # xs
      else if i < j then (i, f Stat_new) # (j, s) # xs
      else (j, s) # stat_update i f xs)"

record Dump =
  d_stats :: "(u32 \<times> Stat) list"
  counterSkips :: int
  lastCounter :: int

definition Dump_new :: Dump where
  "Dump_new = \<lparr> d_stats = [], counterSkips = 0, lastCounter = - 1 \<rparr>"

definition f64_abs :: "f64 \<Rightarrow> f64" where
  "f64_abs x = (if x < dlit 0 then - x else x)"

definition stat_interval :: "int \<Rightarrow> Stat \<Rightarrow> f64" where
  "stat_interval t s = of_long (t - st_last s) / dlit 1000"

definition stat_dev :: "u32 \<Rightarrow> f64 \<Rightarrow> f64" where
  "stat_dev i interval = f64_abs (interval - of_long (uint (canproxy_cycle_ms i)))"

definition stat_received :: "u32 \<Rightarrow> int \<Rightarrow> Stat \<Rightarrow> Stat" where
  "stat_received i t s = (
     let s = (if st_count s > 0 then (
           let interval = stat_interval t s;
               s = s\<lparr> sumInterval := sumInterval s + interval \<rparr>;
               dev = stat_dev i interval
           in if worstDev s < dev then s\<lparr> worstDev := dev \<rparr> else s) else s)
     in s\<lparr> st_count := st_count s + 1, st_last := t \<rparr>)"

definition count_status :: "bytes \<Rightarrow> Dump \<Rightarrow> Dump" where
  "count_status d p = (
     let p = (if lastCounter p \<ge> 0 \<and> d ! 2 \<noteq> of_int (lastCounter p + 1)
              then p\<lparr> counterSkips := counterSkips p + 1 \<rparr> else p)
     in p\<lparr> lastCounter := uint (d ! 2) \<rparr>)"

definition dump_measure :: "can_frame \<Rightarrow> int \<Rightarrow> Dump \<Rightarrow> Dump" where
  "dump_measure f t p = (
     let i = can_id f AND CAN_SFF_MASK;
         p = p\<lparr> d_stats := stat_update i (stat_received i t) (d_stats p) \<rparr>
     in if i = CANPROXY_ID_STATUS then count_status (can_data f) p else p)"

definition dump_print :: "bool \<Rightarrow> int \<Rightarrow> can_frame \<Rightarrow> int \<Rightarrow> string" where
  "dump_print raw start f t = (
     let i = can_id f AND CAN_SFF_MASK
     in right_aligned 10 (fixed_text 3 (of_long (t - start) / dlit 1000000)) @ ''  0x'' @ hex_text 3 (unat i) @ ''  '' @
        (if raw \<or> \<not> canproxy_is_contract_id i
         then concat (map (\<lambda>k. hex_text 2 (unat (can_data f ! k)) @ '' '') [0..<unat (can_dlc f)]) @ [CHR 0x0A]
         else printDecoded i (can_data f)))"

text \<open>
  What a turn of the loop meets: the clock at its head, and the read: nothing for the moment
  (time-out, interruption, or a frame of another size), an error, or a frame and the clock after it.
\<close>

datatype dump_read = NothingYet | ReadFails string | Received can_frame int

text \<open>The loop ends by its deadline or an error, or still runs when the turns given are used up.\<close>

datatype dump_stop = Finished Dump | Broken string | Running Dump

fun dump_loop :: "DumpArgs \<Rightarrow> int \<Rightarrow> (int \<times> dump_read) list \<Rightarrow> Dump \<Rightarrow> dump_stop \<times> string" where
  "dump_loop o1 start [] p = (Running p, [])"
| "dump_loop o1 start ((now, r) # es) p =
     (if a_statsSec o1 > 0 \<and> now \<ge> start + a_statsSec o1 * 1000000 then (Finished p, [])
      else case r of
        NothingYet \<Rightarrow> dump_loop o1 start es p
      | ReadFails why \<Rightarrow> (Broken (''read: '' @ why @ [CHR 0x0A]), [])
      | Received f t \<Rightarrow>
          if a_statsSec o1 > 0 then dump_loop o1 start es (dump_measure f t p)
          else (let (q, out) = dump_loop o1 start es p in (q, dump_print (a_raw o1) start f t @ out)))"

section \<open>The report and the exit code\<close>

definition too_late :: "f64 \<Rightarrow> Stat \<Rightarrow> bool" where
  "too_late maxJitterMs s \<longleftrightarrow> dlit 0 \<le> maxJitterMs \<and> maxJitterMs < worstDev s"

definition dump_row :: "f64 \<Rightarrow> u32 \<Rightarrow> Stat \<Rightarrow> string" where
  "dump_row maxJitterMs i s = (
     let mean = (if st_count s > 1 then sumInterval s / of_long (st_count s - 1) else dlit 0)
     in ''0x'' @ hex_text 3 (unat i) @ ''  '' @ left_aligned 10 (canproxy_id_name i) @ '' '' @
        right_aligned 6 (int_text (st_count s)) @ '' '' @ right_aligned 6 (int_text (uint (canproxy_cycle_ms i))) @
        '' ms '' @ right_aligned 7 (fixed_text 2 mean) @ '' ms '' @ right_aligned 7 (fixed_text 2 (worstDev s)) @
        '' ms'' @ [CHR 0x0A] @
        (if too_late maxJitterMs s then ''  ^ jitter over '' @ fixed_text 1 maxJitterMs @ '' ms'' @ [CHR 0x0A] else []))"

definition dump_missing :: "DumpArgs \<Rightarrow> Dump \<Rightarrow> u32 list" where
  "dump_missing o1 p = filter (\<lambda>e. map_of (d_stats p) e = None) (a_expect o1)"

definition dump_heading :: string where
  "dump_heading =
     left_aligned 6 ''id'' @ '' '' @ left_aligned 10 ''name'' @ '' '' @ right_aligned 6 ''count'' @ '' '' @
     right_aligned 9 ''cycle'' @ '' '' @ right_aligned 9 ''mean'' @ '' '' @ right_aligned 9 ''worstdev'' @ [CHR 0x0A]"

definition dump_report :: "DumpArgs \<Rightarrow> Dump \<Rightarrow> int \<times> string" where
  "dump_report o1 p = (
     let rc = (if list_ex (\<lambda>(i, s). too_late (a_maxJitterMs o1) s) (d_stats p) then 1 else 0);
         rows = concat (map (\<lambda>(i, s). dump_row (a_maxJitterMs o1) i s) (d_stats p));
         rc = (if dump_missing o1 p \<noteq> [] then 1 else rc);
         lost = concat (map (\<lambda>e. ''missing 0x'' @ hex_text 3 (unat e) @ [CHR 0x0A]) (dump_missing o1 p));
         rc = (if a_requireCounter o1 \<and> counterSkips p \<noteq> 0 then 1 else rc)
     in (rc, dump_heading @ rows @ lost @ ''status counter skips: '' @ int_text (counterSkips p) @ [CHR 0x0A]))"

text \<open>
  \<open>main\<close>: the arguments after the program name, the outcome of opening the socket, the clock at the
  start and the turns of the loop. The result is the exit code, or \<open>None\<close> while it runs, and the
  text on standard output and on standard error; all of it is \<open>None\<close> where \<open>atoi\<close> is undefined. The
  usage text is an argument.
\<close>

definition dump_main ::
  "string \<Rightarrow> string list \<Rightarrow> open_step \<Rightarrow> int \<Rightarrow> (int \<times> dump_read) list \<Rightarrow> (int option \<times> string \<times> string) option" where
  "dump_main usage args opened start es =
     (case args of
        [] \<Rightarrow> Some (Some 2, [], usage)
      | ifname # opts \<Rightarrow>
          if ifname = ''--help'' \<or> ifname = ''-h'' then Some (Some 0, usage, [])
          else if starts_with ''--'' ifname then
            Some (Some 2, [], ''first argument must be the interface name'' @ [CHR 0x0A] @ usage)
          else (case dump_options opts DumpArgs_new of
            NumberUndefined \<Rightarrow> None
          | UnknownOption a \<Rightarrow> Some (Some 2, [], ''unknown option '' @ a @ [CHR 0x0A] @ usage)
          | Taken o1 \<Rightarrow> Some (case opened of
              SocketFails why \<Rightarrow> (Some 1, [], ''socket: '' @ why @ [CHR 0x0A])
            | IndexFails why \<Rightarrow> (Some 1, [], ifname @ '': '' @ why @ [CHR 0x0A])
            | BindFails why \<Rightarrow> (Some 1, [], ''bind: '' @ why @ [CHR 0x0A])
            | Opens \<Rightarrow> (case dump_loop o1 start es Dump_new of
                (Running _, out) \<Rightarrow> (None, out, [])
              | (Broken why, out) \<Rightarrow> (Some 1, out, why)
              | (Finished p, out) \<Rightarrow> (let (rc, report) = dump_report o1 p in (Some rc, out @ report, []))))))"

section \<open>What was heard\<close>

text \<open>The frames of the turns before the deadline, oldest first, with their arrival times.\<close>

fun heard :: "int \<Rightarrow> (int \<times> dump_read) list \<Rightarrow> (can_frame \<times> int) list" where
  "heard end1 [] = []"
| "heard end1 ((now, r) # es) =
     (if now \<ge> end1 then [] else (case r of Received f t \<Rightarrow> [(f, t)] | _ \<Rightarrow> []) @ heard end1 es)"

definition of_id :: "u32 \<Rightarrow> (can_frame \<times> int) list \<Rightarrow> (can_frame \<times> int) list" where
  "of_id i rs = filter (\<lambda>(f, t). can_id f AND CAN_SFF_MASK = i) rs"

definition arrivals :: "u32 \<Rightarrow> (can_frame \<times> int) list \<Rightarrow> int list" where
  "arrivals i rs = map snd (of_id i rs)"

definition heard_counters :: "(can_frame \<times> int) list \<Rightarrow> u8 list" where
  "heard_counters rs = map (\<lambda>(f, t). can_data f ! 2) (of_id CANPROXY_ID_STATUS rs)"

definition adjacent :: "'a list \<Rightarrow> ('a \<times> 'a) list" where
  "adjacent xs = zip xs (tl xs)"

text \<open>How far each interval between two arrivals is from the cycle, in milliseconds.\<close>

definition deviations :: "u32 \<Rightarrow> int list \<Rightarrow> f64 list" where
  "deviations i ts = map (\<lambda>(a, b). stat_dev i (of_long (b - a) / dlit 1000)) (adjacent ts)"

definition skips :: "u8 list \<Rightarrow> nat" where
  "skips cs = length (filter (\<lambda>(a, b). b \<noteq> a + 1) (adjacent cs))"

lemma adjacent_snoc: "adjacent (xs @ [x]) = adjacent xs @ (if xs = [] then [] else [(last xs, x)])"
  unfolding adjacent_def by (induction xs) (auto simp: neq_Nil_conv)

lemma adjacent_nth: "(a, b) \<in> set (adjacent xs) \<longleftrightarrow> (\<exists>k. Suc k < length xs \<and> a = xs ! k \<and> b = xs ! Suc k)"
  proof -
  have "n < length xs - 1 \<longleftrightarrow> Suc n < length xs" for n by auto
  then show ?thesis by (auto simp: adjacent_def in_set_zip nth_tl)
qed

lemma heard_lists_simps [simp]:
  "arrivals i [] = []" "heard_counters [] = []"
  "arrivals i (rs @ [(f, t)]) = arrivals i rs @ (if can_id f AND CAN_SFF_MASK = i then [t] else [])"
  "heard_counters (rs @ [(f, t)]) = heard_counters rs @
    (if can_id f AND CAN_SFF_MASK = CANPROXY_ID_STATUS then [can_data f ! 2] else [])"
  by (simp_all add: arrivals_def heard_counters_def of_id_def)

section \<open>The statistics\<close>

lemma f64_order:
  fixes m w d :: f64
  shows "w \<noteq> FNaN \<Longrightarrow> m < (if w < d then d else w) \<longleftrightarrow> m < w \<or> m < d"
    and "w \<noteq> FNaN \<Longrightarrow> (if w < d then d else w) \<noteq> FNaN"
    and "dlit 0 \<le> m \<Longrightarrow> \<not> m < dlit 0" "dlit 0 \<noteq> FNaN"
  by (cases m; cases w; cases d; auto simp: f64_ops)+

definition stat_after :: "u32 \<Rightarrow> int list \<Rightarrow> Stat" where
  "stat_after i ts = fold (stat_received i) ts Stat_new"

lemma stat_received_fields:
  "st_count (stat_received i t s) = st_count s + 1" "st_last (stat_received i t s) = t"
  "worstDev (stat_received i t s) =
    (if st_count s > 0 then (let d = stat_dev i (stat_interval t s) in if worstDev s < d then d else worstDev s)
     else worstDev s)"
  by (simp_all add: stat_received_def Let_def stat_interval_def)

lemma stat_after_fields:
  "st_count (stat_after i ts) = int (length ts) \<and> (ts \<noteq> [] \<longrightarrow> st_last (stat_after i ts) = last ts) \<and>
   worstDev (stat_after i ts) \<noteq> FNaN \<and>
   (dlit 0 \<le> m \<longrightarrow> (m < worstDev (stat_after i ts) \<longleftrightarrow> (\<exists>d \<in> set (deviations i ts). m < d)))"
proof (induction ts rule: rev_induct)
  case Nil
  show ?case using f64_order(3) by (simp add: stat_after_def Stat_new_def deviations_def adjacent_def f64_order(4))
next
  case (snoc t ts)
  have a: "stat_after i (ts @ [t]) = stat_received i t (stat_after i ts)" by (simp add: stat_after_def)
  show ?case
  proof (cases "ts = []")
    case True
    then show ?thesis using snoc.IH
      by (simp add: a stat_received_fields deviations_def adjacent_snoc) (simp add: stat_after_def Stat_new_def adjacent_def stat_received_fields)
  next
    case False
    let ?d = "stat_dev i (of_long (t - last ts) / dlit 1000)"
    have w: "worstDev (stat_after i (ts @ [t])) =
        (if worstDev (stat_after i ts) < ?d then ?d else worstDev (stat_after i ts))"
      using snoc.IH False by (simp add: a stat_received_fields Let_def stat_interval_def)
    have d: "set (deviations i (ts @ [t])) = insert ?d (set (deviations i ts))"
      using False by (simp add: deviations_def adjacent_snoc)
    have nan: "worstDev (stat_after i ts) \<noteq> FNaN" using snoc.IH by blast
    have "st_count (stat_after i (ts @ [t])) = int (length (ts @ [t]))" "st_last (stat_after i (ts @ [t])) = t"
      using snoc.IH by (simp_all add: a stat_received_fields)
    then show ?thesis
      using snoc.IH f64_order(1) [OF nan, of m ?d] f64_order(2) [OF nan, of ?d] by (simp add: w d) blast
  qed
qed

text \<open>The table of statistics is the one of a finite map, by rising key.\<close>

abbreviation rising :: "(u32 \<times> Stat) list \<Rightarrow> bool" where
  "rising xs \<equiv> sorted_wrt (<) (map fst xs)"

lemma stat_update_keys: "set (map fst (stat_update i g xs)) = insert i (set (map fst xs))"
  by (induction i g xs rule: stat_update.induct) auto

lemma stat_update_rising: "rising xs \<Longrightarrow> rising (stat_update i g xs)"
proof (induction i g xs rule: stat_update.induct)
  case (2 i g j s xs)
  then show ?case
    using stat_update_keys [of i g xs] by (auto simp flip: set_map dest: order.strict_trans)
qed simp

lemma map_of_above: "rising xs \<Longrightarrow> \<forall>k \<in> set (map fst xs). i < k \<Longrightarrow> map_of xs i = None"
  by (induction xs) auto

lemma stat_update_map:
  "rising xs \<Longrightarrow> map_of (stat_update i g xs) =
    (map_of xs)(i \<mapsto> g (case map_of xs i of None \<Rightarrow> Stat_new | Some s \<Rightarrow> s))"
proof (induction i g xs rule: stat_update.induct)
  case (2 i g j s xs)
  have "i < j \<Longrightarrow> map_of xs i = None"
    using 2 by (intro map_of_above) auto
  then show ?case using 2 by (auto simp: fun_eq_iff)
qed simp

definition measure_all :: "(can_frame \<times> int) list \<Rightarrow> Dump" where
  "measure_all rs = fold (\<lambda>(f, t). dump_measure f t) rs Dump_new"

lemma count_status_fields:
  "d_stats (count_status d p) = d_stats p" "lastCounter (count_status d p) = uint (d ! 2)"
  "counterSkips (count_status d p) =
    counterSkips p + (if lastCounter p \<ge> 0 \<and> d ! 2 \<noteq> of_int (lastCounter p + 1) then 1 else 0)"
  by (simp_all add: count_status_def Let_def)

lemma dump_measure_fields:
  "d_stats (dump_measure f t p) =
    stat_update (can_id f AND CAN_SFF_MASK) (stat_received (can_id f AND CAN_SFF_MASK) t) (d_stats p)"
  "counterSkips (dump_measure f t p) =
    (if can_id f AND CAN_SFF_MASK = CANPROXY_ID_STATUS then counterSkips (count_status (can_data f) p) else counterSkips p)"
  "lastCounter (dump_measure f t p) =
    (if can_id f AND CAN_SFF_MASK = CANPROXY_ID_STATUS then uint (can_data f ! 2) else lastCounter p)"
  by (simp_all add: dump_measure_def Let_def count_status_fields)

lemma measured_stats:
  "rising (d_stats (measure_all rs)) \<and>
   map_of (d_stats (measure_all rs)) i = (if arrivals i rs = [] then None else Some (stat_after i (arrivals i rs)))"
proof (induction rs rule: rev_induct)
  case Nil
  show ?case by (simp add: measure_all_def Dump_new_def)
next
  case (snoc r rs)
  obtain f t where r: "r = (f, t)" by fastforce
  let ?j = "can_id f AND CAN_SFF_MASK"
  have d: "d_stats (measure_all (rs @ [(f, t)])) = stat_update ?j (stat_received ?j t) (d_stats (measure_all rs))"
    by (simp add: measure_all_def dump_measure_fields)
  have ri: "rising (d_stats (measure_all rs))" using snoc.IH by blast
  have m: "map_of (d_stats (measure_all rs)) i = (if arrivals i rs = [] then None else Some (stat_after i (arrivals i rs)))"
    using snoc.IH by blast
  show ?case
    using stat_update_rising [OF ri] m
    by (cases "i = ?j"; cases "arrivals i rs = []") (simp_all add: d r stat_update_map [OF ri] stat_after_def)
qed

lemma measured_counters:
  "lastCounter (measure_all rs) = (if heard_counters rs = [] then - 1 else uint (last (heard_counters rs))) \<and>
   counterSkips (measure_all rs) = int (skips (heard_counters rs))"
proof (induction rs rule: rev_induct)
  case Nil
  show ?case by (simp add: measure_all_def Dump_new_def skips_def adjacent_def)
next
  case (snoc r rs)
  obtain f t where r: "r = (f, t)" by fastforce
  have m: "measure_all (rs @ [(f, t)]) = dump_measure f t (measure_all rs)" by (simp add: measure_all_def)
  show ?case
    using snoc.IH by (auto simp: m r dump_measure_fields count_status_fields skips_def adjacent_snoc)
qed

lemma loop_measures:
  assumes "0 < a_statsSec o1"
  shows "dump_loop o1 start es p = (Finished q, out) \<Longrightarrow>
    q = fold (\<lambda>(f, t). dump_measure f t) (heard (start + a_statsSec o1 * 1000000) es) p \<and> out = []"
  using assms
proof (induction o1 start es p rule: dump_loop.induct)
  case (2 o1 start now r es p)
  then show ?case by (cases r) (auto split: if_splits)
qed simp

lemma report_verdict:
  "fst (dump_report o1 p) = 0 \<longleftrightarrow>
    (\<forall>(i, s) \<in> set (d_stats p). \<not> too_late (a_maxJitterMs o1) s) \<and>
    (\<forall>e \<in> set (a_expect o1). map_of (d_stats p) e \<noteq> None) \<and>
    (a_requireCounter o1 \<longrightarrow> counterSkips p = 0)"
  "fst (dump_report o1 p) = 0 \<or> fst (dump_report o1 p) = 1"
  by (auto simp: dump_report_def Let_def list_ex_iff dump_missing_def filter_empty_conv)

lemma skips_zero: "skips cs = 0 \<longleftrightarrow> (\<forall>k. Suc k < length cs \<longrightarrow> cs ! Suc k = cs ! k + 1)"
proof -
  have "skips cs = 0 \<longleftrightarrow> (\<forall>a b. (a, b) \<in> set (adjacent cs) \<longrightarrow> b = a + 1)"
    by (auto simp: skips_def filter_empty_conv)
  then show ?thesis by (auto simp: adjacent_nth)
qed

lemma measured_verdict:
  fixes o1 rs
  defines "late \<equiv> \<lambda>i. \<exists>d \<in> set (deviations i (arrivals i rs)). a_maxJitterMs o1 < d"
  shows "fst (dump_report o1 (measure_all rs)) = 0 \<longleftrightarrow>
    (dlit 0 \<le> a_maxJitterMs o1 \<longrightarrow> (\<forall>i. \<not> late i)) \<and>
    (\<forall>e \<in> set (a_expect o1). arrivals e rs \<noteq> []) \<and>
    (a_requireCounter o1 \<longrightarrow> skips (heard_counters rs) = 0)"
proof -
  let ?xs = "d_stats (measure_all rs)"
  have dist: "distinct (map fst ?xs)"
    using measured_stats [of rs] strict_sorted_iff by blast
  have el: "(i, s) \<in> set ?xs \<longleftrightarrow> arrivals i rs \<noteq> [] \<and> s = stat_after i (arrivals i rs)" for i s
    using map_of_eq_Some_iff [OF dist, of i s] measured_stats [of rs i] by (auto split: if_splits)
  have none: "\<not> late i" if "arrivals i rs = []" for i
    using that by (simp add: late_def deviations_def adjacent_def)
  have "(\<forall>(i, s) \<in> set ?xs. \<not> too_late (a_maxJitterMs o1) s) \<longleftrightarrow> (dlit 0 \<le> a_maxJitterMs o1 \<longrightarrow> (\<forall>i. \<not> late i))"
  proof (cases "dlit 0 \<le> a_maxJitterMs o1")
    case True
    have "too_late (a_maxJitterMs o1) (stat_after i (arrivals i rs)) \<longleftrightarrow> late i" for i
      using stat_after_fields [of i "arrivals i rs" "a_maxJitterMs o1"] True by (simp add: too_late_def late_def)
    then show ?thesis using none True by (auto simp: Ball_def el)
  qed (auto simp: too_late_def)
  moreover have "(\<forall>e \<in> set (a_expect o1). map_of ?xs e \<noteq> None) \<longleftrightarrow> (\<forall>e \<in> set (a_expect o1). arrivals e rs \<noteq> [])"
    using measured_stats [of rs] by (auto split: if_splits)
  ultimately show ?thesis
    using report_verdict(1) [of o1 "measure_all rs"] measured_counters [of rs] by simp
qed

text \<open>The frames a measurement of the given length covers.\<close>

definition heard_in :: "DumpArgs \<Rightarrow> int \<Rightarrow> (int \<times> dump_read) list \<Rightarrow> (can_frame \<times> int) list" where
  "heard_in o1 start es = heard (start + a_statsSec o1 * 1000000) es"

lemma finished_stats: "dump_loop o1 start es p = (Finished q, out) \<Longrightarrow> 0 < a_statsSec o1"
proof (induction o1 start es p arbitrary: out rule: dump_loop.induct)
  case (2 o1 start now r es p)
  then show ?case by (cases r) (auto split: if_splits prod.splits)
qed simp

lemma loop_result:
  "dump_loop o1 start es Dump_new = (Finished q, out) \<Longrightarrow> q = measure_all (heard_in o1 start es)"
  using loop_measures [OF finished_stats] by (simp add: measure_all_def heard_in_def)

lemma loop_not_broken:
  "\<forall>e \<in> set es. \<forall>why. snd e \<noteq> ReadFails why \<Longrightarrow> fst (dump_loop o1 start es p) \<noteq> Broken why"
proof (induction o1 start es p rule: dump_loop.induct)
  case (2 o1 start now r es p)
  then show ?case by (cases r) (auto split: prod.splits)
qed simp

definition counter_continuous :: "u8 list \<Rightarrow> bool" where
  "counter_continuous cs \<longleftrightarrow> (\<forall>k. Suc k < length cs \<longrightarrow> cs ! Suc k = cs ! k + 1)"

definition jitter_within :: "f64 \<Rightarrow> u32 \<Rightarrow> int list \<Rightarrow> bool" where
  "jitter_within limit i ts \<longleftrightarrow> (\<forall>d \<in> set (deviations i ts). \<not> limit < d)"

section \<open>Properties\<close>

text \<open>
  C29: A measurement exits with 0 exactly if, over the frames received before its deadline, no
  interval of any identifier is further from its cycle than the given limit (when one is given),
  every expected identifier was received, and (when asked) each status counter is the previous one plus one
  modulo 256; else it exits with 1.
\<close>

theorem dump_exit_code:
  assumes "dump_main usage (ifname # opts) Opens start es = Some (Some rc, out, err)"
    and "take 1 ifname \<noteq> ''-''" "dump_options opts DumpArgs_new = Taken o1"
    and "\<forall>e \<in> set es. \<forall>why. snd e \<noteq> ReadFails why"
  shows "rc = (if (dlit 0 \<le> a_maxJitterMs o1 \<longrightarrow>
         (\<forall>i. jitter_within (a_maxJitterMs o1) i (arrivals i (heard_in o1 start es)))) \<and>
      (\<forall>e \<in> set (a_expect o1). arrivals e (heard_in o1 start es) \<noteq> []) \<and>
      (a_requireCounter o1 \<longrightarrow> counter_continuous (heard_counters (heard_in o1 start es))) then 0 else 1)"
proof -
  have name: "ifname \<noteq> ''--help''" "ifname \<noteq> ''-h''" "\<not> starts_with ''--'' ifname"
    using assms(2) by (cases ifname; auto simp: starts_with_def)+
  obtain q out' where l: "dump_loop o1 start es Dump_new = (Finished q, out')"
    and rc: "rc = fst (dump_report o1 q)"
  proof (cases "dump_loop o1 start es Dump_new")
    case (Pair stop out')
    show ?thesis
    proof (cases stop)
      case (Finished q)
      then show ?thesis using that [of q out'] assms(1,3) name Pair by (simp add: dump_main_def split: prod.splits)
    next
      case (Broken why)
      then show ?thesis using loop_not_broken [OF assms(4), of o1 start Dump_new why] Pair by simp
    next
      case (Running q)
      then show ?thesis using assms(1,3) name Pair by (simp add: dump_main_def)
    qed
  qed
  have "rc = 0 \<or> rc = 1" unfolding rc by (rule report_verdict(2))
  moreover have "rc = 0 \<longleftrightarrow> fst (dump_report o1 (measure_all (heard_in o1 start es))) = 0"
    using loop_result [OF l] rc by simp
  ultimately show ?thesis
    unfolding measured_verdict skips_zero jitter_within_def counter_continuous_def by auto
qed

definition sample_status :: "u8 \<Rightarrow> can_frame" where
  "sample_status c = \<lparr> can_id = 0x400, can_dlc = 8, can_data = [1, 0, c, 0, 0, 0, 0, 0] \<rparr>"

theorem dump_exit_code_witness:
  "\<exists>out. dump_main [] [''vcan0'', ''--stats=1'', ''--require-counter''] Opens 0
    [(10, Received (sample_status 4) 100), (200, NothingYet), (300, Received (sample_status 6) 100100),
     (1000000, NothingYet)] = Some (Some 1, out, [])"
proof -
  let ?es = "[(10, Received (sample_status 4) 100), (200, NothingYet), (300, Received (sample_status 6) 100100),
     (1000000, NothingYet)]"
  let ?o = "\<lparr> a_statsSec = 1, a_maxJitterMs = - dlit 1, a_requireCounter = True, a_raw = False, a_expect = [] \<rparr>"
  have o1: "dump_options [''--stats=1'', ''--require-counter''] DumpArgs_new = Taken ?o"
    by (simp add: dump_parse_option_def DumpArgs_new_def starts_with_def ato_def scan_number_def is_space_def
        is_sign_def base_digit_def digit_val_def num_value_def Let_def)
  have l: "dump_loop ?o 0 ?es Dump_new =
      (Finished (dump_measure (sample_status 6) 100100 (dump_measure (sample_status 4) 100 Dump_new)), [])"
    by simp
  obtain rc report where r: "dump_report ?o
      (dump_measure (sample_status 6) 100100 (dump_measure (sample_status 4) 100 Dump_new)) = (rc, report)"
    by fastforce
  have m: "dump_main [] [''vcan0'', ''--stats=1'', ''--require-counter''] Opens 0 ?es = Some (Some rc, report, [])"
    using o1 l r by (simp add: dump_main_def starts_with_def)
  have h: "heard_in ?o 0 ?es = [(sample_status 4, 100), (sample_status 6, 100100)]"
    by (simp add: heard_in_def)
  have "heard_counters [(sample_status 4, 100), (sample_status 6, 100100)] = [4, 6]"
    by (simp add: heard_counters_def of_id_def sample_status_def contract_consts CAN_SFF_MASK_def)
  then have "\<not> counter_continuous (heard_counters (heard_in ?o 0 ?es))"
    unfolding h by (auto simp: counter_continuous_def intro!: exI [of _ 0])
  then have "rc = 1"
    using dump_exit_code [OF m _ o1] by simp
  then show ?thesis using m by blast
qed

end
