(* ===== verification/Spec2Isabelle.thy ===== *)
theory Spec2Isabelle
  imports Shipped_Plugins Dashboard Emu_Provenance Publisher_Thread Can_Replay Contract_Dump
begin

text \<open>
  car-can-proxy: a daemon that reads a vehicle through a plugin and publishes what it learns as a
  fixed set of nine CAN frames (the contract), so that a consumer needs no knowledge of the vehicle.

  \<^bold>\<open>The program.\<close> A plugin (\<^verbatim>\<open>plugins/\<close>) runs a thread that fills a vehicle state: values, the signals it
  can ever know (\<open>capable\<close>) and those it knows now (\<open>valid\<close>). It hands the state and the link to the
  host (\<^verbatim>\<open>core/PluginHost.cpp\<close>), which keeps both in a mutex-protected store. The publisher
  (\<^verbatim>\<open>core/Publisher.cpp\<close>) ticks at the earliest of nine deadlines, takes a snapshot, decides whether the
  vehicle is live, maps the state to nine structures (\<^verbatim>\<open>core/Mapping.cpp\<close>), packs the due ones
  (\<^verbatim>\<open>contract/can_proxy_contract.h\<close>) and sends them on a socket (\<^verbatim>\<open>core/CanSocket.cpp\<close>). The OBD plugins
  poll the vehicle through \<^verbatim>\<open>libobd/\<close>. Two tools receive the contract (\<^verbatim>\<open>tools/contract-dump.cpp\<close>) and
  replay a recorded vehicle side (\<^verbatim>\<open>tools/can-replay.cpp\<close>).

  \<^bold>\<open>Theories, bottom up.\<close>

  \<^item> \<open>Proxy_Prelude\<close>: types, theorem collections, words split into bytes. \<open>Ieee_Float\<close>: \<open>double\<close> with
    infinities, NaN, rounding and the conversion to \<open>long\<close>; \<open>Float_Bounds\<close>: values that lie between
    integers, and how each operation keeps or moves the bounds. \<open>Text_Numbers\<close>: numbers as the C
    library reads and prints them.
  \<^item> \<open>Contract_Codec\<close>, \<open>Contract_Tables\<close>, \<open>Contract_Frames\<close>: \<^verbatim>\<open>can_proxy_contract.h\<close>, one definition per
    function. The locale \<open>frame_codec\<close> states the two laws of a codec (packing gives canonical frames,
    packing what was unpacked from one gives it back) and is interpreted for each of the nine pairs;
    \<open>Frame_Fidelity\<close>: what a decoded field is in terms of the encoded one.
  \<^item> \<open>Plugin_Abi\<close>: \<^verbatim>\<open>include/canproxy/plugin.h\<close>. \<open>Frame_Mapping\<close>, \<open>Mapping_Fidelity\<close>: \<open>framesFrom\<close> and its
    helpers, and what a consumer decodes of a state. \<open>State_Store\<close>, \<open>Publisher\<close>: the store, \<open>derive\<close>, a
    tick, and the thread as a step relation \<open>thread_tick\<close> with runs \<open>thread_run\<close>; the invariant
    \<open>pub_inv\<close> relates the slots to the history of the run. \<open>Publisher_Thread\<close>: the thread with its
    running flag, \<open>start()\<close> and \<open>stop()\<close> as the code has them, shown to refine \<open>thread_run\<close>.
  \<^item> \<open>Cli_Config\<close> (\<^verbatim>\<open>core/Config.cpp\<close>, \<^verbatim>\<open>core/Log.cpp\<close>), \<open>Plugin_Host\<close>, \<open>Can_Socket\<close>, \<open>Daemon\<close>
    (\<^verbatim>\<open>core/main.cpp\<close>): the calls on the loader, the plugin and the bus are a trace, whose order is proved.
  \<^item> \<open>Obd_J1979\<close>, \<open>Obd_Poller\<close>, \<open>Obd_Uds\<close>, \<open>Can_Channel\<close>, \<open>Obd_Client\<close>: \<^verbatim>\<open>libobd/src\<close>, one theory per class
    (\<open>Obd_Uds\<close> holds the ISO-TP channel too).
  \<^item> \<open>Plugin_Contract\<close>: what a plugin promises, as the locales
    \<open>sound_plugin\<close> (its numbers can be packed, what is valid is advertised) and
    \<open>source_plugin\<close> (and enumerations are in range), with the consequence for the
    consumer proved once. \<open>Obd2_Ice\<close>, \<open>Emu_Ev\<close>, \<open>Forza\<close> and
    \<open>Sim\<close> model the four plugins and interpret these locales on their own published
    states. \<open>Obd_Plugin\<close> holds what the two polling plugins share,
    \<open>Emu_Records\<close> the battery ECU's records (\<^verbatim>\<open>EmuProfile.h\<close>),
    \<open>Forza_Telemetry\<close> the packet parser (\<^verbatim>\<open>ForzaTelemetry.h\<close>)
    on binary32 values.
  \<^item> \<open>Obd_Provenance\<close>: where the values of a polling plugin come from and how old they are, as the locales
    \<open>answer_source\<close> (what has been heard stays heard) and \<open>answering_thread\<close> (an iteration
    keeps the invariant \<open>sourced\<close>), interpreted on obd2-ice in \<open>Ice_Provenance\<close> and on the emulator
    plugins in \<open>Emu_Provenance\<close>.
  \<^item> \<open>Proxy_System\<close>: the running daemon, \<open>sys_step\<close> for one call of the plugin's thread or one tick of the
    publisher's on the common store, \<open>sys_run\<close> for their interleavings; \<open>run_split\<close> takes a run apart into
    the two threads. \<open>Shipped_Plugins\<close>: the descriptors and entry points of the five plugins, their
    functions behind one object type, the locale \<open>plugin_object\<close> for the life of such an object, and
    \<open>plugin_life\<close> for what the host's calls make of it; it joins the daemon's \<open>main\<close>, the running
    system and the plugins' own runs. \<open>Dashboard\<close> joins the obd2-ice thread, with the times at which its
    calls reach the host, and the running system.
  \<^item> \<open>Can_Replay\<close>: \<^verbatim>\<open>tools/can-replay.cpp\<close>; \<open>Contract_Dump\<close>: \<^verbatim>\<open>tools/contract-dump.cpp\<close>. This theory joins
    the publisher and the receiver.

  \<^bold>\<open>How state and effects are modelled.\<close> A class is a record with the members as fields, a method a
  function from the object to the result and the new object. Integers have their width as words
  where the program wraps or packs them; \<open>int\<close> and \<open>int64_t\<close> are integers, taken not to overflow
  (they hold times in ms or ns since start, and counts of frames below \<open>2 ^ 31\<close>). A conversion with
  undefined behaviour is \<open>None\<close>. An operation under a mutex is one step. Clocks, system calls and what the bus delivers are arguments; a blocking wait whose input list is
  used up is \<open>Waiting\<close>. Threads appear as their loop body, one step per iteration, run over any list of
  surroundings; there is no fuel elsewhere, every other loop is structural or has a measure.

  \<^bold>\<open>Floating point.\<close> A finite \<open>double\<close> is a rational number, every operation rounds to nearest even
  with subnormals and overflow; the sign of zero is not kept (no result of the program depends on
  it), and each operation rounds on its own, without contraction of a product and a sum. The square
  root is computed to 200 binary places with a sticky bit, more than twice the precision of a
  \<open>float\<close> over its whole range, and then rounded once.

  \<^bold>\<open>What is shown.\<close> Wire: every pack and unpack pair obeys the codec laws; a
  live, valid and advertised signal arrives within 0.51 of a unit of its scale, any other as not
  available. Schedule: no mandatory frame goes stale while wake-ups are less than 200 ms late, none
  is sent in bursts, the rolling counter has no gap, the thread is never stuck, and the frames of a
  tick are those of one snapshot. Plugins: what each publishes is what it measured, stays packable
  for ever, and the link follows the vehicle; obd2-ice and the emulator plugins
  show only values decoded from recent answers, and an operation that is refused has logged why. Protocol: parsers accept exactly the well-formed answers, decoders are correctly
  rounded, requests return, polling starves no item. Life cycle: the plugin is created, started,
  stopped, destroyed and unloaded in that order on every path. Tools: recorded logs replay, and the
  receiver's exit code and skip count say exactly what was received. System: in every interleaving a
  consumer decodes the plugin's last state while it counts and nothing otherwise, takes no reading of
  obd2-ice for valid that is older than the timeout, three polls and the delay of a call, learns of a silent
  plugin in bounded time, and only ever sees well-formed frames; no shipped plugin can stop the
  heartbeat (if telemetry packets have numbers of a vehicle's size); \<open>stop()\<close> returns after at most one more tick; and when \<open>main\<close>
  has ended, nothing a plugin opened is still open.

  \<^bold>\<open>Not modelled.\<close> Priorities, signals and the sleeping of threads; accesses to shared memory outside
  the mutexes and atomics: a thread's members are modelled as its own between start and stop, which
  is how the code uses them, but no theorem says so; reading the clock and formatting a message into
  a buffer; tests, scripts, service files and documents. The kernel, the dynamic loader, the C library
  and the vehicle are arguments.
\<close>

section \<open>The rolling counter from end to end\<close>

lemma adjacent_map: "adjacent (map g xs) = map (\<lambda>(a, b). (g a, g b)) (adjacent xs)"
  by (simp add: adjacent_def zip_map_map map_tl [symmetric] split_def)

lemma adjacent_rises: "sorted_wrt (<) ks \<Longrightarrow> (a, b) \<in> set (adjacent ks) \<Longrightarrow> (a :: nat) < b"
  by (auto simp: adjacent_nth sorted_wrt_iff_nth_less)

lemma counter_gap:
  assumes "(j :: nat) < k"
  shows "(of_nat k :: u8) \<noteq> of_nat j + 1 \<longleftrightarrow> (k - j - 1) mod 256 \<noteq> 0"
proof -
  have "(of_nat k :: u8) = of_nat (Suc j) \<longleftrightarrow> k mod 256 = Suc j mod 256"
    by (simp only: word_of_nat_eq_iff take_bit_eq_mod) simp
  also have "\<dots> \<longleftrightarrow> (k - Suc j) mod 256 = 0"
    using assms mod_eq_dvd_iff_nat [of "Suc j" k 256] by (simp only: Suc_le_eq dvd_eq_mod_eq_0)
  finally show ?thesis by (simp add: add.commute)
qed

text \<open>
  C24: Of a publisher's status frames let a receiver hear some, in order. The skips it counts are
  exactly the places where the number of frames lost in between is not a multiple of 256: a gapless
  reception counts none, and every shorter loss is noticed.
\<close>

theorem skips_count_losses:
  assumes run: "thread_run (thread_start t0 (Publisher_new timeout ma mi)) evs st"
    and stop: "dump_loop o1 start es Dump_new = (Finished p, out)"
    and got: "heard_counters (heard_in o1 start es) = map (\<lambda>k. status_counters evs ! k) ks"
    and ks: "sorted_wrt (<) ks" "\<forall>k \<in> set ks. k < length (status_counters evs)"
  shows "counterSkips p = int (length (filter (\<lambda>(j, k). (k - j - 1) mod 256 \<noteq> 0) (adjacent ks)))"
proof -
  have "heard_counters (heard_in o1 start es) = map of_nat ks"
    using got ks(2) status_counters_run [OF run] by simp
  then have "counterSkips p = int (length (filter (\<lambda>(j, k). (of_nat k :: u8) \<noteq> of_nat j + 1) (adjacent ks)))"
    using measured_counters loop_result [OF stop] by (simp add: skips_def adjacent_map filter_map comp_def split_def)
  moreover have "(of_nat k :: u8) \<noteq> of_nat j + 1 \<longleftrightarrow> (k - j - 1) mod 256 \<noteq> 0" if "(j, k) \<in> set (adjacent ks)" for j k
  proof -
    have "j < k" using adjacent_rises ks(1) that by blast
    then show ?thesis by (rule counter_gap)
  qed
  then have "filter (\<lambda>(j, k). (of_nat k :: u8) \<noteq> of_nat j + 1) (adjacent ks) =
      filter (\<lambda>(j, k). (k - j - 1) mod 256 \<noteq> 0) (adjacent ks)"
    by (intro filter_cong) auto
  ultimately show ?thesis by simp
qed

text \<open>A run that sent three status frames, of which the receiver hears the first and the last.\<close>

lemma status_sent_late:
  assumes "pub_inv 0 es (p, wake)" "es \<noteq> []" "last_sent CANPROXY_ID_STATUS es = Some t" "t + 1000000000 \<le> now"
    and "tick store now p = Some (wake', p', sent, logs)"
  shows "CANPROXY_ID_STATUS \<in> fst ` set sent" "wake \<le> now"
proof -
  have i: "CANPROXY_ID_STATUS \<in> set kOrder" "CANPROXY_ID_STATUS \<noteq> CANPROXY_ID_ASSIST"
    "cycle_ns CANPROXY_ID_STATUS \<le> 1000000000"
    by (simp_all add: kOrder_def canproxy_cycle_ms_def contract_consts)
  have wf: "wf_slots (m_slots p)" and a: "m_armed p" using assms(1) by (simp_all add: pub_inv_def)
  obtain s where s: "s \<in> set (m_slots p)" "slot_id s = CANPROXY_ID_STATUS" using wf i(1) by (rule slot_of_id)
  have "slot_inv 0 es s" using assms(1) s(1) by (simp add: pub_inv_def)
  then have "slot_due s \<le> now"
    using s i(2,3) assms(3,4) wf_slot_cycle [OF wf s(1)] by (simp add: slot_inv_def)
  then show "CANPROXY_ID_STATUS \<in> fst ` set sent"
    using tick_sent(4) [OF assms(5) a wf s(1)] s(2) i(2) by simp
  show "wake \<le> now"
    using pub_inv_last [OF assms(1) i(1,2) assms(2)] assms(3,4) i(3) by force
qed

lemma status_run_extends:
  assumes "thread_run (thread_start 0 (Publisher_new 2000000000 1 0)) es st" "es \<noteq> []"
    and "last_sent CANPROXY_ID_STATUS es = Some t"
  obtains e st' where "thread_run (thread_start 0 (Publisher_new 2000000000 1 0)) (es @ [e]) st'"
    "last_sent CANPROXY_ID_STATUS (es @ [e]) = Some (t + 1000000000)"
    "sent_count CANPROXY_ID_STATUS (es @ [e]) = sent_count CANPROXY_ID_STATUS es + 1"
proof -
  obtain p wake where st: "st = (p, wake)" by fastforce
  have enc: "all_encodable (state StateStore_init)" by (simp add: StateStore_init_def zero_encodable)
  obtain wake' p' sent logs where t: "tick StateStore_init (t + 1000000000) p = Some (wake', p', sent, logs)"
    using enc by (rule tick_defined)
  note l = status_sent_late [OF pub_inv_run [OF assms(1) [unfolded st]] assms(2,3) order_refl t]
  have "thread_run (thread_start 0 (Publisher_new 2000000000 1 0)) (es @ [(t + 1000000000, StateStore_init, sent)]) (p', wake')"
    using assms(1) [unfolded st] ticks [OF l(2) t] by (rule run_snoc)
  then show ?thesis by (rule that) (use l(1) in \<open>simp_all only: last_sent_simps sent_count_simps if_True\<close>)
qed

lemma three_status_frames:
  obtains evs st where "thread_run (thread_start 0 (Publisher_new 2000000000 1 0)) evs st"
    "status_counters evs = [0, 1, 2]"
proof -
  obtain sent p wake sent' st' where
    r: "thread_run (thread_start 0 (Publisher_new 2000000000 1 0)) [(0, StateStore_init, sent)] (p, wake)"
      "thread_tick (p, wake) (wake, StateStore_init, sent') st'"
    by (rule sample_run)
  have i: "CANPROXY_ID_STATUS \<in> set kOrder" "CANPROXY_ID_STATUS \<noteq> CANPROXY_ID_ASSIST"
    by (simp_all add: kOrder_def contract_consts)
  obtain t where t: "last_sent CANPROXY_ID_STATUS [(0, StateStore_init, sent)] = Some t"
    using pub_inv_last [OF pub_inv_run [OF r(1)] i] by blast
  then have n: "sent_count CANPROXY_ID_STATUS [(0, StateStore_init, sent)] = 1"
    by (auto simp: last_sent_def sent_count_def split: if_splits)
  obtain e2 st2 where e2: "thread_run (thread_start 0 (Publisher_new 2000000000 1 0)) ([(0, StateStore_init, sent)] @ [e2]) st2"
    "last_sent CANPROXY_ID_STATUS ([(0, StateStore_init, sent)] @ [e2]) = Some (t + 1000000000)"
    "sent_count CANPROXY_ID_STATUS ([(0, StateStore_init, sent)] @ [e2]) = 2"
    using status_run_extends [OF r(1) list.distinct(2) t] unfolding n one_add_one .
  obtain e3 st3 where e3:
    "thread_run (thread_start 0 (Publisher_new 2000000000 1 0)) (([(0, StateStore_init, sent)] @ [e2]) @ [e3]) st3"
    "sent_count CANPROXY_ID_STATUS (([(0, StateStore_init, sent)] @ [e2]) @ [e3]) = 2 + 1"
    using status_run_extends [OF e2(1) snoc_eq_iff_butlast [THEN iffD1, THEN conjunct1, OF refl] e2(2)] unfolding e2(3) .
  show ?thesis
    using that [OF e3(1)] status_counters_run [OF e3(1)] e3(2) by (simp add: numeral_3_eq_3)
qed

theorem skips_count_losses_witness:
  "\<exists>evs st p out. thread_run (thread_start 0 (Publisher_new 2000000000 1 0)) evs st \<and>
    status_counters evs = [0, 1, 2] \<and>
    dump_loop (DumpArgs_new\<lparr> a_statsSec := 1 \<rparr>) 0
      [(10, Received (sample_status 0) 100), (300, Received (sample_status 2) 200100), (1000000, NothingYet)] Dump_new =
        (Finished p, out) \<and> counterSkips p = 1"
proof -
  let ?es = "[(10, Received (sample_status 0) 100), (300, Received (sample_status 2) 200100), (1000000, NothingYet)]"
  let ?o = "DumpArgs_new\<lparr> a_statsSec := 1 \<rparr>"
  obtain evs st where run: "thread_run (thread_start 0 (Publisher_new 2000000000 1 0)) evs st"
    and c: "status_counters evs = [0, 1, 2]" by (rule three_status_frames)
  have l: "dump_loop ?o 0 ?es Dump_new =
      (Finished (dump_measure (sample_status 2) 200100 (dump_measure (sample_status 0) 100 Dump_new)), [])"
    by (simp add: DumpArgs_new_def)
  have h: "heard_in ?o 0 ?es = [(sample_status 0, 100), (sample_status 2, 200100)]"
    by (simp add: heard_in_def DumpArgs_new_def)
  have "heard_counters (heard_in ?o 0 ?es) = [0, 2]"
    unfolding h by (simp add: heard_counters_def of_id_def sample_status_def contract_consts CAN_SFF_MASK_def)
  then have "heard_counters (heard_in ?o 0 ?es) = map (\<lambda>k. status_counters evs ! k) [0, 2]"
    by (simp add: c)
  then have "counterSkips (dump_measure (sample_status 2) 200100 (dump_measure (sample_status 0) 100 Dump_new)) = 1"
    using skips_count_losses [OF run l, of "[0, 2]"] by (simp add: c adjacent_def)
  then show ?thesis using run c l by blast
qed

end
